(* ===== verification/Prelude.thy ===== *)
theory Prelude
  imports Main "HOL-Library.Word" "HOL-Library.Finite_Map" "HOL-Library.Signed_Division"
    "HOL-Library.Char_ord" "HOL-Library.List_Lexorder"
begin

text \<open>
  What the components share: how Go values are represented, and the generic lemmas about
  them.
  \<^item> A Go \<open>string\<close> and a Go \<open>[]byte\<close> are byte sequences; both are Isabelle's \<^typ>\<open>string\<close>
    (a character is one byte), so the conversions \<open>[]byte(s)\<close> and \<open>string(b)\<close> are the
    identity.
  \<^item> Go's \<open>int\<close> and \<open>int64\<close> are \<^typ>\<open>int\<close>, with \<open>int64\<close> below applied where an operation
    can wrap around; \<open>/\<close> and \<open>%\<close> truncate towards zero, which is \<open>sdiv\<close> and \<open>smod\<close>;
    \<open>uint64\<close> is \<^typ>\<open>64 word\<close>.
  \<^item> A Go map is a finite map \<^typ>\<open>('k, 'v) fmap\<close>. A missing inner map of a map of maps is
    Go's nil map, of length 0, which \<open>inner\<close> reads as the empty map; \<open>vote\<close> is the idiom
    \<open>if m[s] == nil { m[s] = make(..) }; m[s][k] = v\<close>.
  \<^item> \<open>for k, v := range m\<close> visits the entries in an order Go leaves open; \<open>entries\<close> lists
    them in key order, one of the orders the program may see.
  \<^item> A call that changes state returns a pair of an error (\<open>None\<close> for Go's nil) and the new
    state, because several operations fail after they have changed the state.
\<close>

section \<open>Theorem collections and names of types\<close>

named_theorems go_simps \<open>rewriting Go arithmetic and map operations\<close>
named_theorems inv_intros \<open>preservation of the components' invariants\<close>

type_synonym bytes = string
type_synonym ('k, 'v) gomap = "('k, 'v) fmap"
type_synonym uint64 = "64 word"

abbreviation mget :: "('k, 'v) gomap \<Rightarrow> 'k \<Rightarrow> 'v option" where
  "mget \<equiv> fmlookup"

abbreviation mhas :: "('k, 'v) gomap \<Rightarrow> 'k \<Rightarrow> bool" where
  "mhas m k \<equiv> k |\<in>| fmdom m"

section \<open>Signed 64-bit arithmetic\<close>

definition int64 :: "int \<Rightarrow> int" where
  "int64 x = (x + 2 ^ 63) mod 2 ^ 64 - 2 ^ 63"

definition in_int64 :: "int \<Rightarrow> bool" where
  "in_int64 x \<longleftrightarrow> - (2 ^ 63) \<le> x \<and> x < 2 ^ 63"

lemma int64_id [go_simps]: "in_int64 x \<Longrightarrow> int64 x = x"
  by (simp add: int64_def in_int64_def)

lemma in_int64_int64 [simp, intro]: "in_int64 (int64 x)"
proof -
  have "0 \<le> (x + 2 ^ 63) mod 2 ^ 64" and "(x + 2 ^ 63) mod 2 ^ 64 < 2 ^ 64"
    by simp_all
  then show ?thesis by (simp add: int64_def in_int64_def)
qed

lemma int64_succ_less: "in_int64 x \<Longrightarrow> x < 2 ^ 63 - 1 \<Longrightarrow> int64 (x + 1) = x + 1"
  by (simp add: int64_id in_int64_def)

lemma sdiv_nonneg [go_simps]: "0 \<le> (a::int) \<Longrightarrow> 0 < b \<Longrightarrow> a sdiv b = a div b"
  by (cases "a = 0") (simp_all add: signed_divide_int_def)

lemma smod_nonneg [go_simps]: "0 \<le> (a::int) \<Longrightarrow> 0 < b \<Longrightarrow> a smod b = a mod b"
  by (cases "a = 0") (simp_all add: signed_modulo_int_def)

lemma word_less_succ: "(a::uint64) \<noteq> - 1 \<Longrightarrow> a < a + 1"
proof -
  assume "a \<noteq> - 1"
  then have "1 + a \<noteq> 0" by (metis add_eq_0_iff2 add.commute)
  then have "unat (1 + a) = Suc (unat a)" by (rule unatSuc)
  then show ?thesis by (simp add: word_less_nat_alt add.commute)
qed

section \<open>Maps\<close>

text \<open>The library's congruence rule for \<open>fmfilter\<close> keeps the simplifier out of its map argument.\<close>

declare fmfilter_cong [cong del]

definition golen :: "('k, 'v) gomap \<Rightarrow> int" where
  "golen m = int (fcard (fmdom m))"

definition inner :: "('s, ('k, 'v) gomap) gomap \<Rightarrow> 's \<Rightarrow> ('k, 'v) gomap" where
  "inner m s = (case mget m s of None \<Rightarrow> fmempty | Some x \<Rightarrow> x)"

definition vote :: "'s \<Rightarrow> 'k \<Rightarrow> 'v \<Rightarrow> ('s, ('k, 'v) gomap) gomap \<Rightarrow> ('s, ('k, 'v) gomap) gomap" where
  "vote s k v m = fmupd s (fmupd k v (inner m s)) m"

lemma golen_empty [simp]: "golen fmempty = 0"
  by (simp add: golen_def fcard_fempty)

lemma golen_nonneg [simp]: "0 \<le> golen m"
  by (simp add: golen_def)

lemma golen_upd: "golen (fmupd k v m) = (if mhas m k then golen m else golen m + 1)"
  by (simp add: golen_def fcard_finsert_if)

lemma golen_upd_mono: "golen m \<le> golen (fmupd k v m)"
  by (simp add: golen_upd)

lemma golen_dom: "fmdom m = fmdom m' \<Longrightarrow> golen m = golen m'"
  by (simp add: golen_def)

lemma golen_mono: "fmdom m |\<subseteq>| fmdom m' \<Longrightarrow> golen m \<le> golen m'"
  by (simp add: golen_def fcard_mono)

lemma golen_card: "golen m = int (card (fset (fmdom m)))"
  by (simp add: golen_def fcard.rep_eq)

lemma golen_drop: "golen (fmdrop k m) = (if mhas m k then golen m - 1 else golen m)"
proof (cases "mhas m k")
  case True
  then have "1 \<le> card (fset (fmdom m))" by (auto simp: Suc_le_eq card_gt_0_iff)
  with True show ?thesis by (simp add: golen_card card_Diff_singleton_if of_nat_diff)
qed (simp add: fmdrop_idle)

lemma inner_empty [simp]: "inner fmempty s = fmempty"
  by (simp add: inner_def)

lemma inner_vote [simp]:
  "inner (vote s k v m) s' = (if s = s' then fmupd k v (inner m s) else inner m s')"
  by (simp add: vote_def inner_def)

lemma inner_filter [simp]:
  "inner (fmfilter P m) s = (if P s then inner m s else fmempty)"
  by (simp add: inner_def)

lemma fmdom_vote [simp]: "fmdom (vote s k v m) = finsert s (fmdom m)"
  by (simp add: vote_def)

lemma mget_vote_same [simp]: "mget (vote s k v m) s = Some (fmupd k v (inner m s))"
  by (simp add: vote_def)

subsection \<open>Iteration\<close>

definition keys :: "('k::linorder, 'v) gomap \<Rightarrow> 'k list" where
  "keys m = sorted_list_of_fset (fmdom m)"

definition entries :: "('k::linorder, 'v) gomap \<Rightarrow> ('k \<times> 'v) list" where
  "entries m = map (\<lambda>k. (k, the (mget m k))) (keys m)"

text \<open>A list of pairs is an order in which \<open>range\<close> may visit the map.\<close>

definition enumerates :: "('k \<times> 'v) list \<Rightarrow> ('k, 'v) gomap \<Rightarrow> bool" where
  "enumerates es m \<longleftrightarrow> distinct (map fst es) \<and> (\<forall>k v. (k, v) \<in> set es \<longleftrightarrow> mget m k = Some v)"

lemma set_keys [simp]: "set (keys m) = fset (fmdom m)"
  by (simp add: keys_def)

lemma distinct_keys [simp]: "distinct (keys m)"
  by (simp add: keys_def sorted_list_of_fset.rep_eq)

lemma length_keys [simp]: "int (length (keys m)) = golen m"
  using distinct_card [OF distinct_keys, of m] by (simp add: golen_def fcard.rep_eq)

lemma enumerates_entries [simp, intro]: "enumerates (entries m) m"
  by (auto simp: enumerates_def entries_def comp_def fmlookup_dom_iff)

lemma enumerates_length: "enumerates es m \<Longrightarrow> int (length es) = golen m"
proof -
  assume e: "enumerates es m"
  have "set (map fst es) = fset (fmdom m)"
    using e by (force simp: enumerates_def fmlookup_dom_iff)
  then show ?thesis
    using distinct_card [of "map fst es"] e by (simp add: enumerates_def golen_def fcard.rep_eq)
qed

lemma enumerates_empty [simp]: "enumerates es fmempty \<longleftrightarrow> es = []"
  by (cases es) (auto simp: enumerates_def)

section \<open>Images and finite counting\<close>

lemma not_in_image: "a \<notin> f ` S \<longleftrightarrow> (\<forall>x \<in> S. f x \<noteq> a)"
  by (auto simp: image_iff)

lemma card_inter_bound:
  assumes "finite U" and "A \<subseteq> U" and "B \<subseteq> U"
  shows "card A + card B \<le> card (A \<inter> B) + card U"
proof -
  have fin: "finite A" "finite B" using assms by (auto intro: finite_subset)
  have "card A + card B = card (A \<union> B) + card (A \<inter> B)"
    using fin by (rule card_Un_Int)
  moreover have "card (A \<union> B) \<le> card U"
    using assms by (intro card_mono) auto
  ultimately show ?thesis by simp
qed

lemma find_SomeD: "find P xs = Some x \<Longrightarrow> x \<in> set xs \<and> P x"
  by (induction xs) (auto split: if_splits)

lemma filter_count_map: "length (filter P (map g xs)) = length (filter (\<lambda>x. P (g x)) xs)"
  by (induction xs) auto

end
