(* ===== verification/Go_Text.thy ===== *)
theory Go_Text
  imports Prelude
begin

text \<open>
  Go's decimal formatting: \<open>strconv.FormatInt(x, 10)\<close> and the verb \<open>%d\<close> print an integer
  in base 10 with a leading minus sign where it is negative. The consensus layer builds node
  names with it (\<open>fmt.Sprintf("node%d", i)\<close>), the storage layer its keys. The theory shows
  that the printed forms are injective and how they compare.
\<close>

section \<open>Decimal digits\<close>

definition digit_char :: "nat \<Rightarrow> char" where
  "digit_char d = char_of (48 + d)"

definition char_digit :: "char \<Rightarrow> nat" where
  "char_digit c = of_char c - 48"

fun dec_nat :: "nat \<Rightarrow> string" where
  "dec_nat n = (if n < 10 then [digit_char n] else dec_nat (n div 10) @ [digit_char (n mod 10)])"

declare dec_nat.simps [simp del]

definition FormatInt :: "int \<Rightarrow> string" where
  "FormatInt x = (if x < 0 then CHR ''-'' # dec_nat (nat (- x)) else dec_nat (nat x))"

text \<open>The value a digit string denotes; the inverse of printing.\<close>

definition dec_val :: "string \<Rightarrow> nat" where
  "dec_val s = foldl (\<lambda>a c. 10 * a + char_digit c) 0 s"

section \<open>Printing is injective\<close>

lemma of_char_digit [simp]: "d < 10 \<Longrightarrow> (of_char (digit_char d) :: nat) = 48 + d"
  by (simp add: digit_char_def)

lemma char_digit_digit [simp]: "d < 10 \<Longrightarrow> char_digit (digit_char d) = d"
  by (simp add: char_digit_def)

lemma dec_val_snoc [simp]: "dec_val (s @ [c]) = 10 * dec_val s + char_digit c"
  by (simp add: dec_val_def)

lemma dec_val_dec_nat [simp]: "dec_val (dec_nat n) = n"
proof (induction n rule: dec_nat.induct)
  case (1 n)
  show ?case
  proof (cases "n < 10")
    case True
    then show ?thesis by (simp add: dec_nat.simps [of n] dec_val_def)
  next
    case False
    with "1.IH" have ih: "dec_val (dec_nat (n div 10)) = n div 10" by simp
    from False show ?thesis by (simp add: dec_nat.simps [of n] ih)
  qed
qed

lemma dec_nat_inj [simp]: "dec_nat a = dec_nat b \<longleftrightarrow> a = b"
  by (metis dec_val_dec_nat)

lemma dec_nat_nonempty [simp]: "dec_nat n \<noteq> []"
  by (simp add: dec_nat.simps [of n])

lemma dec_nat_digits: "c \<in> set (dec_nat n) \<Longrightarrow> \<exists>d<10. c = digit_char d"
proof (induction n rule: dec_nat.induct)
  case (1 n)
  show ?case
  proof (cases "n < 10")
    case True
    with "1.prems" show ?thesis by (auto simp: dec_nat.simps [of n])
  next
    case False
    with "1.prems" have "c \<in> set (dec_nat (n div 10)) \<or> c = digit_char (n mod 10)"
      by (auto simp: dec_nat.simps [of n])
    then show ?thesis
    proof
      assume "c = digit_char (n mod 10)"
      moreover have "n mod 10 < 10" by simp
      ultimately show ?thesis by blast
    qed (rule "1.IH" [OF False])
  qed
qed

lemma minus_not_digit: "d < 10 \<Longrightarrow> CHR ''-'' \<noteq> digit_char d"
proof
  assume "d < 10" and "CHR ''-'' = digit_char d"
  then have "(of_char (CHR ''-'') :: nat) = 48 + d" by simp
  then show False by simp
qed

lemma minus_not_in_dec_nat [simp]: "CHR ''-'' \<notin> set (dec_nat n)"
  using dec_nat_digits minus_not_digit by blast

lemma dec_nat_not_minus [simp]: "dec_nat n \<noteq> CHR ''-'' # s"
proof
  assume "dec_nat n = CHR ''-'' # s"
  then have "CHR ''-'' \<in> set (dec_nat n)" by simp
  then show False by simp
qed

lemmas minus_not_dec_nat [simp] = dec_nat_not_minus [symmetric]

lemma FormatInt_inj [simp]: "FormatInt x = FormatInt y \<longleftrightarrow> x = y"
  by (auto simp: FormatInt_def)

end
