(* ===== verification/Quorum.thy ===== *)
theory Quorum
  imports Go_Text
begin

text \<open>
  \<open>pkg/consensus/quorum.go\<close>: the quorum checker, and the quorum arithmetic that
  \<open>NewPBFTNode\<close> and the handlers of \<open>pbft.go\<close> repeat. The locale \<open>quorum_system\<close> states
  what a Byzantine quorum promises; the \<open>2f+1\<close> sets of a network of \<open>3f+1\<close> nodes
  satisfy it, and those of a network of another size need not.
\<close>

section \<open>Model\<close>

record Vote =
  v_NodeID :: string
  v_Sequence :: int
  v_Digest :: string
  v_Signature :: bytes
  v_Timestamp :: int

record QuorumChecker =
  qc_totalNodes :: int
  qc_f :: int

datatype quorum_error = InsufficientVotes int int | InsufficientValidVotes int int

text \<open>\<open>(n - 1) / 3\<close> in Go's \<open>int\<close>.\<close>

definition max_faulty :: "int \<Rightarrow> int" where
  "max_faulty n = int64 (n - 1) sdiv 3"

definition NewQuorumChecker :: "int \<Rightarrow> QuorumChecker" where
  "NewQuorumChecker n = \<lparr>qc_totalNodes = n, qc_f = max_faulty n\<rparr>"

definition GetRequiredQuorum :: "QuorumChecker \<Rightarrow> int" where
  "GetRequiredQuorum qc = 2 * qc_f qc + 1"

definition GetMaxByzantineNodes :: "QuorumChecker \<Rightarrow> int" where
  "GetMaxByzantineNodes qc = qc_f qc"

definition CheckQuorum :: "QuorumChecker \<Rightarrow> Vote list \<Rightarrow> bool" where
  "CheckQuorum qc votes \<longleftrightarrow> (let required = 2 * qc_f qc + 1 in required \<le> int (length votes))"

definition CheckPrepareQuorum :: "QuorumChecker \<Rightarrow> (string, 'prepare) gomap \<Rightarrow> bool" where
  "CheckPrepareQuorum qc prepares \<longleftrightarrow> (let required = 2 * qc_f qc + 1 in required \<le> golen prepares)"

definition CheckCommitQuorum :: "QuorumChecker \<Rightarrow> (string, 'commit) gomap \<Rightarrow> bool" where
  "CheckCommitQuorum qc commits \<longleftrightarrow> (let required = 2 * qc_f qc + 1 in required \<le> golen commits)"

fun count_valid :: "int \<Rightarrow> string \<Rightarrow> Vote list \<Rightarrow> int \<Rightarrow> int" where
  "count_valid s d [] n = n"
| "count_valid s d (v # vs) n =
     (if v_Sequence v \<noteq> s then count_valid s d vs n
      else if v_Digest v \<noteq> d then count_valid s d vs n
      else count_valid s d vs (n + 1))"

definition ValidateQuorum ::
  "QuorumChecker \<Rightarrow> Vote list \<Rightarrow> int \<Rightarrow> string \<Rightarrow> quorum_error option" where
  "ValidateQuorum qc votes expectedSequence expectedDigest =
     (if \<not> CheckQuorum qc votes
      then Some (InsufficientVotes (int (length votes)) (2 * qc_f qc + 1))
      else let validVotes = count_valid expectedSequence expectedDigest votes 0
           in if validVotes < 2 * qc_f qc + 1
              then Some (InsufficientValidVotes validVotes (2 * qc_f qc + 1))
              else None)"

definition CanTolerateFailures :: "QuorumChecker \<Rightarrow> int \<Rightarrow> bool" where
  "CanTolerateFailures qc activeNodes \<longleftrightarrow> 2 * qc_f qc + 1 \<le> activeNodes"

definition IsValidNetworkSize :: "int \<Rightarrow> bool" where
  "IsValidNetworkSize n \<longleftrightarrow> 4 \<le> n \<and> int64 (n - 1) smod 3 = 0"

definition CalculateOptimalNetworkSize :: "int \<Rightarrow> int" where
  "CalculateOptimalNetworkSize b = int64 (3 * b + 1)"

section \<open>Quorum arithmetic\<close>

lemma int64_pred: "in_int64 n \<Longrightarrow> 1 \<le> n \<Longrightarrow> int64 (n - 1) = n - 1"
  by (simp add: int64_id in_int64_def)

lemma max_faulty_eq: "in_int64 n \<Longrightarrow> 1 \<le> n \<Longrightarrow> max_faulty n = (n - 1) div 3"
  by (simp add: max_faulty_def int64_pred sdiv_nonneg)

lemma max_faulty_bounds:
  assumes "in_int64 n" and "1 \<le> n"
  shows "0 \<le> max_faulty n" and "3 * max_faulty n + 1 \<le> n" and "n \<le> 3 * max_faulty n + 3"
  using assms by (simp_all add: max_faulty_eq)

lemma IsValidNetworkSize_eq:
  "in_int64 n \<Longrightarrow> IsValidNetworkSize n \<longleftrightarrow> 4 \<le> n \<and> n = 3 * max_faulty n + 1"
proof -
  assume r: "in_int64 n"
  show ?thesis
  proof (cases "4 \<le> n")
    case True
    with r have "int64 (n - 1) = n - 1" by (simp add: int64_pred)
    moreover have "(n - 1) mod 3 = 0 \<longleftrightarrow> n = 3 * ((n - 1) div 3) + 1"
      by presburger
    ultimately show ?thesis
      using True r by (simp only: IsValidNetworkSize_def max_faulty_eq smod_nonneg)
  qed (simp add: IsValidNetworkSize_def)
qed

lemma count_valid_eq:
  "count_valid s d vs n = n + int (length (filter (\<lambda>v. v_Sequence v = s \<and> v_Digest v = d) vs))"
  by (induction s d vs n rule: count_valid.induct) auto

section \<open>Byzantine quorum systems\<close>

locale quorum_system =
  fixes U :: "'a set" and faults :: nat and is_quorum :: "'a set \<Rightarrow> bool"
  assumes finite_U: "finite U"
    and quorum_subset: "is_quorum A \<Longrightarrow> A \<subseteq> U"
    and quorum_overlap: "is_quorum A \<Longrightarrow> is_quorum B \<Longrightarrow> faults < card (A \<inter> B)"
    and quorum_available: "F \<subseteq> U \<Longrightarrow> card F \<le> faults \<Longrightarrow> is_quorum (U - F)"
begin

lemma quorum_correct_member:
  assumes "is_quorum A" and "is_quorum B" and "F \<subseteq> U" and "card F \<le> faults"
  shows "\<exists>x \<in> A \<inter> B. x \<notin> F"
proof (rule ccontr)
  assume "\<not> ?thesis"
  then have "A \<inter> B \<subseteq> F" by blast
  moreover have "finite F" using assms(3) finite_U by (rule finite_subset)
  ultimately have "card (A \<inter> B) \<le> card F" by (intro card_mono)
  with quorum_overlap [OF assms(1,2)] assms(4) show False by simp
qed

lemma quorum_decides_once:
  assumes "is_quorum A" and "is_quorum B" and "F \<subseteq> U" and "card F \<le> faults"
    and "\<And>x. x \<in> A \<Longrightarrow> voted x a" and "\<And>x. x \<in> B \<Longrightarrow> voted x b"
    and "\<And>x c c'. x \<notin> F \<Longrightarrow> voted x c \<Longrightarrow> voted x c' \<Longrightarrow> c = c'"
  shows "a = b"
  using quorum_correct_member [OF assms(1-4)] assms(5-7) by blast

end

text \<open>The nodes of a network are named \<open>node0\<close>, \<open>node1\<close>, and so on.\<close>

definition node_name :: "int \<Rightarrow> string" where
  "node_name i = ''node'' @ FormatInt i"

definition cluster_ids :: "int \<Rightarrow> string set" where
  "cluster_ids n = node_name ` {0..<n}"

definition quorum_of :: "int \<Rightarrow> string set \<Rightarrow> bool" where
  "quorum_of n A \<longleftrightarrow> A \<subseteq> cluster_ids n \<and> 2 * max_faulty n + 1 \<le> int (card A)"

lemma node_name_inj [simp]: "node_name i = node_name j \<longleftrightarrow> i = j"
  by (simp add: node_name_def)

lemma finite_cluster_ids [simp]: "finite (cluster_ids n)"
  by (simp add: cluster_ids_def)

lemma card_cluster_ids: "int (card (cluster_ids n)) = max n 0"
proof -
  have "inj_on node_name {0..<n}" by (simp add: inj_on_def)
  then show ?thesis by (simp add: cluster_ids_def card_image)
qed

lemma quorum_of_overlap:
  assumes "quorum_of n A" and "quorum_of n B" and "0 \<le> n"
  shows "2 * (2 * max_faulty n + 1) - n \<le> int (card (A \<inter> B))"
proof -
  have "card A + card B \<le> card (A \<inter> B) + card (cluster_ids n)"
    using assms by (intro card_inter_bound) (auto simp: quorum_of_def)
  then have "int (card A) + int (card B) \<le> int (card (A \<inter> B)) + n"
    using card_cluster_ids [of n] assms(3) by linarith
  with assms show ?thesis by (auto simp: quorum_of_def)
qed

lemma max_faulty_3f1: "max_faulty (3 * uint (k::32 word) + 1) = uint k"
proof -
  have "uint k < 2 ^ 32" using uint_lt2p [of k] by simp
  moreover have "0 \<le> uint k" by simp
  ultimately have "in_int64 (3 * uint k + 1)" by (simp add: in_int64_def)
  then show ?thesis by (simp add: max_faulty_eq)
qed

text \<open>
  The networks the code calls valid, of \<open>3f+1\<close> nodes, with a fault bound that fits in 32
  bits: their \<open>2f+1\<close> sets are a Byzantine quorum system.
\<close>

interpretation pbftq: quorum_system "cluster_ids (3 * uint k + 1)" "unat k"
    "quorum_of (3 * uint k + 1)" for k :: "32 word"
proof unfold_locales
  fix A B
  assume "quorum_of (3 * uint k + 1) A" and "quorum_of (3 * uint k + 1) B"
  then have "2 * (2 * uint k + 1) - (3 * uint k + 1) \<le> int (card (A \<inter> B))"
    using quorum_of_overlap [of "3 * uint k + 1" A B] by (simp add: max_faulty_3f1)
  then have "int (unat k) < int (card (A \<inter> B))" by simp
  then show "unat k < card (A \<inter> B)" by (simp only: of_nat_less_iff)
next
  fix F
  assume F: "F \<subseteq> cluster_ids (3 * uint k + 1)" and c: "card F \<le> unat k"
  have "card (cluster_ids (3 * uint k + 1) - F) =
      card (cluster_ids (3 * uint k + 1)) - card F"
    using F by (intro card_Diff_subset) (auto intro: finite_subset)
  moreover have "int (card (cluster_ids (3 * uint k + 1))) = 3 * uint k + 1"
    by (simp add: card_cluster_ids)
  moreover have "int (card F) \<le> uint k"
    using c by (metis of_nat_le_iff uint_nat)
  ultimately have "2 * uint k + 1 \<le> int (card (cluster_ids (3 * uint k + 1) - F))"
    by linarith
  then show "quorum_of (3 * uint k + 1) (cluster_ids (3 * uint k + 1) - F)"
    by (simp add: quorum_of_def max_faulty_3f1)
qed (auto simp: quorum_of_def)

section \<open>What the quorum checker guarantees\<close>

definition valid_votes :: "int \<Rightarrow> string \<Rightarrow> Vote list \<Rightarrow> Vote list" where
  "valid_votes s d vs = filter (\<lambda>v. v_Sequence v = s \<and> v_Digest v = d) vs"

lemma ValidateQuorum_None_iff:
  "ValidateQuorum qc vs s d = None \<longleftrightarrow> 2 * qc_f qc + 1 \<le> int (length (valid_votes s d vs))"
proof -
  have "int (length (valid_votes s d vs)) \<le> int (length vs)"
    by (simp add: valid_votes_def)
  then show ?thesis
    by (simp add: ValidateQuorum_def CheckQuorum_def count_valid_eq Let_def not_le
        flip: valid_votes_def)
qed

lemma distinct_filter_ids:
  "distinct (map v_NodeID vs) \<Longrightarrow> distinct (map v_NodeID (valid_votes s d vs))"
  by (simp add: valid_votes_def distinct_map_filter)

lemma valid_voters_quorum:
  assumes "ValidateQuorum (NewQuorumChecker n) vs s d = None"
    and "distinct (map v_NodeID vs)" and "v_NodeID ` set vs \<subseteq> cluster_ids n"
  shows "quorum_of n (v_NodeID ` set (valid_votes s d vs))"
proof -
  have "card (v_NodeID ` set (valid_votes s d vs)) = length (valid_votes s d vs)"
    using distinct_card [OF distinct_filter_ids [OF assms(2)], of s d] by simp
  with assms show ?thesis
    by (auto simp: quorum_of_def ValidateQuorum_None_iff NewQuorumChecker_def valid_votes_def)
qed

lemma valid_size_as_word:
  assumes "IsValidNetworkSize n" and "n \<le> 2 ^ 32"
  obtains k :: "32 word" where "n = 3 * uint k + 1"
proof -
  have "4 \<le> n" using assms by (simp add: IsValidNetworkSize_def)
  moreover from this assms have "n = 3 * max_faulty n + 1"
    by (simp add: IsValidNetworkSize_eq in_int64_def)
  ultimately have "n = 3 * uint (word_of_int (max_faulty n) :: 32 word) + 1"
    using assms(2) by (simp add: uint_word_of_int)
  then show ?thesis by (rule that)
qed

lemma inj_node_name: "inj_on node_name I"
  by (simp add: inj_on_def)

lemma interval_quorum:
  assumes "0 \<le> a" and "a + 2 * max_faulty n + 1 \<le> n" and "0 \<le> max_faulty n"
  shows "quorum_of n (node_name ` {a..<a + 2 * max_faulty n + 1})"
  using assms by (auto simp: quorum_of_def cluster_ids_def card_image [OF inj_node_name])

lemma small_overlap:
  assumes "1 \<le> n" and "in_int64 n" and "n \<noteq> 3 * max_faulty n + 1"
  shows "\<exists>A B. quorum_of n A \<and> quorum_of n B \<and> int (card (A \<inter> B)) \<le> max_faulty n"
proof -
  define f where "f = max_faulty n"
  define b where "b = n - (2 * f + 1)"
  have f: "0 \<le> f" "3 * f + 2 \<le> n" "n \<le> 3 * f + 3"
    using max_faulty_bounds [OF assms(2,1)] assms(3) by (simp_all add: f_def)
  have A: "quorum_of n (node_name ` {0..<2 * f + 1})"
    using interval_quorum [of 0 n] f by (simp add: f_def)
  have B: "quorum_of n (node_name ` {b..<n})"
    using interval_quorum [of b n] f by (simp add: f_def b_def algebra_simps)
  have "node_name ` {0..<2 * f + 1} \<inter> node_name ` {b..<n} = node_name ` {b..<2 * f + 1}"
    using f by (auto simp: b_def)
  then have "int (card (node_name ` {0..<2 * f + 1} \<inter> node_name ` {b..<n})) \<le> f"
    using f by (simp add: card_image [OF inj_node_name] b_def)
  with A B show ?thesis unfolding f_def by blast
qed

text \<open>
  C17: for the network sizes \<open>IsValidNetworkSize\<close> accepts, two successful \<open>ValidateQuorum\<close>
  calls for one sequence name the same digest, as long as every vote list has one vote per
  node, at most \<open>f\<close> nodes are faulty and the others vote for one digest per sequence.
\<close>

theorem ValidateQuorum_agreement:
  assumes "IsValidNetworkSize n" and "n \<le> 2 ^ 32"
    and "ValidateQuorum (NewQuorumChecker n) vs s d = None"
    and "ValidateQuorum (NewQuorumChecker n) ws s d' = None"
    and "distinct (map v_NodeID vs)" and "distinct (map v_NodeID ws)"
    and "v_NodeID ` set vs \<subseteq> cluster_ids n" and "v_NodeID ` set ws \<subseteq> cluster_ids n"
    and "F \<subseteq> cluster_ids n" and "int (card F) \<le> max_faulty n"
    and honest: "\<And>v w. v \<in> set vs \<Longrightarrow> w \<in> set ws \<Longrightarrow> v_NodeID v = v_NodeID w \<Longrightarrow>
      v_NodeID v \<notin> F \<Longrightarrow> v_Sequence v = v_Sequence w \<Longrightarrow> v_Digest v = v_Digest w"
  shows "d = d'"
proof -
  obtain k :: "32 word" where k: "n = 3 * uint k + 1"
    using assms(1,2) by (rule valid_size_as_word)
  let ?A = "v_NodeID ` set (valid_votes s d vs)" and ?B = "v_NodeID ` set (valid_votes s d' ws)"
  have "quorum_of n ?A" and "quorum_of n ?B"
    using valid_voters_quorum assms(3-8) by blast+
  moreover have "int (card F) \<le> uint k"
    using assms(10) by (simp add: k max_faulty_3f1)
  then have "card F \<le> unat k" by (metis of_nat_le_iff uint_nat)
  ultimately obtain x where "x \<in> ?A \<inter> ?B" and "x \<notin> F"
    using pbftq.quorum_correct_member [of k ?A ?B F] assms(9) unfolding k by blast
  then obtain v w where "v \<in> set (valid_votes s d vs)" "w \<in> set (valid_votes s d' ws)"
    and "x = v_NodeID v" "x = v_NodeID w" and "x \<notin> F" by blast
  then show ?thesis using honest [of v w] by (simp add: valid_votes_def)
qed

definition example_vote :: "string \<Rightarrow> string \<Rightarrow> Vote" where
  "example_vote i d = \<lparr>v_NodeID = i, v_Sequence = 1, v_Digest = d, v_Signature = [], v_Timestamp = 0\<rparr>"

definition example_votes :: "int list \<Rightarrow> Vote list" where
  "example_votes is = map (\<lambda>i. example_vote (node_name i) ''d'') is"

theorem ValidateQuorum_agreement_witness:
  "ValidateQuorum (NewQuorumChecker 4) (example_votes [0, 1, 2]) 1 ''d'' = None \<and>
   ValidateQuorum (NewQuorumChecker 4) (example_votes [1, 2, 3]) 1 ''d'' = None \<and> ''d'' = ''d''"
proof (intro conjI)
  have n: "IsValidNetworkSize 4" and f: "max_faulty 4 = 1" by code_simp+
  show q: "ValidateQuorum (NewQuorumChecker 4) (example_votes [0, 1, 2]) 1 ''d'' = None"
    and q': "ValidateQuorum (NewQuorumChecker 4) (example_votes [1, 2, 3]) 1 ''d'' = None"
    by (simp_all add: ValidateQuorum_None_iff valid_votes_def NewQuorumChecker_def f
        example_votes_def example_vote_def)
  have "node_name i \<in> cluster_ids 4" if "i \<in> {0..<4}" for i
    using that by (simp add: cluster_ids_def)
  then show "''d'' = ''d''"
    using ValidateQuorum_agreement [OF n _ q q', of "{node_name 3}"] f
    by (simp add: example_votes_def example_vote_def)
qed

text \<open>
  A network of \<open>n\<close> nodes has the Byzantine overlap property (any two sets of \<open>2f+1\<close>
  nodes share more than \<open>f\<close>) exactly when \<open>n = 3f+1\<close>. \<open>NewPBFTNode\<close> and
  \<open>NewQuorumChecker\<close> accept every \<open>n\<close> and never call \<open>IsValidNetworkSize\<close>.
\<close>

theorem quorum_overlap_iff:
  assumes "in_int64 n" and "1 \<le> n"
  shows "(\<forall>A B. quorum_of n A \<and> quorum_of n B \<longrightarrow> max_faulty n < int (card (A \<inter> B)))
    \<longleftrightarrow> n = 3 * max_faulty n + 1"
proof
  assume "\<forall>A B. quorum_of n A \<and> quorum_of n B \<longrightarrow> max_faulty n < int (card (A \<inter> B))"
  then show "n = 3 * max_faulty n + 1"
    using small_overlap [OF assms(2,1)] by (meson not_le)
next
  assume n: "n = 3 * max_faulty n + 1"
  show "\<forall>A B. quorum_of n A \<and> quorum_of n B \<longrightarrow> max_faulty n < int (card (A \<inter> B))"
  proof (intro allI impI)
    fix A B
    assume "quorum_of n A \<and> quorum_of n B"
    then show "max_faulty n < int (card (A \<inter> B))"
      using quorum_of_overlap [of n A B] assms n by simp
  qed
qed

theorem quorum_overlap_iff_witness:
  "\<not> (\<forall>A B. quorum_of 6 A \<and> quorum_of 6 B \<longrightarrow> max_faulty 6 < int (card (A \<inter> B)))"
proof -
  have "in_int64 6" and "6 \<noteq> 3 * max_faulty 6 + 1" by code_simp+
  then show ?thesis using quorum_overlap_iff [of 6] by simp
qed

text \<open>
  \<open>ValidateQuorum\<close> counts votes, not voters: one node's vote repeated \<open>2f+1\<close> times
  is a quorum.
\<close>

theorem ValidateQuorum_counts_duplicates:
  "ValidateQuorum qc (replicate (nat (2 * qc_f qc + 1)) v) (v_Sequence v) (v_Digest v) = None"
  by (simp add: ValidateQuorum_None_iff valid_votes_def)

end
