(* ===== verification/Sha256.thy ===== *)
theory Sha256
  imports Prelude
begin

text \<open>
  What the source uses of Go's \<open>crypto/sha256\<close> and \<open>encoding/hex\<close>: \<open>Sum256\<close> as in
  FIPS 180-4, on 32-bit words, and \<open>EncodeToString\<close>. Both are executable, so digests can
  be computed; what the components rely on is the length and the alphabet of a digest and
  that the hexadecimal encoding loses nothing.
\<close>

unbundle bit_operations_syntax

section \<open>Model\<close>

definition sha_K :: "32 word list" where
  "sha_K = [
    1116352408, 1899447441, 3049323471, 3921009573, 961987163, 1508970993, 2453635748, 2870763221,
    3624381080, 310598401, 607225278, 1426881987, 1925078388, 2162078206, 2614888103, 3248222580,
    3835390401, 4022224774, 264347078, 604807628, 770255983, 1249150122, 1555081692, 1996064986,
    2554220882, 2821834349, 2952996808, 3210313671, 3336571891, 3584528711, 113926993, 338241895,
    666307205, 773529912, 1294757372, 1396182291, 1695183700, 1986661051, 2177026350, 2456956037,
    2730485921, 2820302411, 3259730800, 3345764771, 3516065817, 3600352804, 4094571909, 275423344,
    430227734, 506948616, 659060556, 883997877, 958139571, 1322822218, 1537002063, 1747873779,
    1955562222, 2024104815, 2227730452, 2361852424, 2428436474, 2756734187, 3204031479, 3329325298]"

definition sha_H0 :: "32 word list" where
  "sha_H0 = [
    1779033703, 3144134277, 1013904242, 2773480762, 1359893119, 2600822924, 528734635, 1541459225]"

definition rotr32 :: "nat \<Rightarrow> 32 word \<Rightarrow> 32 word" where
  "rotr32 n w = drop_bit n w OR push_bit (32 - n) w"

definition be32 :: "32 word \<Rightarrow> 32 word \<Rightarrow> 32 word \<Rightarrow> 32 word \<Rightarrow> 32 word" where
  "be32 a b c d = push_bit 24 a OR push_bit 16 b OR push_bit 8 c OR d"

definition bytes_of :: "32 word \<Rightarrow> 32 word list" where
  "bytes_of w = [drop_bit 24 w, drop_bit 16 w AND 0xFF, drop_bit 8 w AND 0xFF, w AND 0xFF]"

definition sha_pad :: "32 word list \<Rightarrow> 32 word list" where
  "sha_pad m = m @ [0x80] @ replicate ((119 - length m mod 64) mod 64) 0 @
     bytes_of (word_of_nat (8 * length m div 2 ^ 32)) @ bytes_of (word_of_nat (8 * length m))"

fun sha_words :: "32 word list \<Rightarrow> 32 word list" where
  "sha_words (a # b # c # d # xs) = be32 a b c d # sha_words xs"
| "sha_words _ = []"

text \<open>The message schedule, newest word first.\<close>

fun sha_extend :: "nat \<Rightarrow> 32 word list \<Rightarrow> 32 word list" where
  "sha_extend 0 w = w"
| "sha_extend (Suc k) w =
     (let x = w ! 14; y = w ! 1;
          s0 = rotr32 7 x XOR rotr32 18 x XOR drop_bit 3 x;
          s1 = rotr32 17 y XOR rotr32 19 y XOR drop_bit 10 y
      in sha_extend k ((w ! 15 + s0 + w ! 6 + s1) # w))"

type_synonym sha_state =
  "32 word \<times> 32 word \<times> 32 word \<times> 32 word \<times> 32 word \<times> 32 word \<times> 32 word \<times> 32 word"

fun sha_round :: "32 word \<times> 32 word \<Rightarrow> sha_state \<Rightarrow> sha_state" where
  "sha_round (k, w) (a, b, c, d, e, f, g, h) =
     (let S1 = rotr32 6 e XOR rotr32 11 e XOR rotr32 25 e;
          ch = (e AND f) XOR (NOT e AND g);
          t1 = h + S1 + ch + k + w;
          S0 = rotr32 2 a XOR rotr32 13 a XOR rotr32 22 a;
          maj = (a AND b) XOR (a AND c) XOR (b AND c);
          t2 = S0 + maj
      in (t1 + t2, a, b, c, d + t1, e, f, g))"

fun sha_add :: "sha_state \<Rightarrow> sha_state \<Rightarrow> sha_state" where
  "sha_add (a, b, c, d, e, f, g, h) (a', b', c', d', e', f', g', h') =
     (a + a', b + b', c + c', d + d', e + e', f + f', g + g', h + h')"

definition sha_block :: "32 word list \<Rightarrow> sha_state \<Rightarrow> sha_state" where
  "sha_block ws s = sha_add s (fold sha_round (zip sha_K (rev (sha_extend 48 (rev ws)))) s)"

fun sha_blocks :: "nat \<Rightarrow> 32 word list \<Rightarrow> sha_state \<Rightarrow> sha_state" where
  "sha_blocks 0 ws s = s"
| "sha_blocks (Suc n) ws s = sha_blocks n (drop 16 ws) (sha_block (take 16 ws) s)"

definition sha_init :: sha_state where
  "sha_init = (sha_H0 ! 0, sha_H0 ! 1, sha_H0 ! 2, sha_H0 ! 3, sha_H0 ! 4, sha_H0 ! 5, sha_H0 ! 6,
     sha_H0 ! 7)"

fun sha_list :: "sha_state \<Rightarrow> 32 word list" where
  "sha_list (a, b, c, d, e, f, g, h) = [a, b, c, d, e, f, g, h]"

definition Sum256 :: "bytes \<Rightarrow> bytes" where
  "Sum256 m =
     (let ws = sha_words (sha_pad (map of_char m));
          s = sha_blocks (length ws div 16) ws sha_init
      in map (\<lambda>b. char_of (uint b)) (concat (map bytes_of (sha_list s))))"

definition hex_digits :: string where
  "hex_digits = ''0123456789abcdef''"

fun EncodeToString :: "bytes \<Rightarrow> string" where
  "EncodeToString [] = []"
| "EncodeToString (c # cs) =
     hex_digits ! (of_char c div 16) # hex_digits ! (of_char c mod 16) # EncodeToString cs"

section \<open>Digests are 64 hexadecimal characters\<close>

lemma length_bytes_of [simp]: "length (bytes_of w) = 4"
  by (simp add: bytes_of_def)

lemma length_sha_list [simp]: "length (sha_list s) = 8"
  by (cases s rule: sha_list.cases) simp

lemma length_Sum256 [simp]: "length (Sum256 m) = 32"
  by (simp add: Sum256_def Let_def length_concat comp_def sum_list_triv)

lemma length_EncodeToString [simp]: "length (EncodeToString cs) = 2 * length cs"
  by (induction cs) simp_all

lemma hex_digits_inj: "i < 16 \<Longrightarrow> j < 16 \<Longrightarrow> hex_digits ! i = hex_digits ! j \<longleftrightarrow> i = j"
proof -
  have "distinct hex_digits" and "length hex_digits = 16" by code_simp+
  then show "i < 16 \<Longrightarrow> j < 16 \<Longrightarrow> hex_digits ! i = hex_digits ! j \<longleftrightarrow> i = j"
    by (simp add: nth_eq_iff_index_eq)
qed

lemma of_char_lt [simp]: "of_char c < (256::nat)"
  using of_char_mod_256 [of c] by (metis mod_less_divisor zero_less_numeral)

lemma EncodeToString_inj: "EncodeToString xs = EncodeToString ys \<longleftrightarrow> xs = ys"
proof (induction xs arbitrary: ys)
  case Nil
  show ?case by (cases ys) simp_all
next
  case (Cons x xs)
  show ?case
  proof (cases ys)
    case (Cons y ys')
    have "(of_char x :: nat) div 16 < 16" "(of_char y :: nat) div 16 < 16" by (simp_all add: less_mult_imp_div_less)
    moreover have "x = y \<longleftrightarrow> (of_char x :: nat) div 16 = of_char y div 16 \<and> (of_char x :: nat) mod 16 = of_char y mod 16"
      by (metis div_mult_mod_eq of_char_eq_iff)
    ultimately show ?thesis using Cons Cons.IH [of ys'] by (auto simp: hex_digits_inj)
  qed simp
qed

end
