(* ===== verification/Messages.thy ===== *)
theory Messages
  imports Go_Text Sha256 "HOL-Library.Countable"
begin

text \<open>
  \<open>pkg/consensus/messages.go\<close> and the message types of \<open>pbft.go\<close>: how consensus messages
  become protobuf structures and bytes, and back. The structures of the generated package
  \<open>proto\<close> are records with the prefix \<open>pb_\<close>. \<open>proto.Marshal\<close> and \<open>proto.Unmarshal\<close> are a
  third-party library: a record of functions, of type \<open>Codecs\<close>, which every function that
  calls them takes as an argument. What the code relies on, that unmarshalling the bytes of
  a marshalled message gives the message back, is the predicate \<open>codec_ok\<close>; it is a
  hypothesis where it is needed.
\<close>

section \<open>Model\<close>

subsection \<open>Consensus messages\<close>

record Request =
  r_RequestID :: string
  r_TicketID :: string
  r_Operation :: string
  r_Data :: bytes
  r_Timestamp :: int
  r_NodeID :: string

record PrepareMsg =
  p_View :: int
  p_Sequence :: int
  p_Digest :: string
  p_NodeID :: string

record CommitMsg =
  c_View :: int
  c_Sequence :: int
  c_Digest :: string
  c_NodeID :: string

record PrePrepareMsg =
  pp_View :: int
  pp_Sequence :: int
  pp_Digest :: string
  pp_Request :: Request

record Checkpoint =
  k_Sequence :: int
  k_StateDigest :: string
  k_NodeID :: string
  k_Timestamp :: int

record ViewChangeMsg =
  vch_NewView :: int
  vch_NodeID :: string

subsection \<open>Protobuf structures\<close>

record pb_ValidatorMessage =
  vm_Type :: int
  vm_Payload :: bytes
  vm_Signature :: bytes
  vm_Timestamp :: int
  vm_SenderId :: string

record pb_Request =
  pr_RequestId :: string
  pr_TicketId :: string
  pr_Operation :: int
  pr_TicketData :: bytes
  pr_Timestamp :: int
  pr_ClientSignature :: bytes

record pb_PrePrepare =
  ppp_View :: int
  ppp_Sequence :: int
  ppp_Digest :: bytes
  ppp_Request :: "pb_Request option"

text \<open>\<open>pb.Prepare\<close> and \<open>pb.Commit\<close> have the same fields.\<close>

record pb_Vote =
  pv_View :: int
  pv_Sequence :: int
  pv_Digest :: bytes
  pv_NodeId :: string

record pb_ViewChange =
  pvc_NewView :: int
  pvc_NodeId :: string

record pb_Checkpoint =
  pk_Sequence :: int
  pk_StateDigest :: bytes
  pk_NodeId :: string
  pk_Timestamp :: int

record 'm Codec =
  Marshal :: "'m \<Rightarrow> string + bytes"
  Unmarshal :: "bytes \<Rightarrow> string + 'm"

record Codecs =
  cd_vm :: "pb_ValidatorMessage Codec"
  cd_request :: "pb_Request Codec"
  cd_preprepare :: "pb_PrePrepare Codec"
  cd_prepare :: "pb_Vote Codec"
  cd_commit :: "pb_Vote Codec"
  cd_viewchange :: "pb_ViewChange Codec"
  cd_checkpoint :: "pb_Checkpoint Codec"

datatype msg_error =
    MarshalFailed string string
  | UnmarshalFailed string string
  | EmptyPayload string
  | NilRequest

definition marshal_as :: "string \<Rightarrow> 'm Codec \<Rightarrow> 'm \<Rightarrow> msg_error + bytes" where
  "marshal_as kind c m =
     (case Marshal c m of Inl err \<Rightarrow> Inl (MarshalFailed kind err) | Inr data \<Rightarrow> Inr data)"

definition unmarshal_as :: "string \<Rightarrow> 'm Codec \<Rightarrow> bytes \<Rightarrow> msg_error + 'm" where
  "unmarshal_as kind c data =
     (case Unmarshal c data of Inl err \<Rightarrow> Inl (UnmarshalFailed kind err) | Inr m \<Rightarrow> Inr m)"

subsection \<open>Serialisation\<close>

definition SerializePBFTMessage :: "Codecs \<Rightarrow> int \<Rightarrow> bytes \<Rightarrow> string \<Rightarrow> msg_error + bytes" where
  "SerializePBFTMessage C msgType payload senderID =
     marshal_as ''ValidatorMessage'' (cd_vm C)
       \<lparr>vm_Type = msgType, vm_Payload = payload, vm_Signature = [], vm_Timestamp = 0,
        vm_SenderId = senderID\<rparr>"

definition DeserializeValidatorMessage :: "Codecs \<Rightarrow> bytes \<Rightarrow> msg_error + pb_ValidatorMessage" where
  "DeserializeValidatorMessage C data = unmarshal_as ''ValidatorMessage'' (cd_vm C) data"

definition operationToProto :: "string \<Rightarrow> int" where
  "operationToProto op =
     (if op = ''CONSUME'' then 1 else if op = ''DISPUTE'' then 2 else if op = ''QUERY'' then 3 else 0)"

definition TicketOperation_String :: "int \<Rightarrow> string" where
  "TicketOperation_String x =
     (if x = 0 then ''VALIDATE'' else if x = 1 then ''CONSUME'' else if x = 2 then ''DISPUTE''
      else if x = 3 then ''QUERY'' else FormatInt x)"

definition SerializePrePrepare :: "Codecs \<Rightarrow> PrePrepareMsg \<Rightarrow> msg_error + bytes" where
  "SerializePrePrepare C msg =
     (let reqProto = \<lparr>pr_RequestId = r_RequestID (pp_Request msg),
                      pr_TicketId = r_TicketID (pp_Request msg),
                      pr_Operation = operationToProto (r_Operation (pp_Request msg)),
                      pr_TicketData = r_Data (pp_Request msg),
                      pr_Timestamp = r_Timestamp (pp_Request msg),
                      pr_ClientSignature = []\<rparr>;
          prePrepare = \<lparr>ppp_View = pp_View msg, ppp_Sequence = pp_Sequence msg,
                        ppp_Digest = pp_Digest msg, ppp_Request = Some reqProto\<rparr>
      in marshal_as ''PrePrepare'' (cd_preprepare C) prePrepare)"

definition request_from_proto :: "pb_Request \<Rightarrow> Request" where
  "request_from_proto r =
     \<lparr>r_RequestID = pr_RequestId r, r_TicketID = pr_TicketId r,
      r_Operation = TicketOperation_String (pr_Operation r), r_Data = pr_TicketData r,
      r_Timestamp = pr_Timestamp r, r_NodeID = pr_ClientSignature r\<rparr>"

definition DeserializePrePrepare :: "Codecs \<Rightarrow> bytes \<Rightarrow> msg_error + PrePrepareMsg" where
  "DeserializePrePrepare C data =
     (if length data = 0 then Inl (EmptyPayload ''PrePrepare'')
      else case unmarshal_as ''PrePrepare'' (cd_preprepare C) data of
        Inl err \<Rightarrow> Inl err
      | Inr prePrepare \<Rightarrow>
          (case ppp_Request prePrepare of
             None \<Rightarrow> Inl NilRequest
           | Some r \<Rightarrow>
               Inr \<lparr>pp_View = ppp_View prePrepare, pp_Sequence = ppp_Sequence prePrepare,
                    pp_Digest = ppp_Digest prePrepare, pp_Request = request_from_proto r\<rparr>))"

definition SerializePrepare :: "Codecs \<Rightarrow> PrepareMsg \<Rightarrow> msg_error + bytes" where
  "SerializePrepare C msg =
     marshal_as ''Prepare'' (cd_prepare C)
       \<lparr>pv_View = p_View msg, pv_Sequence = p_Sequence msg, pv_Digest = p_Digest msg,
        pv_NodeId = p_NodeID msg\<rparr>"

definition DeserializePrepare :: "Codecs \<Rightarrow> bytes \<Rightarrow> msg_error + PrepareMsg" where
  "DeserializePrepare C data =
     (if length data = 0 then Inl (EmptyPayload ''Prepare'')
      else case unmarshal_as ''Prepare'' (cd_prepare C) data of
        Inl err \<Rightarrow> Inl err
      | Inr prepare \<Rightarrow>
          Inr \<lparr>p_View = pv_View prepare, p_Sequence = pv_Sequence prepare,
               p_Digest = pv_Digest prepare, p_NodeID = pv_NodeId prepare\<rparr>)"

definition SerializeCommit :: "Codecs \<Rightarrow> CommitMsg \<Rightarrow> msg_error + bytes" where
  "SerializeCommit C msg =
     marshal_as ''Commit'' (cd_commit C)
       \<lparr>pv_View = c_View msg, pv_Sequence = c_Sequence msg, pv_Digest = c_Digest msg,
        pv_NodeId = c_NodeID msg\<rparr>"

definition DeserializeCommit :: "Codecs \<Rightarrow> bytes \<Rightarrow> msg_error + CommitMsg" where
  "DeserializeCommit C data =
     (case unmarshal_as ''Commit'' (cd_commit C) data of
        Inl err \<Rightarrow> Inl err
      | Inr commit \<Rightarrow>
          Inr \<lparr>c_View = pv_View commit, c_Sequence = pv_Sequence commit,
               c_Digest = pv_Digest commit, c_NodeID = pv_NodeId commit\<rparr>)"

definition SerializeRequest :: "Codecs \<Rightarrow> Request \<Rightarrow> msg_error + bytes" where
  "SerializeRequest C req =
     marshal_as ''Request'' (cd_request C)
       \<lparr>pr_RequestId = r_RequestID req, pr_TicketId = r_TicketID req,
        pr_Operation = operationToProto (r_Operation req), pr_TicketData = r_Data req,
        pr_Timestamp = r_Timestamp req, pr_ClientSignature = r_NodeID req\<rparr>"

definition DeserializeRequest :: "Codecs \<Rightarrow> bytes \<Rightarrow> msg_error + Request" where
  "DeserializeRequest C data =
     (case unmarshal_as ''Request'' (cd_request C) data of
        Inl err \<Rightarrow> Inl err
      | Inr reqProto \<Rightarrow> Inr (request_from_proto reqProto))"

definition SerializeViewChange :: "Codecs \<Rightarrow> ViewChangeMsg \<Rightarrow> msg_error + bytes" where
  "SerializeViewChange C msg =
     marshal_as ''ViewChange'' (cd_viewchange C)
       \<lparr>pvc_NewView = vch_NewView msg, pvc_NodeId = vch_NodeID msg\<rparr>"

definition DeserializeViewChange :: "Codecs \<Rightarrow> bytes \<Rightarrow> msg_error + ViewChangeMsg" where
  "DeserializeViewChange C data =
     (if length data = 0 then Inl (EmptyPayload ''ViewChange'')
      else case unmarshal_as ''ViewChange'' (cd_viewchange C) data of
        Inl err \<Rightarrow> Inl err
      | Inr viewChange \<Rightarrow>
          Inr \<lparr>vch_NewView = pvc_NewView viewChange, vch_NodeID = pvc_NodeId viewChange\<rparr>)"

definition SerializeCheckpoint :: "Codecs \<Rightarrow> Checkpoint \<Rightarrow> msg_error + bytes" where
  "SerializeCheckpoint C ckpt =
     marshal_as ''Checkpoint'' (cd_checkpoint C)
       \<lparr>pk_Sequence = k_Sequence ckpt, pk_StateDigest = k_StateDigest ckpt,
        pk_NodeId = k_NodeID ckpt, pk_Timestamp = k_Timestamp ckpt\<rparr>"

definition DeserializeCheckpoint :: "Codecs \<Rightarrow> bytes \<Rightarrow> msg_error + Checkpoint" where
  "DeserializeCheckpoint C data =
     (if length data = 0 then Inl (EmptyPayload ''Checkpoint'')
      else case unmarshal_as ''Checkpoint'' (cd_checkpoint C) data of
        Inl err \<Rightarrow> Inl err
      | Inr checkpoint \<Rightarrow>
          Inr \<lparr>k_Sequence = pk_Sequence checkpoint, k_StateDigest = pk_StateDigest checkpoint,
               k_NodeID = pk_NodeId checkpoint, k_Timestamp = pk_Timestamp checkpoint\<rparr>)"

text \<open>\<open>computeDigest\<close> of \<open>pbft.go\<close>.\<close>

definition digest_text :: "Request \<Rightarrow> string" where
  "digest_text req = r_RequestID req @ '':'' @ r_TicketID req @ '':'' @ r_Operation req @ '':'' @
     FormatInt (r_Timestamp req)"

definition computeDigest :: "Request \<Rightarrow> string" where
  "computeDigest req = EncodeToString (Sum256 (digest_text req))"

section \<open>Round trips\<close>

definition codec_ok :: "'m Codec \<Rightarrow> bool" where
  "codec_ok c \<longleftrightarrow> (\<forall>m b. Marshal c m = Inr b \<longrightarrow> Unmarshal c b = Inr m)"

definition known_operation :: "string \<Rightarrow> bool" where
  "known_operation op \<longleftrightarrow> op \<in> {''VALIDATE'', ''CONSUME'', ''DISPUTE'', ''QUERY''}"

lemma operation_roundtrip:
  "TicketOperation_String (operationToProto op) = (if known_operation op then op else ''VALIDATE'')"
  by (simp add: TicketOperation_String_def operationToProto_def known_operation_def)

lemma unmarshal_marshal:
  "codec_ok c \<Longrightarrow> marshal_as kind c m = Inr b \<Longrightarrow> unmarshal_as kind' c b = Inr m"
  by (auto simp: codec_ok_def marshal_as_def unmarshal_as_def split: sum.splits)

definition as_received :: "Request \<Rightarrow> Request" where
  "as_received req = req\<lparr>r_Operation := (if known_operation (r_Operation req) then r_Operation req
     else ''VALIDATE''), r_NodeID := ''''\<rparr>"

lemma PrePrepare_roundtrip:
  assumes "codec_ok (cd_preprepare C)" and "SerializePrePrepare C msg = Inr b" and "b \<noteq> []"
  shows "DeserializePrePrepare C b = Inr (msg\<lparr>pp_Request := as_received (pp_Request msg)\<rparr>)"
  using assms(2,3)
  by (simp add: SerializePrePrepare_def DeserializePrePrepare_def Let_def
      unmarshal_marshal [OF assms(1)] request_from_proto_def operation_roundtrip as_received_def)

text \<open>
  C18: \<open>SerializePrePrepare\<close> does not carry the whole request: what a backup decodes has an
  empty \<open>NodeID\<close>, because \<open>ClientSignature\<close> is not set there, and an operation the
  protobuf enum does not know has become \<open>VALIDATE\<close>. Everything else arrives unchanged,
  and so does the digest of a request with a known operation.
\<close>

theorem PrePrepare_arrives_as:
  assumes "codec_ok (cd_preprepare C)" and "SerializePrePrepare C msg = Inr b" and "b \<noteq> []"
  shows "\<exists>msg'. DeserializePrePrepare C b = Inr msg' \<and>
    pp_View msg' = pp_View msg \<and> pp_Sequence msg' = pp_Sequence msg \<and> pp_Digest msg' = pp_Digest msg \<and>
    r_NodeID (pp_Request msg') = '''' \<and>
    r_RequestID (pp_Request msg') = r_RequestID (pp_Request msg) \<and>
    r_TicketID (pp_Request msg') = r_TicketID (pp_Request msg) \<and>
    r_Data (pp_Request msg') = r_Data (pp_Request msg) \<and>
    r_Timestamp (pp_Request msg') = r_Timestamp (pp_Request msg) \<and>
    (if known_operation (r_Operation (pp_Request msg))
     then r_Operation (pp_Request msg') = r_Operation (pp_Request msg) \<and>
       computeDigest (pp_Request msg') = computeDigest (pp_Request msg)
     else r_Operation (pp_Request msg') = ''VALIDATE'')"
  using PrePrepare_roundtrip [OF assms]
  by (simp add: as_received_def computeDigest_def digest_text_def)

text \<open>A concrete codec, which numbers the messages of each type.\<close>

definition numbering :: "('m \<Rightarrow> 'a::countable) \<Rightarrow> ('a \<Rightarrow> 'm) \<Rightarrow> 'm Codec" where
  "numbering f g =
     \<lparr>Marshal = (\<lambda>m. Inr (CHR ''#'' # dec_nat (to_nat (f m)))),
      Unmarshal = (\<lambda>b. Inr (g (from_nat (dec_val (tl b)))))\<rparr>"

lemma numbering_ok: "(\<And>m. g (f m) = m) \<Longrightarrow> codec_ok (numbering f g)"
  by (auto simp: codec_ok_def numbering_def)

definition request_tuple :: "pb_Request \<Rightarrow> string \<times> string \<times> int \<times> string \<times> int \<times> string" where
  "request_tuple r = (pr_RequestId r, pr_TicketId r, pr_Operation r, pr_TicketData r, pr_Timestamp r,
     pr_ClientSignature r)"

fun tuple_request :: "string \<times> string \<times> int \<times> string \<times> int \<times> string \<Rightarrow> pb_Request" where
  "tuple_request (a, b, c, d, e, f) =
     \<lparr>pr_RequestId = a, pr_TicketId = b, pr_Operation = c, pr_TicketData = d, pr_Timestamp = e,
      pr_ClientSignature = f\<rparr>"

lemma tuple_request_inv [simp]: "tuple_request (request_tuple r) = r"
  by (simp add: request_tuple_def)

definition numbering_codecs :: Codecs where
  "numbering_codecs =
     \<lparr>cd_vm = numbering (\<lambda>m. (vm_Type m, vm_Payload m, vm_Signature m, vm_Timestamp m, vm_SenderId m))
        (\<lambda>(a, b, c, d, e). \<lparr>vm_Type = a, vm_Payload = b, vm_Signature = c, vm_Timestamp = d, vm_SenderId = e\<rparr>),
      cd_request = numbering request_tuple tuple_request,
      cd_preprepare = numbering
        (\<lambda>m. (ppp_View m, ppp_Sequence m, ppp_Digest m, map_option request_tuple (ppp_Request m)))
        (\<lambda>(a, b, c, d). \<lparr>ppp_View = a, ppp_Sequence = b, ppp_Digest = c,
                         ppp_Request = map_option tuple_request d\<rparr>),
      cd_prepare = numbering (\<lambda>m. (pv_View m, pv_Sequence m, pv_Digest m, pv_NodeId m))
        (\<lambda>(a, b, c, d). \<lparr>pv_View = a, pv_Sequence = b, pv_Digest = c, pv_NodeId = d\<rparr>),
      cd_commit = numbering (\<lambda>m. (pv_View m, pv_Sequence m, pv_Digest m, pv_NodeId m))
        (\<lambda>(a, b, c, d). \<lparr>pv_View = a, pv_Sequence = b, pv_Digest = c, pv_NodeId = d\<rparr>),
      cd_viewchange = numbering (\<lambda>m. (pvc_NewView m, pvc_NodeId m))
        (\<lambda>(a, b). \<lparr>pvc_NewView = a, pvc_NodeId = b\<rparr>),
      cd_checkpoint = numbering (\<lambda>m. (pk_Sequence m, pk_StateDigest m, pk_NodeId m, pk_Timestamp m))
        (\<lambda>(a, b, c, d). \<lparr>pk_Sequence = a, pk_StateDigest = b, pk_NodeId = c, pk_Timestamp = d\<rparr>)\<rparr>"

definition codecs_ok :: "Codecs \<Rightarrow> bool" where
  "codecs_ok C \<longleftrightarrow> codec_ok (cd_vm C) \<and> codec_ok (cd_request C) \<and> codec_ok (cd_preprepare C) \<and>
     codec_ok (cd_prepare C) \<and> codec_ok (cd_commit C) \<and> codec_ok (cd_viewchange C) \<and>
     codec_ok (cd_checkpoint C)"

lemma numbering_codecs_ok: "codecs_ok numbering_codecs"
  by (simp add: codecs_ok_def numbering_codecs_def numbering_ok option.map_comp comp_def
      option.map_ident)

text \<open>
  Marshalling the votes of one node and the envelope around them succeeds: true of protobuf
  when the node's name is valid UTF-8, the only string in those messages.
\<close>

definition sender_marshals :: "Codecs \<Rightarrow> string \<Rightarrow> bool" where
  "sender_marshals C i \<longleftrightarrow>
     (\<forall>v s d. \<exists>b. Marshal (cd_prepare C) \<lparr>pv_View = v, pv_Sequence = s, pv_Digest = d, pv_NodeId = i\<rparr> = Inr b) \<and>
     (\<forall>v s d. \<exists>b. Marshal (cd_commit C) \<lparr>pv_View = v, pv_Sequence = s, pv_Digest = d, pv_NodeId = i\<rparr> = Inr b) \<and>
     (\<forall>t p. \<exists>b. Marshal (cd_vm C) \<lparr>vm_Type = t, vm_Payload = p, vm_Signature = [], vm_Timestamp = 0,
                                   vm_SenderId = i\<rparr> = Inr b)"

lemma sender_marshalsD:
  assumes "sender_marshals C i"
  shows "p_NodeID p = i \<Longrightarrow> \<exists>b. SerializePrepare C p = Inr b"
    and "c_NodeID c = i \<Longrightarrow> \<exists>b. SerializeCommit C c = Inr b"
    and "\<exists>b. SerializePBFTMessage C t payload i = Inr b"
  using assms
  by (auto simp: sender_marshals_def SerializePrepare_def SerializeCommit_def SerializePBFTMessage_def
      marshal_as_def split: sum.splits) (metis sum.distinct(1) sum.inject(1) Inl_Inr_False)+

lemma numbering_sender_marshals: "sender_marshals numbering_codecs i"
  by (simp add: sender_marshals_def numbering_codecs_def numbering_def)

definition example_request :: Request where
  "example_request = \<lparr>r_RequestID = ''req-1'', r_TicketID = ''T'', r_Operation = ''VALIDATE'',
     r_Data = [], r_Timestamp = 7, r_NodeID = ''node2''\<rparr>"

theorem PrePrepare_arrives_as_witness:
  "\<exists>b msg'. SerializePrePrepare numbering_codecs
       \<lparr>pp_View = 0, pp_Sequence = 1, pp_Digest = ''d'', pp_Request = example_request\<rparr> = Inr b \<and>
     DeserializePrePrepare numbering_codecs b = Inr msg' \<and>
     r_NodeID (pp_Request msg') = '''' \<and> r_NodeID example_request = ''node2''"
proof -
  let ?m = "\<lparr>pp_View = 0, pp_Sequence = 1, pp_Digest = ''d'', pp_Request = example_request\<rparr>"
  obtain b where b: "SerializePrePrepare numbering_codecs ?m = Inr b" "b \<noteq> []"
    by (auto simp: SerializePrePrepare_def Let_def marshal_as_def numbering_codecs_def numbering_def)
  have "codec_ok (cd_preprepare numbering_codecs)"
    using numbering_codecs_ok by (simp add: codecs_ok_def)
  from PrePrepare_arrives_as [OF this b] b show ?thesis by (auto simp: example_request_def)
qed

text \<open>
  The votes survive the wire: PREPARE, COMMIT, VIEW-CHANGE and CHECKPOINT messages are
  decoded to what was encoded, and so is the type, payload and sender of the envelope.
\<close>

theorem votes_roundtrip:
  assumes "codecs_ok C"
  shows "(\<forall>m b. SerializePrepare C m = Inr b \<and> b \<noteq> [] \<longrightarrow> DeserializePrepare C b = Inr m) \<and>
    (\<forall>m b. SerializeCommit C m = Inr b \<longrightarrow> DeserializeCommit C b = Inr m) \<and>
    (\<forall>m b. SerializeViewChange C m = Inr b \<and> b \<noteq> [] \<longrightarrow> DeserializeViewChange C b = Inr m) \<and>
    (\<forall>m b. SerializeCheckpoint C m = Inr b \<and> b \<noteq> [] \<longrightarrow> DeserializeCheckpoint C b = Inr m) \<and>
    (\<forall>t p s b. SerializePBFTMessage C t p s = Inr b \<longrightarrow>
       (\<exists>v. DeserializeValidatorMessage C b = Inr v \<and> vm_Type v = t \<and> vm_Payload v = p \<and> vm_SenderId v = s))"
  using assms unfolding codecs_ok_def
  by (auto simp: SerializePrepare_def DeserializePrepare_def SerializeCommit_def DeserializeCommit_def
      SerializeViewChange_def DeserializeViewChange_def SerializeCheckpoint_def DeserializeCheckpoint_def
      SerializePBFTMessage_def DeserializeValidatorMessage_def unmarshal_marshal)

theorem votes_roundtrip_witness:
  "\<exists>b. SerializeCommit numbering_codecs
       \<lparr>c_View = 0, c_Sequence = 1, c_Digest = ''d'', c_NodeID = ''node1''\<rparr> = Inr b \<and>
     DeserializeCommit numbering_codecs b =
       Inr \<lparr>c_View = 0, c_Sequence = 1, c_Digest = ''d'', c_NodeID = ''node1''\<rparr>"
proof -
  obtain b where "SerializeCommit numbering_codecs
      \<lparr>c_View = 0, c_Sequence = 1, c_Digest = ''d'', c_NodeID = ''node1''\<rparr> = Inr b"
    by (simp add: SerializeCommit_def marshal_as_def numbering_codecs_def numbering_def)
  with votes_roundtrip [OF numbering_codecs_ok] show ?thesis by blast
qed

text \<open>
  The digest covers the request ID, the ticket, the operation and the timestamp, but
  neither the data nor the originating node, and its text is ambiguous: moving a colon
  between the ticket and the request ID keeps the digest.
\<close>

theorem computeDigest_collisions:
  "computeDigest (req\<lparr>r_Data := d, r_NodeID := i\<rparr>) = computeDigest req \<and>
   computeDigest (req\<lparr>r_RequestID := a @ '':'' @ b, r_TicketID := c\<rparr>) =
     computeDigest (req\<lparr>r_RequestID := a, r_TicketID := b @ '':'' @ c\<rparr>) \<and>
   length (computeDigest req) = 64"
  by (simp add: computeDigest_def digest_text_def)

end
