(* ===== verification/PBFT.thy ===== *)
theory PBFT
  imports Quorum Messages
begin

text \<open>
  \<open>pkg/consensus/pbft.go\<close>: the PBFT replica. Every handler of the source runs under
  \<open>n.mu\<close>, so it is one function on the record \<open>PBFTNode\<close>, which returns an error (\<open>None\<close>
  for nil) and the new node; errors do not undo what happened before them. Handlers and the
  state replicator act on an application state \<open>'a\<close>, kept in \<open>n_app\<close>. What the node does to
  the outside is the trace \<open>n_effects\<close>: broadcasts (sent from a new goroutine, so only
  their being issued is recorded), callbacks that fire, timer resets, and one entry for each
  run of the consensus handlers. A call's view of its surroundings is the record \<open>Env\<close>: the
  protobuf codec, the number of connected peers, the clock, and which ready case a \<open>select\<close>
  takes. The division by \<open>n.totalNodes\<close> panics when that is 0; this is the error
  \<open>PanicDivideByZero\<close>.
\<close>

section \<open>Model\<close>

definition StateIdle :: string where "StateIdle = ''IDLE''"
definition StatePrePrepare :: string where "StatePrePrepare = ''PRE_PREPARE''"
definition StatePrepare :: string where "StatePrepare = ''PREPARE''"
definition StateCommit :: string where "StateCommit = ''COMMIT''"
definition StateCommitted :: string where "StateCommitted = ''COMMITTED''"

definition checkpointInterval :: int where "checkpointInterval = 10"

datatype ConsensusMessage =
    MPrePrepare PrePrepareMsg
  | MPrepare PrepareMsg
  | MCommit CommitMsg

type_synonym 'a ConsensusHandler = "Request \<Rightarrow> 'a \<Rightarrow> string option \<times> 'a"
type_synonym 'a StateReplicator = "Request \<Rightarrow> 'a \<Rightarrow> string option \<times> 'a"

text \<open>A callback is a name, or \<open>None\<close> for a nil function.\<close>

type_synonym ConsensusCallback = "nat option"

datatype effect =
    EBroadcast bytes
  | ECallback nat bool "string option"
  | ETimerReset int
  | EExecute int Request "string option"

record 'a PBFTNode =
  n_nodeID :: string
  n_view :: int
  n_sequence :: int
  n_state :: string
  n_f :: int
  n_totalNodes :: int
  n_isPrimary :: bool
  n_prepareLog :: "(int, (string, PrepareMsg) gomap) gomap"
  n_commitLog :: "(int, (string, CommitMsg) gomap) gomap"
  n_requestLog :: "(int, Request) gomap"
  n_messageQueue :: "ConsensusMessage list"
  n_viewTimeout :: int
  n_cancelled :: bool
  n_handlers :: "'a ConsensusHandler list"
  n_checkpoints :: "(int, Checkpoint) gomap"
  n_checkpointVotes :: "(int, (string, Checkpoint) gomap) gomap"
  n_lastStableCheckpoint :: int
  n_viewChangeLog :: "(int, (string, ViewChangeMsg) gomap) gomap"
  n_hasPendingClientRequest :: bool
  n_requestCallbacks :: "(string, ConsensusCallback) gomap"
  n_stateReplicator :: "'a StateReplicator option"
  n_app :: 'a
  n_effects :: "effect list"

record Env =
  e_codecs :: Codecs
  e_peerCount :: int
  e_nowNano :: int
  e_takeDone :: bool

datatype pbft_error =
    NotPrimary
  | InsufficientPeers int int
  | SerializeError msg_error
  | ViewMismatch
  | DigestMismatch
  | RequestNotFound int
  | ConsensusHandlerError string
  | DeserializeError msg_error
  | UnsupportedType int
  | ContextDone
  | QueueFull
  | PanicDivideByZero

record Config =
  cfg_NodeID :: string
  cfg_TotalNodes :: int
  cfg_IsPrimary :: bool
  cfg_ViewTimeout :: int

definition NewPBFTNode :: "Config \<Rightarrow> 'a \<Rightarrow> 'a PBFTNode" where
  "NewPBFTNode cfg app =
     (let f = max_faulty (cfg_TotalNodes cfg);
          viewTimeout = (if cfg_ViewTimeout cfg = 0 then 15000000000 else cfg_ViewTimeout cfg)
      in \<lparr>n_nodeID = cfg_NodeID cfg, n_view = 0, n_sequence = 0, n_state = StateIdle, n_f = f,
          n_totalNodes = cfg_TotalNodes cfg, n_isPrimary = cfg_IsPrimary cfg,
          n_prepareLog = fmempty, n_commitLog = fmempty, n_requestLog = fmempty,
          n_messageQueue = [], n_viewTimeout = viewTimeout, n_cancelled = False, n_handlers = [],
          n_checkpoints = fmempty, n_checkpointVotes = fmempty, n_lastStableCheckpoint = 0,
          n_viewChangeLog = fmempty, n_hasPendingClientRequest = False,
          n_requestCallbacks = fmempty, n_stateReplicator = None, n_app = app,
          n_effects = [ETimerReset viewTimeout]\<rparr>)"

subsection \<open>Effects\<close>

definition emit :: "effect \<Rightarrow> 'a PBFTNode \<Rightarrow> 'a PBFTNode" where
  "emit e n = n\<lparr>n_effects := n_effects n @ [e]\<rparr>"

definition timer_reset :: "'a PBFTNode \<Rightarrow> 'a PBFTNode" where
  "timer_reset n = emit (ETimerReset (n_viewTimeout n)) n"

text \<open>
  The idiom of every sender: wrap the serialised payload and broadcast it, or return the
  serialisation error.
\<close>

definition wrap_and_broadcast ::
  "Env \<Rightarrow> int \<Rightarrow> msg_error + bytes \<Rightarrow> 'a PBFTNode \<Rightarrow> pbft_error option \<times> 'a PBFTNode" where
  "wrap_and_broadcast E msgType serialized n =
     (case serialized of
        Inl err \<Rightarrow> (Some (SerializeError err), n)
      | Inr payload \<Rightarrow>
          (case SerializePBFTMessage (e_codecs E) msgType payload (n_nodeID n) of
             Inl err \<Rightarrow> (Some (SerializeError err), n)
           | Inr data \<Rightarrow> (None, emit (EBroadcast data) n)))"

subsection \<open>Quorums\<close>

definition required_votes :: "'a PBFTNode \<Rightarrow> int" where
  "required_votes n = (let required = 2 * n_f n + 1 in if required < 1 then 1 else required)"

definition checkQuorum :: "int \<Rightarrow> 'a PBFTNode \<Rightarrow> bool" where
  "checkQuorum voteCount n \<longleftrightarrow> required_votes n \<le> voteCount"

definition checkPrepareQuorum :: "int \<Rightarrow> 'a PBFTNode \<Rightarrow> bool" where
  "checkPrepareQuorum sequence n \<longleftrightarrow> checkQuorum (golen (inner (n_prepareLog n) sequence)) n"

definition checkCommitQuorum :: "int \<Rightarrow> 'a PBFTNode \<Rightarrow> bool" where
  "checkCommitQuorum sequence n \<longleftrightarrow> checkQuorum (golen (inner (n_commitLog n) sequence)) n"

subsection \<open>Callbacks\<close>

definition RegisterHandler :: "'a ConsensusHandler \<Rightarrow> 'a PBFTNode \<Rightarrow> 'a PBFTNode" where
  "RegisterHandler handler n = n\<lparr>n_handlers := n_handlers n @ [handler]\<rparr>"

definition RegisterCallback :: "string \<Rightarrow> ConsensusCallback \<Rightarrow> 'a PBFTNode \<Rightarrow> 'a PBFTNode" where
  "RegisterCallback requestID callback n =
     n\<lparr>n_requestCallbacks := fmupd requestID callback (n_requestCallbacks n)\<rparr>"

definition RegisterStateReplicator :: "'a StateReplicator option \<Rightarrow> 'a PBFTNode \<Rightarrow> 'a PBFTNode" where
  "RegisterStateReplicator replicator n = n\<lparr>n_stateReplicator := replicator\<rparr>"

definition invokeCallback :: "string \<Rightarrow> bool \<Rightarrow> string option \<Rightarrow> 'a PBFTNode \<Rightarrow> 'a PBFTNode" where
  "invokeCallback requestID success err n =
     (case mget (n_requestCallbacks n) requestID of
        None \<Rightarrow> n
      | Some callback \<Rightarrow>
          (let n' = n\<lparr>n_requestCallbacks := fmdrop requestID (n_requestCallbacks n)\<rparr>
           in case callback of None \<Rightarrow> n' | Some cb \<Rightarrow> emit (ECallback cb success err) n'))"

fun fail_callbacks :: "string \<Rightarrow> (string \<times> ConsensusCallback) list \<Rightarrow> 'a PBFTNode \<Rightarrow> 'a PBFTNode" where
  "fail_callbacks reason [] n = n"
| "fail_callbacks reason ((requestID, callback) # cbs) n =
     fail_callbacks reason cbs
       (case callback of
          None \<Rightarrow> n
        | Some cb \<Rightarrow> emit (ECallback cb False
            (Some (''consensus failed: '' @ reason @ '' (request: '' @ requestID @ '')''))) n)"

definition failPendingCallbacks :: "string \<Rightarrow> 'a PBFTNode \<Rightarrow> 'a PBFTNode" where
  "failPendingCallbacks reason n =
     fail_callbacks reason (entries (n_requestCallbacks n)) (n\<lparr>n_requestCallbacks := fmempty\<rparr>)"

subsection \<open>Checkpoints\<close>

definition createCheckpoint :: "Env \<Rightarrow> int \<Rightarrow> 'a PBFTNode \<Rightarrow> 'a PBFTNode" where
  "createCheckpoint E sequence n =
     (let stateDigest = EncodeToString (Sum256 (FormatInt sequence));
          ckpt = \<lparr>k_Sequence = sequence, k_StateDigest = stateDigest, k_NodeID = n_nodeID n,
                  k_Timestamp = e_nowNano E\<rparr>;
          n' = n\<lparr>n_checkpoints := fmupd sequence ckpt (n_checkpoints n),
                 n_checkpointVotes := vote sequence (n_nodeID n) ckpt (n_checkpointVotes n)\<rparr>
      in snd (wrap_and_broadcast E 4 (SerializeCheckpoint (e_codecs E) ckpt) n'))"

definition garbageCollect :: "int \<Rightarrow> 'a PBFTNode \<Rightarrow> 'a PBFTNode" where
  "garbageCollect upToSequence n =
     n\<lparr>n_requestLog := fmfilter (\<lambda>seq. \<not> seq \<le> upToSequence) (n_requestLog n),
       n_prepareLog := fmfilter (\<lambda>seq. \<not> seq \<le> upToSequence) (n_prepareLog n),
       n_commitLog := fmfilter (\<lambda>seq. \<not> seq \<le> upToSequence) (n_commitLog n),
       n_checkpoints := fmfilter (\<lambda>seq. \<not> seq < upToSequence) (n_checkpoints n)\<rparr>"

fun count_digests :: "(string \<times> Checkpoint) list \<Rightarrow> (string, int) gomap \<Rightarrow> (string, int) gomap" where
  "count_digests [] digests = digests"
| "count_digests ((k, v) # vs) digests =
     count_digests vs
       (fmupd (k_StateDigest v)
          ((case mget digests (k_StateDigest v) of None \<Rightarrow> 0 | Some c \<Rightarrow> c) + 1) digests)"

definition HandleCheckpoint :: "Checkpoint \<Rightarrow> 'a PBFTNode \<Rightarrow> 'a PBFTNode" where
  "HandleCheckpoint ckpt n =
     (if k_Sequence ckpt \<le> n_lastStableCheckpoint n then n
      else
        let n1 = n\<lparr>n_checkpointVotes := vote (k_Sequence ckpt) (k_NodeID ckpt) ckpt (n_checkpointVotes n)\<rparr>;
            required = required_votes n;
            votes = inner (n_checkpointVotes n1) (k_Sequence ckpt)
        in if golen votes < required then n1
           else let digests = count_digests (entries votes) fmempty
                in if list_ex (\<lambda>(digest, count). required \<le> count) (entries digests)
                   then let n2 = garbageCollect (k_Sequence ckpt)
                                   (n1\<lparr>n_lastStableCheckpoint := k_Sequence ckpt\<rparr>)
                        in n2\<lparr>n_checkpointVotes :=
                                fmfilter (\<lambda>seq. \<not> seq \<le> k_Sequence ckpt) (n_checkpointVotes n2)\<rparr>
                   else n1)"

subsection \<open>Execution\<close>

fun run_handlers :: "'a ConsensusHandler list \<Rightarrow> Request \<Rightarrow> 'a \<Rightarrow> string option \<times> 'a" where
  "run_handlers [] req a = (None, a)"
| "run_handlers (h # hs) req a =
     (case h req a of
        (Some err, a') \<Rightarrow> (Some err, a')
      | (None, a') \<Rightarrow> run_handlers hs req a')"

definition replicate_state :: "Request \<Rightarrow> 'a PBFTNode \<Rightarrow> 'a PBFTNode" where
  "replicate_state req n =
     (case n_stateReplicator n of
        None \<Rightarrow> n
      | Some r \<Rightarrow> n\<lparr>n_app := snd (r req (n_app n))\<rparr>)"

definition executeRequest :: "Env \<Rightarrow> int \<Rightarrow> 'a PBFTNode \<Rightarrow> pbft_error option \<times> 'a PBFTNode" where
  "executeRequest E sequence n =
     (case mget (n_requestLog n) sequence of
        None \<Rightarrow> (Some (RequestNotFound sequence), n)
      | Some req \<Rightarrow>
          (case run_handlers (n_handlers n) req (n_app n) of
             (handlerErr, app') \<Rightarrow>
               (let n1 = emit (EExecute sequence req handlerErr)
                           (n\<lparr>n_state := StateCommitted, n_app := app'\<rparr>)
                in case handlerErr of
                     Some err \<Rightarrow>
                       (Some (ConsensusHandlerError err), invokeCallback (r_RequestID req) False (Some err) n1)
                   | None \<Rightarrow>
                       (let n2 = invokeCallback (r_RequestID req) True None (replicate_state req n1);
                            n3 = timer_reset (n2\<lparr>n_state := StateIdle, n_hasPendingClientRequest := False\<rparr>);
                            n4 = n3\<lparr>n_requestLog := fmdrop sequence (n_requestLog n3)\<rparr>
                        in (None, if sequence smod checkpointInterval = 0
                                  then createCheckpoint E sequence n4 else n4)))))"

definition moveToCommitPhase ::
  "Env \<Rightarrow> int \<Rightarrow> string \<Rightarrow> 'a PBFTNode \<Rightarrow> pbft_error option \<times> 'a PBFTNode" where
  "moveToCommitPhase E sequence digest n =
     (let commit = \<lparr>c_View = n_view n, c_Sequence = sequence, c_Digest = digest, c_NodeID = n_nodeID n\<rparr>;
          n1 = n\<lparr>n_state := StateCommit, n_commitLog := vote sequence (n_nodeID n) commit (n_commitLog n)\<rparr>
      in case wrap_and_broadcast E 2 (SerializeCommit (e_codecs E) commit) n1 of
           (Some err, n2) \<Rightarrow> (Some err, n2)
         | (None, n2) \<Rightarrow>
             if checkCommitQuorum sequence n2 then executeRequest E sequence n2 else (None, n2))"

subsection \<open>The three phases\<close>

definition handlePrePrepare ::
  "Env \<Rightarrow> PrePrepareMsg \<Rightarrow> 'a PBFTNode \<Rightarrow> pbft_error option \<times> 'a PBFTNode" where
  "handlePrePrepare E msg n =
     (if pp_View msg \<noteq> n_view n then (Some ViewMismatch, n)
      else if computeDigest (pp_Request msg) \<noteq> pp_Digest msg then (Some DigestMismatch, n)
      else
        let n1 = timer_reset (n\<lparr>n_requestLog := fmupd (pp_Sequence msg) (pp_Request msg) (n_requestLog n)\<rparr>);
            prepare = \<lparr>p_View = pp_View msg, p_Sequence = pp_Sequence msg, p_Digest = pp_Digest msg,
                       p_NodeID = n_nodeID n\<rparr>;
            n2 = n1\<lparr>n_state := StatePrepare,
                    n_prepareLog := vote (pp_Sequence msg) (n_nodeID n1) prepare (n_prepareLog n1)\<rparr>
        in case wrap_and_broadcast E 1 (SerializePrepare (e_codecs E) prepare) n2 of
             (Some err, n3) \<Rightarrow> (Some err, n3)
           | (None, n3) \<Rightarrow>
               if checkPrepareQuorum (pp_Sequence msg) n3
               then moveToCommitPhase E (pp_Sequence msg) (pp_Digest msg) n3
               else if checkCommitQuorum (pp_Sequence msg) n3
               then executeRequest E (pp_Sequence msg) n3
               else (None, n3))"

definition HandlePrepare ::
  "Env \<Rightarrow> PrepareMsg \<Rightarrow> 'a PBFTNode \<Rightarrow> pbft_error option \<times> 'a PBFTNode" where
  "HandlePrepare E msg n =
     (if p_View msg \<noteq> n_view n then (Some ViewMismatch, n)
      else
        let n1 = n\<lparr>n_prepareLog := vote (p_Sequence msg) (p_NodeID msg) msg (n_prepareLog n)\<rparr>
        in if checkPrepareQuorum (p_Sequence msg) n1 \<and> mhas (n_requestLog n1) (p_Sequence msg)
           then moveToCommitPhase E (p_Sequence msg) (p_Digest msg) n1
           else (None, n1))"

definition HandleCommit ::
  "Env \<Rightarrow> CommitMsg \<Rightarrow> 'a PBFTNode \<Rightarrow> pbft_error option \<times> 'a PBFTNode" where
  "HandleCommit E msg n =
     (if c_View msg \<noteq> n_view n then (Some ViewMismatch, n)
      else
        let n1 = n\<lparr>n_commitLog := vote (c_Sequence msg) (c_NodeID msg) msg (n_commitLog n)\<rparr>
        in if checkCommitQuorum (c_Sequence msg) n1 \<and> mhas (n_requestLog n1) (c_Sequence msg)
           then executeRequest E (c_Sequence msg) n1
           else (None, n1))"

text \<open>
  \<open>ProposeRequest\<close> releases the lock between storing the request and handling its own
  PRE-PREPARE; \<open>propose_begin\<close> is the part under the first lock.
\<close>

definition propose_begin ::
  "Env \<Rightarrow> Request \<Rightarrow> 'a PBFTNode \<Rightarrow> (pbft_error + PrePrepareMsg) \<times> 'a PBFTNode" where
  "propose_begin E req n =
     (if \<not> n_isPrimary n then (Inl NotPrimary, n)
      else
        let activeNodes = e_peerCount E + 1;
            requiredQuorum = 2 * n_f n + 1
        in if n_totalNodes n \<noteq> 1 \<and> activeNodes < requiredQuorum
           then (Inl (InsufficientPeers activeNodes requiredQuorum), n)
           else
             let seq = int64 (n_sequence n + 1)
             in (Inr \<lparr>pp_View = n_view n, pp_Sequence = seq, pp_Digest = computeDigest req, pp_Request = req\<rparr>,
                 n\<lparr>n_sequence := seq, n_requestLog := fmupd seq req (n_requestLog n)\<rparr>))"

definition ProposeRequest ::
  "Env \<Rightarrow> Request \<Rightarrow> 'a PBFTNode \<Rightarrow> pbft_error option \<times> 'a PBFTNode" where
  "ProposeRequest E req n =
     (case propose_begin E req n of
        (Inl err, n1) \<Rightarrow> (Some err, n1)
      | (Inr prePrepare, n1) \<Rightarrow>
          (case wrap_and_broadcast E 0 (SerializePrePrepare (e_codecs E) prePrepare) n1 of
             (Some err, n2) \<Rightarrow> (Some err, n2)
           | (None, n2) \<Rightarrow> handlePrePrepare E prePrepare n2))"

subsection \<open>View changes\<close>

definition expected_primary :: "int \<Rightarrow> int \<Rightarrow> string" where
  "expected_primary view nodes = node_name (view smod nodes)"

definition initiateViewChange :: "Env \<Rightarrow> 'a PBFTNode \<Rightarrow> pbft_error option \<times> 'a PBFTNode" where
  "initiateViewChange E n =
     (if n_state n = StateIdle \<and> \<not> n_hasPendingClientRequest n then (None, timer_reset n)
      else
        let newView = int64 (n_view n + 1);
            n1 = n\<lparr>n_hasPendingClientRequest := False, n_view := newView\<rparr>
        in if n_totalNodes n = 0 then (Some PanicDivideByZero, n1)
           else
             let expectedPrimaryID = expected_primary newView (n_totalNodes n);
                 n2 = timer_reset (n1\<lparr>n_isPrimary := (n_nodeID n = expectedPrimaryID), n_state := StateIdle\<rparr>);
                 msg = \<lparr>vch_NewView = newView, vch_NodeID = n_nodeID n\<rparr>;
                 n3 = n2\<lparr>n_viewChangeLog := vote newView (n_nodeID n) msg (n_viewChangeLog n2)\<rparr>;
                 n4 = snd (wrap_and_broadcast E 3 (SerializeViewChange (e_codecs E) msg) n3)
             in (None, failPendingCallbacks ''view timeout'' n4))"

definition HandleViewChange :: "ViewChangeMsg \<Rightarrow> 'a PBFTNode \<Rightarrow> pbft_error option \<times> 'a PBFTNode" where
  "HandleViewChange msg n =
     (if vch_NewView msg \<le> n_view n then (None, n)
      else
        let n1 = n\<lparr>n_viewChangeLog := vote (vch_NewView msg) (vch_NodeID msg) msg (n_viewChangeLog n)\<rparr>
        in if golen (inner (n_viewChangeLog n1) (vch_NewView msg)) < required_votes n then (None, n1)
           else
             let n2 = n1\<lparr>n_view := vch_NewView msg\<rparr>
             in if n_totalNodes n = 0 then (Some PanicDivideByZero, n2)
                else
                  let expectedPrimaryID = expected_primary (n_view n2) (n_totalNodes n);
                      n3 = timer_reset (n2\<lparr>n_isPrimary := (n_nodeID n = expectedPrimaryID),
                             n_state := StateIdle, n_hasPendingClientRequest := False\<rparr>);
                      n4 = n3\<lparr>n_viewChangeLog := fmfilter (\<lambda>v. \<not> v \<le> n_view n3) (n_viewChangeLog n3)\<rparr>
                  in (None, failPendingCallbacks ''view change'' n4))"

definition GetPrimary :: "'a PBFTNode \<Rightarrow> string option" where
  "GetPrimary n =
     (if n_totalNodes n = 0 then None else Some (expected_primary (n_view n) (n_totalNodes n)))"

definition NotifyPendingRequest :: "'a PBFTNode \<Rightarrow> 'a PBFTNode" where
  "NotifyPendingRequest n = timer_reset (n\<lparr>n_hasPendingClientRequest := True\<rparr>)"

definition ClearPendingRequest :: "'a PBFTNode \<Rightarrow> 'a PBFTNode" where
  "ClearPendingRequest n = n\<lparr>n_hasPendingClientRequest := False\<rparr>"

definition Close :: "'a PBFTNode \<Rightarrow> 'a PBFTNode" where
  "Close n = n\<lparr>n_cancelled := True\<rparr>"

subsection \<open>Messages from the network\<close>

definition queue_capacity :: nat where "queue_capacity = 1000"

definition enqueue :: "Env \<Rightarrow> ConsensusMessage \<Rightarrow> 'a PBFTNode \<Rightarrow> pbft_error option \<times> 'a PBFTNode" where
  "enqueue E msg n =
     (let space = (length (n_messageQueue n) < queue_capacity)
      in if n_cancelled n \<and> (\<not> space \<or> e_takeDone E) then (Some ContextDone, n)
         else if space then (None, n\<lparr>n_messageQueue := n_messageQueue n @ [msg]\<rparr>)
         else (Some QueueFull, n))"

definition deserialize_consensus :: "Codecs \<Rightarrow> int \<Rightarrow> bytes \<Rightarrow> msg_error + ConsensusMessage" where
  "deserialize_consensus C msgType payload =
     (if msgType = 0 then map_sum id MPrePrepare (DeserializePrePrepare C payload)
      else if msgType = 1 then map_sum id MPrepare (DeserializePrepare C payload)
      else map_sum id MCommit (DeserializeCommit C payload))"

definition HandleNetworkMessage ::
  "Env \<Rightarrow> int \<Rightarrow> bytes \<Rightarrow> 'a PBFTNode \<Rightarrow> pbft_error option \<times> 'a PBFTNode" where
  "HandleNetworkMessage E msgType payload n =
     (if msgType = 0 \<or> msgType = 1 \<or> msgType = 2 then
        (case deserialize_consensus (e_codecs E) msgType payload of
           Inl err \<Rightarrow> (Some (DeserializeError err), n)
         | Inr msg \<Rightarrow> enqueue E msg n)
      else if msgType = 3 then
        (case DeserializeViewChange (e_codecs E) payload of
           Inl err \<Rightarrow> (Some (DeserializeError err), n)
         | Inr msg \<Rightarrow> HandleViewChange msg n)
      else if msgType = 4 then
        (case DeserializeCheckpoint (e_codecs E) payload of
           Inl err \<Rightarrow> (Some (DeserializeError err), n)
         | Inr ckpt \<Rightarrow> (None, HandleCheckpoint ckpt n))
      else if msgType = 6 then (None, n)
      else if msgType = 7 then
        (case DeserializeRequest (e_codecs E) payload of
           Inl err \<Rightarrow> (Some (DeserializeError err), n)
         | Inr req \<Rightarrow>
             if \<not> n_isPrimary n then (None, NotifyPendingRequest n) else ProposeRequest E req n)
      else (Some (UnsupportedType msgType), n))"

fun process_message :: "Env \<Rightarrow> ConsensusMessage \<Rightarrow> 'a PBFTNode \<Rightarrow> pbft_error option \<times> 'a PBFTNode" where
  "process_message E (MPrePrepare m) n = handlePrePrepare E m n"
| "process_message E (MPrepare m) n = HandlePrepare E m n"
| "process_message E (MCommit m) n = HandleCommit E m n"

text \<open>
  The two goroutines of \<open>Start\<close>. Each element of the list is one turn of the loop; a turn
  of \<open>processMessages\<close> with an empty queue waits.
\<close>

fun processMessages :: "Env list \<Rightarrow> 'a PBFTNode \<Rightarrow> 'a PBFTNode" where
  "processMessages [] n = n"
| "processMessages (E # Es) n =
     (if n_cancelled n \<and> (n_messageQueue n = [] \<or> e_takeDone E) then n
      else case n_messageQueue n of
        [] \<Rightarrow> processMessages Es n
      | m # q \<Rightarrow> processMessages Es (snd (process_message E m (n\<lparr>n_messageQueue := q\<rparr>))))"

fun monitorViewTimeout :: "Env list \<Rightarrow> 'a PBFTNode \<Rightarrow> 'a PBFTNode" where
  "monitorViewTimeout [] n = n"
| "monitorViewTimeout (E # Es) n =
     (if n_cancelled n \<and> e_takeDone E then n
      else monitorViewTimeout Es (snd (initiateViewChange E n)))"

end
