(* ===== verification/PBFT_Steps.thy ===== *)
theory PBFT_Steps
  imports PBFT
begin

text \<open>
  How the handlers of \<open>pbft.go\<close> compose into runs of a replica. The events are the calls
  that reach a node from outside: network messages, turns of the two goroutines, proposals
  (whole, or only their first critical section, so that other events may come between it
  and the handling of the node's own PRE-PREPARE), and the calls of the API layer. The
  theory collects what each handler leaves alone and what it adds to the trace.
\<close>

section \<open>Fields the helpers leave alone\<close>

lemma emit_fields [simp]:
  "n_nodeID (emit e n) = n_nodeID n"
  "n_view (emit e n) = n_view n"
  "n_sequence (emit e n) = n_sequence n"
  "n_state (emit e n) = n_state n"
  "n_f (emit e n) = n_f n"
  "n_totalNodes (emit e n) = n_totalNodes n"
  "n_isPrimary (emit e n) = n_isPrimary n"
  "n_prepareLog (emit e n) = n_prepareLog n"
  "n_commitLog (emit e n) = n_commitLog n"
  "n_requestLog (emit e n) = n_requestLog n"
  "n_messageQueue (emit e n) = n_messageQueue n"
  "n_viewTimeout (emit e n) = n_viewTimeout n"
  "n_cancelled (emit e n) = n_cancelled n"
  "n_handlers (emit e n) = n_handlers n"
  "n_checkpoints (emit e n) = n_checkpoints n"
  "n_checkpointVotes (emit e n) = n_checkpointVotes n"
  "n_lastStableCheckpoint (emit e n) = n_lastStableCheckpoint n"
  "n_viewChangeLog (emit e n) = n_viewChangeLog n"
  "n_hasPendingClientRequest (emit e n) = n_hasPendingClientRequest n"
  "n_requestCallbacks (emit e n) = n_requestCallbacks n"
  "n_stateReplicator (emit e n) = n_stateReplicator n"
  "n_app (emit e n) = n_app n"
  by (simp_all add: emit_def)

lemma timer_fields [simp]:
  "n_nodeID (timer_reset n) = n_nodeID n"
  "n_view (timer_reset n) = n_view n"
  "n_sequence (timer_reset n) = n_sequence n"
  "n_state (timer_reset n) = n_state n"
  "n_f (timer_reset n) = n_f n"
  "n_totalNodes (timer_reset n) = n_totalNodes n"
  "n_isPrimary (timer_reset n) = n_isPrimary n"
  "n_prepareLog (timer_reset n) = n_prepareLog n"
  "n_commitLog (timer_reset n) = n_commitLog n"
  "n_requestLog (timer_reset n) = n_requestLog n"
  "n_messageQueue (timer_reset n) = n_messageQueue n"
  "n_viewTimeout (timer_reset n) = n_viewTimeout n"
  "n_cancelled (timer_reset n) = n_cancelled n"
  "n_handlers (timer_reset n) = n_handlers n"
  "n_checkpoints (timer_reset n) = n_checkpoints n"
  "n_checkpointVotes (timer_reset n) = n_checkpointVotes n"
  "n_lastStableCheckpoint (timer_reset n) = n_lastStableCheckpoint n"
  "n_viewChangeLog (timer_reset n) = n_viewChangeLog n"
  "n_hasPendingClientRequest (timer_reset n) = n_hasPendingClientRequest n"
  "n_requestCallbacks (timer_reset n) = n_requestCallbacks n"
  "n_stateReplicator (timer_reset n) = n_stateReplicator n"
  "n_app (timer_reset n) = n_app n"
  by (simp_all add: timer_reset_def)

lemma wrap_fields [simp]:
  "n_nodeID (snd (wrap_and_broadcast E t x n)) = n_nodeID n"
  "n_view (snd (wrap_and_broadcast E t x n)) = n_view n"
  "n_sequence (snd (wrap_and_broadcast E t x n)) = n_sequence n"
  "n_state (snd (wrap_and_broadcast E t x n)) = n_state n"
  "n_f (snd (wrap_and_broadcast E t x n)) = n_f n"
  "n_totalNodes (snd (wrap_and_broadcast E t x n)) = n_totalNodes n"
  "n_isPrimary (snd (wrap_and_broadcast E t x n)) = n_isPrimary n"
  "n_prepareLog (snd (wrap_and_broadcast E t x n)) = n_prepareLog n"
  "n_commitLog (snd (wrap_and_broadcast E t x n)) = n_commitLog n"
  "n_requestLog (snd (wrap_and_broadcast E t x n)) = n_requestLog n"
  "n_messageQueue (snd (wrap_and_broadcast E t x n)) = n_messageQueue n"
  "n_viewTimeout (snd (wrap_and_broadcast E t x n)) = n_viewTimeout n"
  "n_cancelled (snd (wrap_and_broadcast E t x n)) = n_cancelled n"
  "n_handlers (snd (wrap_and_broadcast E t x n)) = n_handlers n"
  "n_checkpoints (snd (wrap_and_broadcast E t x n)) = n_checkpoints n"
  "n_checkpointVotes (snd (wrap_and_broadcast E t x n)) = n_checkpointVotes n"
  "n_lastStableCheckpoint (snd (wrap_and_broadcast E t x n)) = n_lastStableCheckpoint n"
  "n_viewChangeLog (snd (wrap_and_broadcast E t x n)) = n_viewChangeLog n"
  "n_hasPendingClientRequest (snd (wrap_and_broadcast E t x n)) = n_hasPendingClientRequest n"
  "n_requestCallbacks (snd (wrap_and_broadcast E t x n)) = n_requestCallbacks n"
  "n_stateReplicator (snd (wrap_and_broadcast E t x n)) = n_stateReplicator n"
  "n_app (snd (wrap_and_broadcast E t x n)) = n_app n"
  by (simp_all add: wrap_and_broadcast_def split: sum.splits)

lemma invoke_fields [simp]:
  "n_nodeID (invokeCallback i ok err n) = n_nodeID n"
  "n_view (invokeCallback i ok err n) = n_view n"
  "n_sequence (invokeCallback i ok err n) = n_sequence n"
  "n_state (invokeCallback i ok err n) = n_state n"
  "n_f (invokeCallback i ok err n) = n_f n"
  "n_totalNodes (invokeCallback i ok err n) = n_totalNodes n"
  "n_isPrimary (invokeCallback i ok err n) = n_isPrimary n"
  "n_prepareLog (invokeCallback i ok err n) = n_prepareLog n"
  "n_commitLog (invokeCallback i ok err n) = n_commitLog n"
  "n_requestLog (invokeCallback i ok err n) = n_requestLog n"
  "n_messageQueue (invokeCallback i ok err n) = n_messageQueue n"
  "n_viewTimeout (invokeCallback i ok err n) = n_viewTimeout n"
  "n_cancelled (invokeCallback i ok err n) = n_cancelled n"
  "n_handlers (invokeCallback i ok err n) = n_handlers n"
  "n_checkpoints (invokeCallback i ok err n) = n_checkpoints n"
  "n_checkpointVotes (invokeCallback i ok err n) = n_checkpointVotes n"
  "n_lastStableCheckpoint (invokeCallback i ok err n) = n_lastStableCheckpoint n"
  "n_viewChangeLog (invokeCallback i ok err n) = n_viewChangeLog n"
  "n_hasPendingClientRequest (invokeCallback i ok err n) = n_hasPendingClientRequest n"
  "n_stateReplicator (invokeCallback i ok err n) = n_stateReplicator n"
  "n_app (invokeCallback i ok err n) = n_app n"
  by (simp_all add: invokeCallback_def Let_def split: option.splits)

lemma fail_fields [simp]:
  "n_nodeID (fail_callbacks reason cbs n) = n_nodeID n"
  "n_view (fail_callbacks reason cbs n) = n_view n"
  "n_sequence (fail_callbacks reason cbs n) = n_sequence n"
  "n_state (fail_callbacks reason cbs n) = n_state n"
  "n_f (fail_callbacks reason cbs n) = n_f n"
  "n_totalNodes (fail_callbacks reason cbs n) = n_totalNodes n"
  "n_isPrimary (fail_callbacks reason cbs n) = n_isPrimary n"
  "n_prepareLog (fail_callbacks reason cbs n) = n_prepareLog n"
  "n_commitLog (fail_callbacks reason cbs n) = n_commitLog n"
  "n_requestLog (fail_callbacks reason cbs n) = n_requestLog n"
  "n_messageQueue (fail_callbacks reason cbs n) = n_messageQueue n"
  "n_viewTimeout (fail_callbacks reason cbs n) = n_viewTimeout n"
  "n_cancelled (fail_callbacks reason cbs n) = n_cancelled n"
  "n_handlers (fail_callbacks reason cbs n) = n_handlers n"
  "n_checkpoints (fail_callbacks reason cbs n) = n_checkpoints n"
  "n_checkpointVotes (fail_callbacks reason cbs n) = n_checkpointVotes n"
  "n_lastStableCheckpoint (fail_callbacks reason cbs n) = n_lastStableCheckpoint n"
  "n_viewChangeLog (fail_callbacks reason cbs n) = n_viewChangeLog n"
  "n_hasPendingClientRequest (fail_callbacks reason cbs n) = n_hasPendingClientRequest n"
  "n_requestCallbacks (fail_callbacks reason cbs n) = n_requestCallbacks n"
  "n_stateReplicator (fail_callbacks reason cbs n) = n_stateReplicator n"
  "n_app (fail_callbacks reason cbs n) = n_app n"
  by (induction reason cbs n rule: fail_callbacks.induct) (simp_all split: option.splits)

lemma failPending_fields [simp]:
  "n_nodeID (failPendingCallbacks reason n) = n_nodeID n"
  "n_view (failPendingCallbacks reason n) = n_view n"
  "n_sequence (failPendingCallbacks reason n) = n_sequence n"
  "n_state (failPendingCallbacks reason n) = n_state n"
  "n_f (failPendingCallbacks reason n) = n_f n"
  "n_totalNodes (failPendingCallbacks reason n) = n_totalNodes n"
  "n_isPrimary (failPendingCallbacks reason n) = n_isPrimary n"
  "n_prepareLog (failPendingCallbacks reason n) = n_prepareLog n"
  "n_commitLog (failPendingCallbacks reason n) = n_commitLog n"
  "n_requestLog (failPendingCallbacks reason n) = n_requestLog n"
  "n_messageQueue (failPendingCallbacks reason n) = n_messageQueue n"
  "n_viewTimeout (failPendingCallbacks reason n) = n_viewTimeout n"
  "n_cancelled (failPendingCallbacks reason n) = n_cancelled n"
  "n_handlers (failPendingCallbacks reason n) = n_handlers n"
  "n_checkpoints (failPendingCallbacks reason n) = n_checkpoints n"
  "n_checkpointVotes (failPendingCallbacks reason n) = n_checkpointVotes n"
  "n_lastStableCheckpoint (failPendingCallbacks reason n) = n_lastStableCheckpoint n"
  "n_viewChangeLog (failPendingCallbacks reason n) = n_viewChangeLog n"
  "n_hasPendingClientRequest (failPendingCallbacks reason n) = n_hasPendingClientRequest n"
  "n_stateReplicator (failPendingCallbacks reason n) = n_stateReplicator n"
  "n_app (failPendingCallbacks reason n) = n_app n"
  by (simp_all add: failPendingCallbacks_def)

lemma create_fields [simp]:
  "n_nodeID (createCheckpoint E s n) = n_nodeID n"
  "n_view (createCheckpoint E s n) = n_view n"
  "n_sequence (createCheckpoint E s n) = n_sequence n"
  "n_state (createCheckpoint E s n) = n_state n"
  "n_f (createCheckpoint E s n) = n_f n"
  "n_totalNodes (createCheckpoint E s n) = n_totalNodes n"
  "n_isPrimary (createCheckpoint E s n) = n_isPrimary n"
  "n_prepareLog (createCheckpoint E s n) = n_prepareLog n"
  "n_commitLog (createCheckpoint E s n) = n_commitLog n"
  "n_requestLog (createCheckpoint E s n) = n_requestLog n"
  "n_messageQueue (createCheckpoint E s n) = n_messageQueue n"
  "n_viewTimeout (createCheckpoint E s n) = n_viewTimeout n"
  "n_cancelled (createCheckpoint E s n) = n_cancelled n"
  "n_handlers (createCheckpoint E s n) = n_handlers n"
  "n_lastStableCheckpoint (createCheckpoint E s n) = n_lastStableCheckpoint n"
  "n_viewChangeLog (createCheckpoint E s n) = n_viewChangeLog n"
  "n_hasPendingClientRequest (createCheckpoint E s n) = n_hasPendingClientRequest n"
  "n_requestCallbacks (createCheckpoint E s n) = n_requestCallbacks n"
  "n_stateReplicator (createCheckpoint E s n) = n_stateReplicator n"
  "n_app (createCheckpoint E s n) = n_app n"
  by (simp_all add: createCheckpoint_def Let_def)

lemma replicate_fields [simp]:
  "n_nodeID (replicate_state r n) = n_nodeID n"
  "n_view (replicate_state r n) = n_view n"
  "n_sequence (replicate_state r n) = n_sequence n"
  "n_state (replicate_state r n) = n_state n"
  "n_f (replicate_state r n) = n_f n"
  "n_totalNodes (replicate_state r n) = n_totalNodes n"
  "n_isPrimary (replicate_state r n) = n_isPrimary n"
  "n_prepareLog (replicate_state r n) = n_prepareLog n"
  "n_commitLog (replicate_state r n) = n_commitLog n"
  "n_requestLog (replicate_state r n) = n_requestLog n"
  "n_messageQueue (replicate_state r n) = n_messageQueue n"
  "n_viewTimeout (replicate_state r n) = n_viewTimeout n"
  "n_cancelled (replicate_state r n) = n_cancelled n"
  "n_handlers (replicate_state r n) = n_handlers n"
  "n_checkpoints (replicate_state r n) = n_checkpoints n"
  "n_checkpointVotes (replicate_state r n) = n_checkpointVotes n"
  "n_lastStableCheckpoint (replicate_state r n) = n_lastStableCheckpoint n"
  "n_viewChangeLog (replicate_state r n) = n_viewChangeLog n"
  "n_hasPendingClientRequest (replicate_state r n) = n_hasPendingClientRequest n"
  "n_requestCallbacks (replicate_state r n) = n_requestCallbacks n"
  "n_stateReplicator (replicate_state r n) = n_stateReplicator n"
  by (simp_all add: replicate_state_def split: option.splits)

lemma gc_fields [simp]:
  "n_nodeID (garbageCollect s n) = n_nodeID n"
  "n_view (garbageCollect s n) = n_view n"
  "n_sequence (garbageCollect s n) = n_sequence n"
  "n_state (garbageCollect s n) = n_state n"
  "n_f (garbageCollect s n) = n_f n"
  "n_totalNodes (garbageCollect s n) = n_totalNodes n"
  "n_isPrimary (garbageCollect s n) = n_isPrimary n"
  "n_messageQueue (garbageCollect s n) = n_messageQueue n"
  "n_viewTimeout (garbageCollect s n) = n_viewTimeout n"
  "n_cancelled (garbageCollect s n) = n_cancelled n"
  "n_handlers (garbageCollect s n) = n_handlers n"
  "n_checkpointVotes (garbageCollect s n) = n_checkpointVotes n"
  "n_lastStableCheckpoint (garbageCollect s n) = n_lastStableCheckpoint n"
  "n_viewChangeLog (garbageCollect s n) = n_viewChangeLog n"
  "n_hasPendingClientRequest (garbageCollect s n) = n_hasPendingClientRequest n"
  "n_requestCallbacks (garbageCollect s n) = n_requestCallbacks n"
  "n_stateReplicator (garbageCollect s n) = n_stateReplicator n"
  "n_app (garbageCollect s n) = n_app n"
  by (simp_all add: garbageCollect_def)

lemma gc_logs [simp]:
  "n_requestLog (garbageCollect s n) = fmfilter (\<lambda>k. \<not> k \<le> s) (n_requestLog n)"
  "n_prepareLog (garbageCollect s n) = fmfilter (\<lambda>k. \<not> k \<le> s) (n_prepareLog n)"
  "n_commitLog (garbageCollect s n) = fmfilter (\<lambda>k. \<not> k \<le> s) (n_commitLog n)"
  by (simp_all add: garbageCollect_def)

section \<open>Executions in the trace\<close>

fun execution :: "effect \<Rightarrow> (int \<times> Request \<times> string option) list" where
  "execution (EExecute s r err) = [(s, r, err)]"
| "execution _ = []"

definition execs :: "effect list \<Rightarrow> (int \<times> Request \<times> string option) list" where
  "execs es = concat (map execution es)"

abbreviation executions :: "'a PBFTNode \<Rightarrow> (int \<times> Request \<times> string option) list" where
  "executions n \<equiv> execs (n_effects n)"

text \<open>The number of times the handlers ran without error for a sequence number.\<close>

definition successes :: "int \<Rightarrow> (int \<times> Request \<times> string option) list \<Rightarrow> nat" where
  "successes s xs = length (filter (\<lambda>(s', r, err). s' = s \<and> err = None) xs)"

abbreviation executed :: "int \<Rightarrow> 'a PBFTNode \<Rightarrow> nat" where
  "executed s n \<equiv> successes s (executions n)"

lemma successes_append [simp]: "successes s (xs @ ys) = successes s xs + successes s ys"
  by (simp add: successes_def)

lemma successes_simps [simp]:
  "successes s [] = 0"
  "successes s [(s', r, err)] = (if s' = s \<and> err = None then 1 else 0)"
  by (simp_all add: successes_def)

lemma executions_emit [simp]: "executions (emit e n) = executions n @ execution e"
  by (simp add: execs_def emit_def)

lemma executions_timer [simp]: "executions (timer_reset n) = executions n"
  by (simp add: timer_reset_def)

lemma executions_wrap [simp]: "executions (snd (wrap_and_broadcast E t x n)) = executions n"
  by (simp add: wrap_and_broadcast_def split: sum.splits)

lemma executions_invoke [simp]: "executions (invokeCallback i ok err n) = executions n"
  by (simp add: invokeCallback_def Let_def split: option.splits)

lemma executions_fail [simp]: "executions (fail_callbacks reason cbs n) = executions n"
  by (induction reason cbs n rule: fail_callbacks.induct) (simp_all split: option.splits)

lemma executions_failPending [simp]: "executions (failPendingCallbacks reason n) = executions n"
  by (simp add: failPendingCallbacks_def)

lemma executions_create [simp]: "executions (createCheckpoint E s n) = executions n"
  by (simp add: createCheckpoint_def Let_def)

lemma executions_replicate [simp]: "executions (replicate_state r n) = executions n"
  by (simp add: replicate_state_def split: option.splits)

lemma executions_gc [simp]: "executions (garbageCollect s n) = executions n"
  by (simp add: garbageCollect_def)

section \<open>Outcomes of the handlers\<close>

lemma execute_fields [simp]:
  "n_nodeID (snd (executeRequest E s n)) = n_nodeID n"
  "n_view (snd (executeRequest E s n)) = n_view n"
  "n_sequence (snd (executeRequest E s n)) = n_sequence n"
  "n_f (snd (executeRequest E s n)) = n_f n"
  "n_totalNodes (snd (executeRequest E s n)) = n_totalNodes n"
  "n_isPrimary (snd (executeRequest E s n)) = n_isPrimary n"
  "n_prepareLog (snd (executeRequest E s n)) = n_prepareLog n"
  "n_commitLog (snd (executeRequest E s n)) = n_commitLog n"
  "n_messageQueue (snd (executeRequest E s n)) = n_messageQueue n"
  "n_viewTimeout (snd (executeRequest E s n)) = n_viewTimeout n"
  "n_cancelled (snd (executeRequest E s n)) = n_cancelled n"
  "n_handlers (snd (executeRequest E s n)) = n_handlers n"
  "n_lastStableCheckpoint (snd (executeRequest E s n)) = n_lastStableCheckpoint n"
  "n_viewChangeLog (snd (executeRequest E s n)) = n_viewChangeLog n"
  "n_stateReplicator (snd (executeRequest E s n)) = n_stateReplicator n"
  by (simp_all add: executeRequest_def Let_def split: option.splits prod.splits)

lemma commit_fields [simp]:
  "n_nodeID (snd (moveToCommitPhase E s d n)) = n_nodeID n"
  "n_view (snd (moveToCommitPhase E s d n)) = n_view n"
  "n_sequence (snd (moveToCommitPhase E s d n)) = n_sequence n"
  "n_f (snd (moveToCommitPhase E s d n)) = n_f n"
  "n_totalNodes (snd (moveToCommitPhase E s d n)) = n_totalNodes n"
  "n_isPrimary (snd (moveToCommitPhase E s d n)) = n_isPrimary n"
  "n_prepareLog (snd (moveToCommitPhase E s d n)) = n_prepareLog n"
  "n_messageQueue (snd (moveToCommitPhase E s d n)) = n_messageQueue n"
  "n_viewTimeout (snd (moveToCommitPhase E s d n)) = n_viewTimeout n"
  "n_cancelled (snd (moveToCommitPhase E s d n)) = n_cancelled n"
  "n_handlers (snd (moveToCommitPhase E s d n)) = n_handlers n"
  "n_lastStableCheckpoint (snd (moveToCommitPhase E s d n)) = n_lastStableCheckpoint n"
  "n_viewChangeLog (snd (moveToCommitPhase E s d n)) = n_viewChangeLog n"
  "n_stateReplicator (snd (moveToCommitPhase E s d n)) = n_stateReplicator n"
  by (simp_all add: moveToCommitPhase_def Let_def wrap_and_broadcast_def split: sum.splits)

lemma preprepare_fields [simp]:
  "n_nodeID (snd (handlePrePrepare E m n)) = n_nodeID n"
  "n_view (snd (handlePrePrepare E m n)) = n_view n"
  "n_sequence (snd (handlePrePrepare E m n)) = n_sequence n"
  "n_f (snd (handlePrePrepare E m n)) = n_f n"
  "n_totalNodes (snd (handlePrePrepare E m n)) = n_totalNodes n"
  "n_isPrimary (snd (handlePrePrepare E m n)) = n_isPrimary n"
  "n_messageQueue (snd (handlePrePrepare E m n)) = n_messageQueue n"
  "n_viewTimeout (snd (handlePrePrepare E m n)) = n_viewTimeout n"
  "n_cancelled (snd (handlePrePrepare E m n)) = n_cancelled n"
  "n_handlers (snd (handlePrePrepare E m n)) = n_handlers n"
  "n_lastStableCheckpoint (snd (handlePrePrepare E m n)) = n_lastStableCheckpoint n"
  "n_viewChangeLog (snd (handlePrePrepare E m n)) = n_viewChangeLog n"
  "n_stateReplicator (snd (handlePrePrepare E m n)) = n_stateReplicator n"
  by (simp_all add: handlePrePrepare_def Let_def wrap_and_broadcast_def split: sum.splits)

lemma prepare_fields [simp]:
  "n_nodeID (snd (HandlePrepare E p n)) = n_nodeID n"
  "n_view (snd (HandlePrepare E p n)) = n_view n"
  "n_sequence (snd (HandlePrepare E p n)) = n_sequence n"
  "n_f (snd (HandlePrepare E p n)) = n_f n"
  "n_totalNodes (snd (HandlePrepare E p n)) = n_totalNodes n"
  "n_isPrimary (snd (HandlePrepare E p n)) = n_isPrimary n"
  "n_messageQueue (snd (HandlePrepare E p n)) = n_messageQueue n"
  "n_viewTimeout (snd (HandlePrepare E p n)) = n_viewTimeout n"
  "n_cancelled (snd (HandlePrepare E p n)) = n_cancelled n"
  "n_handlers (snd (HandlePrepare E p n)) = n_handlers n"
  "n_lastStableCheckpoint (snd (HandlePrepare E p n)) = n_lastStableCheckpoint n"
  "n_viewChangeLog (snd (HandlePrepare E p n)) = n_viewChangeLog n"
  "n_stateReplicator (snd (HandlePrepare E p n)) = n_stateReplicator n"
  by (simp_all add: HandlePrepare_def Let_def)

lemma handle_commit_fields [simp]:
  "n_nodeID (snd (HandleCommit E c n)) = n_nodeID n"
  "n_view (snd (HandleCommit E c n)) = n_view n"
  "n_sequence (snd (HandleCommit E c n)) = n_sequence n"
  "n_f (snd (HandleCommit E c n)) = n_f n"
  "n_totalNodes (snd (HandleCommit E c n)) = n_totalNodes n"
  "n_isPrimary (snd (HandleCommit E c n)) = n_isPrimary n"
  "n_prepareLog (snd (HandleCommit E c n)) = n_prepareLog n"
  "n_messageQueue (snd (HandleCommit E c n)) = n_messageQueue n"
  "n_viewTimeout (snd (HandleCommit E c n)) = n_viewTimeout n"
  "n_cancelled (snd (HandleCommit E c n)) = n_cancelled n"
  "n_handlers (snd (HandleCommit E c n)) = n_handlers n"
  "n_lastStableCheckpoint (snd (HandleCommit E c n)) = n_lastStableCheckpoint n"
  "n_viewChangeLog (snd (HandleCommit E c n)) = n_viewChangeLog n"
  "n_stateReplicator (snd (HandleCommit E c n)) = n_stateReplicator n"
  by (simp_all add: HandleCommit_def Let_def)

lemma process_fields [simp]:
  "n_nodeID (snd (process_message E m n)) = n_nodeID n"
  "n_view (snd (process_message E m n)) = n_view n"
  "n_sequence (snd (process_message E m n)) = n_sequence n"
  "n_f (snd (process_message E m n)) = n_f n"
  "n_totalNodes (snd (process_message E m n)) = n_totalNodes n"
  "n_isPrimary (snd (process_message E m n)) = n_isPrimary n"
  "n_messageQueue (snd (process_message E m n)) = n_messageQueue n"
  "n_viewTimeout (snd (process_message E m n)) = n_viewTimeout n"
  "n_cancelled (snd (process_message E m n)) = n_cancelled n"
  "n_handlers (snd (process_message E m n)) = n_handlers n"
  "n_lastStableCheckpoint (snd (process_message E m n)) = n_lastStableCheckpoint n"
  "n_viewChangeLog (snd (process_message E m n)) = n_viewChangeLog n"
  "n_stateReplicator (snd (process_message E m n)) = n_stateReplicator n"
  by (cases m; simp)+

text \<open>
  What one call did to the executions and the request log: nothing, or it ended in one call of
  \<open>executeRequest\<close> for the stored request of sequence \<open>s\<close>, made on a node that held the commit
  quorum for \<open>s\<close> at that moment, and the request was dropped if the handlers succeeded.
\<close>

definition exec_step :: "int \<Rightarrow> (int, Request) gomap \<Rightarrow> 'a PBFTNode \<Rightarrow> 'a PBFTNode \<Rightarrow> bool" where
  "exec_step s log n n' \<longleftrightarrow>
     executions n' = executions n \<and> n_requestLog n' = log \<or>
     (\<exists>r err. mget log s = Some r \<and> executions n' = executions n @ [(s, r, err)] \<and>
        n_requestLog n' = (if err = None then fmdrop s log else log) \<and>
        (\<exists>E nc. n' = snd (executeRequest E s nc) \<and> mget (n_requestLog nc) s = Some r \<and>
           executions nc = executions n \<and> n_f nc = n_f n' \<and> checkCommitQuorum s nc))"

lemma exec_step_refl [simp]: "exec_step s (n_requestLog n) n n"
  by (simp add: exec_step_def)

lemma required_eq: "n_f n' = n_f n \<Longrightarrow> required_votes n' = required_votes n"
  by (simp add: required_votes_def)

lemma required_same [simp]:
  "required_votes (snd (executeRequest E s n)) = required_votes n"
  "required_votes (snd (moveToCommitPhase E s d n)) = required_votes n"
  "required_votes (snd (handlePrePrepare E m n)) = required_votes n"
  "required_votes (snd (HandlePrepare E p n)) = required_votes n"
  "required_votes (snd (HandleCommit E c n)) = required_votes n"
  "required_votes (snd (process_message E x n)) = required_votes n"
  by (simp_all add: required_votes_def)

lemma executeRequest_outcome:
  assumes "checkCommitQuorum s n"
  shows "exec_step s (n_requestLog n) n (snd (executeRequest E s n))"
proof (cases "mget (n_requestLog n) s")
  case None
  then show ?thesis by (simp add: executeRequest_def)
next
  case (Some r)
  obtain err app where h: "run_handlers (n_handlers n) r (n_app n) = (err, app)" by force
  have "executions (snd (executeRequest E s n)) = executions n @ [(s, r, err)]"
    and "n_requestLog (snd (executeRequest E s n)) =
      (if err = None then fmdrop s (n_requestLog n) else n_requestLog n)"
    using Some h by (simp_all add: executeRequest_def Let_def split: option.splits)
  moreover have "n_f (snd (executeRequest E s n)) = n_f n" by simp
  ultimately show ?thesis using Some assms unfolding exec_step_def by metis
qed

lemma wrap_cases:
  obtains (sent) d where "wrap_and_broadcast E t x n = (None, emit (EBroadcast d) n)"
    | (failed) err where "wrap_and_broadcast E t x n = (Some err, n)"
proof (cases x)
  case (Inl err)
  then show ?thesis by (intro failed) (simp add: wrap_and_broadcast_def)
next
  case (Inr p)
  show ?thesis
  proof (cases "SerializePBFTMessage (e_codecs E) t p (n_nodeID n)")
    case (Inl err)
    with Inr show ?thesis by (intro failed) (simp add: wrap_and_broadcast_def)
  next
    case (Inr d)
    with \<open>x = Inr p\<close> show ?thesis by (intro sent) (simp add: wrap_and_broadcast_def)
  qed
qed

lemma exec_step_frame:
  "exec_step s log n1 n' \<Longrightarrow> executions n1 = executions n \<Longrightarrow> exec_step s log n n'"
  by (simp add: exec_step_def)

lemma moveToCommitPhase_outcome:
  "exec_step s (n_requestLog n) n (snd (moveToCommitPhase E s d n))"
proof -
  let ?c = "\<lparr>c_View = n_view n, c_Sequence = s, c_Digest = d, c_NodeID = n_nodeID n\<rparr>"
  let ?n1 = "n\<lparr>n_state := StateCommit, n_commitLog := vote s (n_nodeID n) ?c (n_commitLog n)\<rparr>"
  show ?thesis
  proof (cases rule: wrap_cases [of E 2 "SerializeCommit (e_codecs E) ?c" ?n1])
    case (sent b)
    show ?thesis
    proof (cases "checkCommitQuorum s (emit (EBroadcast b) ?n1)")
      case True
      from executeRequest_outcome [OF this, of E] sent True show ?thesis
        by (auto simp: moveToCommitPhase_def Let_def intro: exec_step_frame)
    qed (use sent in \<open>simp add: moveToCommitPhase_def Let_def exec_step_def\<close>)
  qed (simp add: moveToCommitPhase_def Let_def exec_step_def)
qed

definition accepts :: "'a PBFTNode \<Rightarrow> PrePrepareMsg \<Rightarrow> bool" where
  "accepts n m \<longleftrightarrow> pp_View m = n_view n \<and> computeDigest (pp_Request m) = pp_Digest m"

lemma handlePrePrepare_rejected: "\<not> accepts n m \<Longrightarrow> snd (handlePrePrepare E m n) = n"
  by (auto simp: handlePrePrepare_def accepts_def)

text \<open>The node after it has accepted a PRE-PREPARE and before it sends its PREPARE.\<close>

definition prepared :: "PrePrepareMsg \<Rightarrow> 'a PBFTNode \<Rightarrow> 'a PBFTNode" where
  "prepared m n = (timer_reset (n\<lparr>n_requestLog := fmupd (pp_Sequence m) (pp_Request m) (n_requestLog n)\<rparr>))
     \<lparr>n_state := StatePrepare,
      n_prepareLog := vote (pp_Sequence m) (n_nodeID n)
        \<lparr>p_View = pp_View m, p_Sequence = pp_Sequence m, p_Digest = pp_Digest m, p_NodeID = n_nodeID n\<rparr>
        (n_prepareLog n)\<rparr>"

lemma prepared_fields [simp]:
  "n_requestLog (prepared m n) = fmupd (pp_Sequence m) (pp_Request m) (n_requestLog n)"
  "n_commitLog (prepared m n) = n_commitLog n"
  "n_nodeID (prepared m n) = n_nodeID n"
  "n_handlers (prepared m n) = n_handlers n"
  "n_f (prepared m n) = n_f n"
  "executions (prepared m n) = executions n"
  "inner (n_prepareLog (prepared m n)) s =
     (if pp_Sequence m = s
      then fmupd (n_nodeID n) \<lparr>p_View = pp_View m, p_Sequence = pp_Sequence m, p_Digest = pp_Digest m,
             p_NodeID = n_nodeID n\<rparr> (inner (n_prepareLog n) s)
      else inner (n_prepareLog n) s)"
  by (simp_all add: prepared_def)

lemma handlePrePrepare_accepted:
  assumes "accepts n m"
  shows "handlePrePrepare E m n =
    (case wrap_and_broadcast E 1 (SerializePrepare (e_codecs E) \<lparr>p_View = pp_View m,
            p_Sequence = pp_Sequence m, p_Digest = pp_Digest m, p_NodeID = n_nodeID n\<rparr>) (prepared m n) of
       (Some err, n3) \<Rightarrow> (Some err, n3)
     | (None, n3) \<Rightarrow>
         if checkPrepareQuorum (pp_Sequence m) n3
         then moveToCommitPhase E (pp_Sequence m) (pp_Digest m) n3
         else if checkCommitQuorum (pp_Sequence m) n3 then executeRequest E (pp_Sequence m) n3
         else (None, n3))"
  using assms by (simp add: handlePrePrepare_def accepts_def Let_def prepared_def)

lemma handlePrePrepare_outcome:
  assumes "accepts n m"
  shows "exec_step (pp_Sequence m) (fmupd (pp_Sequence m) (pp_Request m) (n_requestLog n)) n
    (snd (handlePrePrepare E m n))"
proof (cases rule: wrap_cases [of E 1 "SerializePrepare (e_codecs E) \<lparr>p_View = pp_View m,
            p_Sequence = pp_Sequence m, p_Digest = pp_Digest m, p_NodeID = n_nodeID n\<rparr>" "prepared m n"])
  case (sent b)
  let ?n3 = "emit (EBroadcast b) (prepared m n)"
  note eq = handlePrePrepare_accepted [OF assms, of E, unfolded sent, simplified]
  consider "checkPrepareQuorum (pp_Sequence m) ?n3"
    | "\<not> checkPrepareQuorum (pp_Sequence m) ?n3" "checkCommitQuorum (pp_Sequence m) ?n3"
    | "\<not> checkPrepareQuorum (pp_Sequence m) ?n3" "\<not> checkCommitQuorum (pp_Sequence m) ?n3"
    by blast
  then show ?thesis
  proof cases
    case 1
    with eq show ?thesis
      using moveToCommitPhase_outcome [of "pp_Sequence m" ?n3 E "pp_Digest m"]
      by (auto intro: exec_step_frame)
  next
    case 2
    with eq show ?thesis
      using executeRequest_outcome [of "pp_Sequence m" ?n3 E] by (auto intro: exec_step_frame)
  next
    case 3
    with eq show ?thesis by (simp add: exec_step_def)
  qed
qed (use handlePrePrepare_accepted [OF assms, of E] in \<open>simp add: exec_step_def\<close>)

lemma HandlePrepare_outcome:
  "exec_step (p_Sequence p) (n_requestLog n) n (snd (HandlePrepare E p n))"
  using moveToCommitPhase_outcome
    [of "p_Sequence p" "n\<lparr>n_prepareLog := vote (p_Sequence p) (p_NodeID p) p (n_prepareLog n)\<rparr>" E "p_Digest p"]
  by (auto simp: HandlePrepare_def Let_def exec_step_def)

lemma HandleCommit_outcome:
  "exec_step (c_Sequence c) (n_requestLog n) n (snd (HandleCommit E c n))"
  using executeRequest_outcome
    [of "c_Sequence c" "n\<lparr>n_commitLog := vote (c_Sequence c) (c_NodeID c) c (n_commitLog n)\<rparr>" E]
  by (auto simp: HandleCommit_def Let_def exec_step_def)

end
