(* ===== verification/PBFT_Safety.thy ===== *)
theory PBFT_Safety
  imports PBFT_Steps
begin

text \<open>
  Safety of one replica over every sequence of events, and of two replicas together: what
  an execution needs, how often a sequence number is executed, and where the executed
  request comes from. Nothing is assumed about the messages: votes may be forged, repeated
  or out of order.
\<close>

section \<open>Events and runs\<close>

datatype event =
    EvNet Env int bytes
  | EvTurn Env
  | EvTimeout Env
  | EvPropose Env Request
  | EvProposeBegin Env Request
  | EvHandle Env ConsensusMessage
  | EvNotify
  | EvClear
  | EvCallback string ConsensusCallback
  | EvClose

fun pbft_step :: "event \<Rightarrow> 'a PBFTNode \<Rightarrow> 'a PBFTNode" where
  "pbft_step (EvNet E t payload) n = snd (HandleNetworkMessage E t payload n)"
| "pbft_step (EvTurn E) n = processMessages [E] n"
| "pbft_step (EvTimeout E) n = monitorViewTimeout [E] n"
| "pbft_step (EvPropose E req) n = snd (ProposeRequest E req n)"
| "pbft_step (EvProposeBegin E req) n = snd (propose_begin E req n)"
| "pbft_step (EvHandle E m) n = snd (process_message E m n)"
| "pbft_step EvNotify n = NotifyPendingRequest n"
| "pbft_step EvClear n = ClearPendingRequest n"
| "pbft_step (EvCallback i cb) n = RegisterCallback i cb n"
| "pbft_step EvClose n = Close n"

fun pbft_run :: "event list \<Rightarrow> 'a PBFTNode \<Rightarrow> 'a PBFTNode" where
  "pbft_run [] n = n"
| "pbft_run (ev # evs) n = pbft_run evs (pbft_step ev n)"

text \<open>The requests an event makes the node accept, with their sequence numbers.\<close>

fun accepted_message :: "ConsensusMessage \<Rightarrow> 'a PBFTNode \<Rightarrow> (int \<times> Request) list" where
  "accepted_message (MPrePrepare m) n = (if accepts n m then [(pp_Sequence m, pp_Request m)] else [])"
| "accepted_message _ n = []"

definition proposed :: "Env \<Rightarrow> Request \<Rightarrow> 'a PBFTNode \<Rightarrow> (int \<times> Request) list" where
  "proposed E req n =
     (case fst (propose_begin E req n) of Inl err \<Rightarrow> [] | Inr pp \<Rightarrow> [(pp_Sequence pp, pp_Request pp)])"

fun accepted_by :: "event \<Rightarrow> 'a PBFTNode \<Rightarrow> (int \<times> Request) list" where
  "accepted_by (EvHandle E m) n = accepted_message m n"
| "accepted_by (EvTurn E) n =
     (if n_cancelled n \<and> (n_messageQueue n = [] \<or> e_takeDone E) then []
      else case n_messageQueue n of [] \<Rightarrow> [] | m # q \<Rightarrow> accepted_message m n)"
| "accepted_by (EvPropose E req) n = proposed E req n"
| "accepted_by (EvProposeBegin E req) n = proposed E req n"
| "accepted_by (EvNet E t payload) n =
     (if t = 7 then
        (case DeserializeRequest (e_codecs E) payload of
           Inl err \<Rightarrow> [] | Inr req \<Rightarrow> if n_isPrimary n then proposed E req n else [])
      else [])"
| "accepted_by _ n = []"

fun accepted :: "event list \<Rightarrow> 'a PBFTNode \<Rightarrow> (int \<times> Request) list" where
  "accepted [] n = []"
| "accepted (ev # evs) n = accepted_by ev n @ accepted evs (pbft_step ev n)"

section \<open>What one event does to the executions\<close>

fun store_all :: "(int \<times> Request) list \<Rightarrow> (int, Request) gomap \<Rightarrow> (int, Request) gomap" where
  "store_all [] log = log"
| "store_all ((s, r) # xs) log = store_all xs (fmupd s r log)"

definition event_ok :: "(int \<times> Request) list \<Rightarrow> 'a PBFTNode \<Rightarrow> 'a PBFTNode \<Rightarrow> bool" where
  "event_ok acc n n' \<longleftrightarrow>
     (\<exists>s P. exec_step s (store_all acc (fmfilter P (n_requestLog n))) n n')"

lemma fmfilter_all [simp]: "fmfilter (\<lambda>_. True) m = m"
  by (simp add: fmfilter_true)

lemma event_okI: "exec_step s (store_all acc (n_requestLog n)) n n' \<Longrightarrow> event_ok acc n n'"
  unfolding event_ok_def by (metis fmfilter_all)

lemma event_ok_same:
  "executions n' = executions n \<Longrightarrow> n_requestLog n' = n_requestLog n \<Longrightarrow> event_ok [] n n'"
  by (rule event_okI) (simp add: exec_step_def)

lemma event_ok_frame:
  "event_ok acc n1 n' \<Longrightarrow> executions n1 = executions n \<Longrightarrow> n_requestLog n1 = n_requestLog n \<Longrightarrow>
     event_ok acc n n'"
  by (simp only: event_ok_def exec_step_def)

lemma process_message_ok: "event_ok (accepted_message m n) n (snd (process_message E m n))"
proof (cases m)
  case (MPrePrepare pp)
  then show ?thesis
  proof (cases "accepts n pp")
    case True
    with MPrePrepare show ?thesis
      using handlePrePrepare_outcome [OF True, of E]
      by (intro event_okI [of "pp_Sequence pp"]) simp
  qed (simp add: handlePrePrepare_rejected event_ok_same)
next
  case (MPrepare p)
  then show ?thesis using HandlePrepare_outcome by (intro event_okI) simp
next
  case (MCommit c)
  then show ?thesis using HandleCommit_outcome by (intro event_okI) simp
qed

lemma propose_begin_cases:
  obtains (refused) err where "propose_begin E req n = (Inl err, n)"
    | (begun) pp where "propose_begin E req n = (Inr pp,
          n\<lparr>n_sequence := pp_Sequence pp, n_requestLog := fmupd (pp_Sequence pp) req (n_requestLog n)\<rparr>)"
        and "pp = \<lparr>pp_View = n_view n, pp_Sequence = int64 (n_sequence n + 1),
                   pp_Digest = computeDigest req, pp_Request = req\<rparr>"
        and "n_isPrimary n"
proof (cases "n_isPrimary n \<and> \<not> (n_totalNodes n \<noteq> 1 \<and> e_peerCount E + 1 < 2 * n_f n + 1)")
  case True
  then show ?thesis by (intro begun [OF _ refl]) (simp_all add: propose_begin_def Let_def)
next
  case False
  then show ?thesis
    by (cases "n_isPrimary n") (auto intro: refused simp: propose_begin_def)
qed

lemma ProposeRequest_ok: "event_ok (proposed E req n) n (snd (ProposeRequest E req n))"
proof (cases rule: propose_begin_cases [of E req n])
  case (refused err)
  then show ?thesis by (simp add: ProposeRequest_def proposed_def event_ok_same)
next
  case (begun pp)
  let ?n1 = "n\<lparr>n_sequence := pp_Sequence pp, n_requestLog := fmupd (pp_Sequence pp) req (n_requestLog n)\<rparr>"
  have p: "proposed E req n = [(pp_Sequence pp, req)]" using begun by (simp add: proposed_def)
  show ?thesis
  proof (cases rule: wrap_cases [of E 0 "SerializePrePrepare (e_codecs E) pp" ?n1])
    case (sent b)
    let ?n2 = "emit (EBroadcast b) ?n1"
    have "accepts ?n2 pp" using begun by (simp add: accepts_def)
    from handlePrePrepare_outcome [OF this, of E] begun sent show ?thesis
      by (intro event_okI [of "pp_Sequence pp"]) (simp add: ProposeRequest_def p exec_step_def)
  next
    case (failed err)
    with begun show ?thesis
      by (intro event_okI [of 0]) (simp add: ProposeRequest_def p exec_step_def)
  qed
qed

lemma propose_begin_ok: "event_ok (proposed E req n) n (snd (propose_begin E req n))"
  by (cases rule: propose_begin_cases [of E req n])
    (auto intro!: event_ok_same event_okI [of 0] simp: proposed_def exec_step_def)

lemma HandleCheckpoint_ok: "event_ok [] n (HandleCheckpoint k n)"
proof -
  have "executions (HandleCheckpoint k n) = executions n" by (simp add: HandleCheckpoint_def Let_def)
  moreover have "n_requestLog (HandleCheckpoint k n) = n_requestLog n \<or>
      n_requestLog (HandleCheckpoint k n) = fmfilter (\<lambda>s. \<not> s \<le> k_Sequence k) (n_requestLog n)"
    by (simp add: HandleCheckpoint_def Let_def)
  then have "\<exists>P. n_requestLog (HandleCheckpoint k n) = fmfilter P (n_requestLog n)"
    by (metis fmfilter_all)
  ultimately show ?thesis by (simp add: event_ok_def exec_step_def)
qed

lemma view_change_same [simp]:
  "executions (snd (HandleViewChange v n)) = executions n"
  "n_requestLog (snd (HandleViewChange v n)) = n_requestLog n"
  "executions (snd (initiateViewChange E n)) = executions n"
  "n_requestLog (snd (initiateViewChange E n)) = n_requestLog n"
  by (simp_all add: HandleViewChange_def initiateViewChange_def Let_def)

lemma enqueue_same [simp]:
  "executions (snd (enqueue E m n)) = executions n"
  "n_requestLog (snd (enqueue E m n)) = n_requestLog n"
  by (simp_all add: enqueue_def Let_def)

lemma notify_same [simp]:
  "executions (NotifyPendingRequest n) = executions n"
  "n_requestLog (NotifyPendingRequest n) = n_requestLog n"
  by (simp_all add: NotifyPendingRequest_def)

lemma network_ok: "event_ok (accepted_by (EvNet E t payload) n) n (snd (HandleNetworkMessage E t payload n))"
proof (cases "t = 7")
  case True
  then show ?thesis
    by (simp add: HandleNetworkMessage_def ProposeRequest_ok event_ok_same split: sum.splits)
next
  case False
  then show ?thesis
    by (simp add: HandleNetworkMessage_def HandleCheckpoint_ok event_ok_same split: sum.splits)
qed

lemma pbft_step_ok: "event_ok (accepted_by ev n) n (pbft_step ev n)"
proof (cases ev)
  case (EvTurn E)
  show ?thesis
  proof (cases "n_cancelled n \<and> (n_messageQueue n = [] \<or> e_takeDone E) \<or> n_messageQueue n = []")
    case True
    with EvTurn show ?thesis by (auto intro: event_ok_same)
  next
    case False
    then obtain m q where mq: "n_messageQueue n = m # q" by (cases "n_messageQueue n") auto
    have "accepted_message m (n\<lparr>n_messageQueue := q\<rparr>) = accepted_message m n"
      by (cases m) (simp_all add: accepts_def)
    then show ?thesis
      using process_message_ok [of m "n\<lparr>n_messageQueue := q\<rparr>" E] False EvTurn mq
      by (auto intro: event_ok_frame)
  qed
next
  case (EvNet E t p)
  then show ?thesis using network_ok [of E t p n] by simp
qed (auto intro: event_ok_same process_message_ok ProposeRequest_ok propose_begin_ok
    simp: ClearPendingRequest_def RegisterCallback_def Close_def)

section \<open>What a run does to the executions\<close>

definition pending :: "int \<Rightarrow> (int, Request) gomap \<Rightarrow> nat" where
  "pending s log = (if mhas log s then 1 else 0)"

definition accepted_at :: "int \<Rightarrow> (int \<times> Request) list \<Rightarrow> nat" where
  "accepted_at s acc = length (filter (\<lambda>(s', r). s' = s) acc)"

lemma accepted_at_simps [simp]:
  "accepted_at s [] = 0"
  "accepted_at s ((s', r) # xs) = (if s' = s then 1 else 0) + accepted_at s xs"
  "accepted_at s (xs @ ys) = accepted_at s xs + accepted_at s ys"
  by (simp_all add: accepted_at_def)

lemma pending_store: "pending s (store_all acc log) \<le> pending s log + accepted_at s acc"
proof (induction acc log rule: store_all.induct)
  case (2 s' r xs log)
  have "pending s (fmupd s' r log) \<le> pending s log + (if s' = s then 1 else 0)"
    by (simp add: pending_def)
  with 2 show ?case by simp
qed simp

lemma exec_step_cases:
  assumes "exec_step s log n n'"
  obtains (same) "executions n' = executions n" and "n_requestLog n' = log"
    | (failed) r err where "mget log s = Some r" and "executions n' = executions n @ [(s, r, Some err)]"
        and "n_requestLog n' = log"
    | (ok) r where "mget log s = Some r" and "executions n' = executions n @ [(s, r, None)]"
        and "n_requestLog n' = fmdrop s log"
proof -
  consider "executions n' = executions n \<and> n_requestLog n' = log"
    | r err where "mget log s = Some r \<and> executions n' = executions n @ [(s, r, err)] \<and>
        n_requestLog n' = (if err = None then fmdrop s log else log)"
    using assms unfolding exec_step_def by blast
  then show ?thesis
  proof cases
    case (2 r err)
    then show ?thesis using failed ok by (cases err) auto
  qed (use same in blast)
qed

lemma exec_step_potential:
  assumes "exec_step s' log n n'"
  shows "executed s n' + pending s (n_requestLog n') \<le> executed s n + pending s log"
  using assms
  by (cases rule: exec_step_cases) (auto simp: pending_def fmlookup_dom_iff)

lemma event_ok_potential:
  assumes "event_ok acc n n'"
  shows "executed s n' + pending s (n_requestLog n') \<le>
    executed s n + pending s (n_requestLog n) + accepted_at s acc"
proof -
  obtain s' P where "exec_step s' (store_all acc (fmfilter P (n_requestLog n))) n n'"
    using assms by (auto simp: event_ok_def)
  from exec_step_potential [OF this, of s] pending_store [of s acc "fmfilter P (n_requestLog n)"]
  have "executed s n' + pending s (n_requestLog n') \<le>
      executed s n + pending s (fmfilter P (n_requestLog n)) + accepted_at s acc" by simp
  moreover have "pending s (fmfilter P (n_requestLog n)) \<le> pending s (n_requestLog n)"
    by (simp add: pending_def)
  ultimately show ?thesis by simp
qed

lemma run_potential:
  "executed s (pbft_run evs n) + pending s (n_requestLog (pbft_run evs n)) \<le>
     executed s n + pending s (n_requestLog n) + accepted_at s (accepted evs n)"
proof (induction evs n rule: pbft_run.induct)
  case (2 ev evs n)
  from event_ok_potential [OF pbft_step_ok, of s ev n] "2.IH" show ?case by simp
qed simp

text \<open>Where the entries of the request log and the executed requests come from.\<close>

lemma store_all_from: "mget (store_all acc log) s = Some r \<Longrightarrow> (s, r) \<in> set acc \<or> mget log s = Some r"
proof (induction acc log rule: store_all.induct)
  case (2 s' r' xs log)
  then show ?case by (cases "s = s'") auto
qed simp

definition explained :: "(int \<times> Request) set \<Rightarrow> 'a PBFTNode \<Rightarrow> bool" where
  "explained A n \<longleftrightarrow> (\<forall>s r. mget (n_requestLog n) s = Some r \<longrightarrow> (s, r) \<in> A) \<and>
     (\<forall>(s, r, err) \<in> set (executions n). (s, r) \<in> A)"

lemma event_ok_explained:
  assumes "event_ok acc n n'" and "explained A n"
  shows "explained (A \<union> set acc) n'"
proof -
  obtain s P where e: "exec_step s (store_all acc (fmfilter P (n_requestLog n))) n n'"
    using assms(1) by (auto simp: event_ok_def)
  have log: "(k, r) \<in> A \<union> set acc" if "mget (store_all acc (fmfilter P (n_requestLog n))) k = Some r" for k r
    using store_all_from [OF that] assms(2) by (auto simp: explained_def split: if_splits)
  from e show ?thesis
    by (cases rule: exec_step_cases) (use log assms(2) in \<open>fastforce simp: explained_def\<close>)+
qed

lemma run_explained: "explained A n \<Longrightarrow> explained (A \<union> set (accepted evs n)) (pbft_run evs n)"
proof (induction evs n arbitrary: A rule: pbft_run.induct)
  case (2 ev evs n)
  from "2.IH" [OF event_ok_explained [OF pbft_step_ok "2.prems"]] show ?case
    by (simp add: Un_assoc)
qed simp

lemma new_node [simp]:
  "executions (NewPBFTNode cfg app) = []" "n_requestLog (NewPBFTNode cfg app) = fmempty"
  "n_view (NewPBFTNode cfg app) = 0" "n_messageQueue (NewPBFTNode cfg app) = []"
  "n_totalNodes (NewPBFTNode cfg app) = cfg_TotalNodes cfg"
  "n_nodeID (NewPBFTNode cfg app) = cfg_NodeID cfg"
  "n_f (NewPBFTNode cfg app) = max_faulty (cfg_TotalNodes cfg)"
  by (simp_all add: NewPBFTNode_def Let_def execs_def)

lemma new_node_explained: "explained {} (NewPBFTNode cfg app)"
  by (simp add: explained_def)

text \<open>
  The point of an execution: the step from \<open>n\<close> to \<open>n'\<close> adds this entry to the trace, and does
  so by a call of \<open>executeRequest\<close> on a node \<open>nc\<close> whose commit log holds the quorum.
\<close>

definition executes_with_quorum :: "int \<times> Request \<times> string option \<Rightarrow> 'a PBFTNode \<Rightarrow> 'a PBFTNode \<Rightarrow> bool" where
  "executes_with_quorum x n n' \<longleftrightarrow>
     executions n' = executions n @ [x] \<and>
     (\<exists>E nc. n' = snd (executeRequest E (fst x) nc) \<and> mget (n_requestLog nc) (fst x) = Some (fst (snd x)) \<and>
        executions nc = executions n \<and> 2 * n_f n' + 1 \<le> golen (inner (n_commitLog nc) (fst x)))"

lemma event_ok_quorum:
  assumes "event_ok acc n n'"
  shows "executions n' = executions n \<or> (\<exists>x. executes_with_quorum x n n')"
proof -
  obtain s log where "exec_step s log n n'" using assms by (auto simp: event_ok_def)
  then consider "executions n' = executions n"
    | r err E nc where "executions n' = executions n @ [(s, r, err)]" "n' = snd (executeRequest E s nc)"
        "mget (n_requestLog nc) s = Some r" "executions nc = executions n" "n_f nc = n_f n'" "checkCommitQuorum s nc"
    unfolding exec_step_def by blast
  then show ?thesis
  proof cases
    case (2 r err E nc)
    have "2 * n_f n' + 1 \<le> golen (inner (n_commitLog nc) s)"
      using 2(5,6) by (simp add: checkCommitQuorum_def checkQuorum_def required_votes_def Let_def split: if_splits)
    with 2 have "executes_with_quorum (s, r, err) n n'" unfolding executes_with_quorum_def by auto
    then show ?thesis by blast
  qed blast
qed

lemma run_snoc: "pbft_run (evs @ [ev]) n = pbft_step ev (pbft_run evs n)"
  by (induction evs n rule: pbft_run.induct) simp_all

lemma execution_quorum_point:
  assumes "i < length (executions (pbft_run evs n))" and "length (executions n) \<le> i"
  shows "\<exists>pre ev post. evs = pre @ ev # post \<and> length (executions (pbft_run pre n)) = i \<and>
    executes_with_quorum (executions (pbft_run evs n) ! i) (pbft_run pre n) (pbft_step ev (pbft_run pre n))"
  using assms
proof (induction evs rule: rev_induct)
  case (snoc ev evs)
  let ?n = "pbft_run evs n"
  have earlier: ?case if "i < length (executions ?n)"
    and "executions (pbft_run (evs @ [ev]) n) ! i = executions ?n ! i"
  proof -
    from snoc.IH [OF that(1) snoc.prems(2)] obtain pre ev' post where "evs = pre @ ev' # post"
      and "length (executions (pbft_run pre n)) = i"
      and "executes_with_quorum (executions ?n ! i) (pbft_run pre n) (pbft_step ev' (pbft_run pre n))" by blast
    then show ?thesis
      unfolding that(2) by (intro exI [of _ pre] exI [of _ ev'] exI [of _ "post @ [ev]"]) simp
  qed
  consider "executions (pbft_step ev ?n) = executions ?n"
    | x where "executes_with_quorum x ?n (pbft_step ev ?n)"
    using event_ok_quorum [OF pbft_step_ok, of ev ?n] by blast
  then show ?case
  proof cases
    case 1
    with snoc.prems(1) show ?thesis by (intro earlier) (simp_all add: run_snoc)
  next
    case (2 x)
    then have ex: "executions (pbft_step ev ?n) = executions ?n @ [x]" by (simp add: executes_with_quorum_def)
    show ?thesis
    proof (cases "i = length (executions ?n)")
      case True
      with 2 ex show ?thesis by (intro exI [of _ evs] exI [of _ ev] exI [of _ "[]"]) (simp add: run_snoc)
    next
      case False
      with ex snoc.prems(1) show ?thesis by (intro earlier) (simp_all add: run_snoc nth_append)
    qed
  qed
qed simp

end
