(* ===== verification/PBFT_Order.thy ===== *)
theory PBFT_Order
  imports PBFT_Safety
begin

text \<open>
  The replica seen from one sequence number. A \<open>slot\<close> holds who voted for the number, the
  request waiting there and each run of the consensus handlers for it with its outcome;
  \<open>slot_step\<close> is the protocol on slots. What a step cannot decide by itself comes from a
  \<open>slot_oracle\<close>: what the registered handlers answer to a request, and whether the node's own
  PREPARE and COMMIT can be marshalled. The theory shows that the message handlers of
  \<open>pbft.go\<close> refine the protocol, failures included, and that on slots the order in which
  messages arrive does not matter.
\<close>

section \<open>The abstract protocol\<close>

record slot =
  sl_prepares :: "string fset"
  sl_commits :: "string fset"
  sl_request :: "Request option"
  sl_runs :: "(Request \<times> string option) list"

record slot_oracle =
  so_handlers :: "Request \<Rightarrow> string option"
  so_prepare_sent :: bool
  so_commit_sent :: bool

text \<open>
  Running the handlers: a request they accept leaves the slot, one they refuse stays and is
  run again by the next message that finds the quorum.
\<close>

definition slot_execute :: "slot_oracle \<Rightarrow> slot \<Rightarrow> slot" where
  "slot_execute e sl =
     (case sl_request sl of
        None \<Rightarrow> sl
      | Some r \<Rightarrow> sl\<lparr>sl_request := (if so_handlers e r = None then None else Some r),
                     sl_runs := sl_runs sl @ [(r, so_handlers e r)]\<rparr>)"

definition slot_commit :: "slot_oracle \<Rightarrow> int \<Rightarrow> string \<Rightarrow> slot \<Rightarrow> slot" where
  "slot_commit e q self sl =
     (let sl' = sl\<lparr>sl_commits := finsert self (sl_commits sl)\<rparr>
      in if so_commit_sent e \<and> q \<le> int (fcard (sl_commits sl')) then slot_execute e sl' else sl')"

fun slot_step :: "slot_oracle \<Rightarrow> int \<Rightarrow> string \<Rightarrow> int \<Rightarrow> int \<Rightarrow> ConsensusMessage \<Rightarrow> slot \<Rightarrow> slot" where
  "slot_step e q self v s (MPrePrepare m) sl =
     (if pp_View m = v \<and> computeDigest (pp_Request m) = pp_Digest m \<and> pp_Sequence m = s then
        let sl' = sl\<lparr>sl_request := Some (pp_Request m), sl_prepares := finsert self (sl_prepares sl)\<rparr>
        in if \<not> so_prepare_sent e then sl'
           else if q \<le> int (fcard (sl_prepares sl')) then slot_commit e q self sl'
           else if q \<le> int (fcard (sl_commits sl')) then slot_execute e sl' else sl'
      else sl)"
| "slot_step e q self v s (MPrepare m) sl =
     (if p_View m = v \<and> p_Sequence m = s then
        let sl' = sl\<lparr>sl_prepares := finsert (p_NodeID m) (sl_prepares sl)\<rparr>
        in if q \<le> int (fcard (sl_prepares sl')) \<and> sl_request sl' \<noteq> None then slot_commit e q self sl' else sl'
      else sl)"
| "slot_step e q self v s (MCommit m) sl =
     (if c_View m = v \<and> c_Sequence m = s then
        let sl' = sl\<lparr>sl_commits := finsert (c_NodeID m) (sl_commits sl)\<rparr>
        in if q \<le> int (fcard (sl_commits sl')) then slot_execute e sl' else sl'
      else sl)"

text \<open>
  The runs of the handlers for a sequence number with their outcomes, and the requests
  executed without error, in order.
\<close>

definition runs_at :: "int \<Rightarrow> (int \<times> Request \<times> string option) list \<Rightarrow> (Request \<times> string option) list" where
  "runs_at s xs = map snd (filter (\<lambda>x. fst x = s) xs)"

definition executed_at :: "int \<Rightarrow> (int \<times> Request \<times> string option) list \<Rightarrow> Request list" where
  "executed_at s xs = map (\<lambda>(s', r, err). r) (filter (\<lambda>(s', r, err). s' = s \<and> err = None) xs)"

lemma runs_at_simps [simp]:
  "runs_at s [] = []"
  "runs_at s (xs @ ys) = runs_at s xs @ runs_at s ys"
  "runs_at s [(s', r, err)] = (if s' = s then [(r, err)] else [])"
  by (simp_all add: runs_at_def)

lemma executed_at_simps [simp]:
  "executed_at s [] = []"
  "executed_at s (xs @ ys) = executed_at s xs @ executed_at s ys"
  "executed_at s [(s', r, err)] = (if s' = s \<and> err = None then [r] else [])"
  by (simp_all add: executed_at_def)

lemma executed_at_runs: "executed_at s xs = map fst (filter (\<lambda>(r, err). err = None) (runs_at s xs))"
  by (induction xs) (auto simp: executed_at_def runs_at_def)

definition slot_of :: "int \<Rightarrow> 'a PBFTNode \<Rightarrow> slot" where
  "slot_of s n = \<lparr>sl_prepares = fmdom (inner (n_prepareLog n) s), sl_commits = fmdom (inner (n_commitLog n) s),
     sl_request = mget (n_requestLog n) s, sl_runs = runs_at s (executions n)\<rparr>"

text \<open>What the handlers of a node would answer now, and which of its votes it can send.\<close>

abbreviation answer :: "'a PBFTNode \<Rightarrow> Request \<Rightarrow> string option" where
  "answer n r \<equiv> fst (run_handlers (n_handlers n) r (n_app n))"

definition sendable :: "Env \<Rightarrow> string \<Rightarrow> int \<Rightarrow> msg_error + bytes \<Rightarrow> bool" where
  "sendable E i t serialized =
     (case serialized of
        Inl err \<Rightarrow> False
      | Inr payload \<Rightarrow>
          (case SerializePBFTMessage (e_codecs E) t payload i of Inl err \<Rightarrow> False | Inr b \<Rightarrow> True))"

fun voted_for :: "ConsensusMessage \<Rightarrow> int \<times> string" where
  "voted_for (MPrePrepare m) = (pp_Sequence m, pp_Digest m)"
| "voted_for (MPrepare m) = (p_Sequence m, p_Digest m)"
| "voted_for (MCommit m) = (c_Sequence m, c_Digest m)"

definition oracle_of :: "Env \<Rightarrow> ConsensusMessage \<Rightarrow> 'a PBFTNode \<Rightarrow> slot_oracle" where
  "oracle_of E m n =
     \<lparr>so_handlers = answer n,
      so_prepare_sent = sendable E (n_nodeID n) 1 (SerializePrepare (e_codecs E)
        \<lparr>p_View = n_view n, p_Sequence = fst (voted_for m), p_Digest = snd (voted_for m), p_NodeID = n_nodeID n\<rparr>),
      so_commit_sent = sendable E (n_nodeID n) 2 (SerializeCommit (e_codecs E)
        \<lparr>c_View = n_view n, c_Sequence = fst (voted_for m), c_Digest = snd (voted_for m), c_NodeID = n_nodeID n\<rparr>)\<rparr>"

section \<open>The handlers refine it\<close>

lemma golen_fmdom: "golen m = int (fcard (fmdom m))"
  by (simp add: golen_def)

lemma wrap_sendable:
  obtains (sent) b where "sendable E (n_nodeID n) t x" and "wrap_and_broadcast E t x n = (None, emit (EBroadcast b) n)"
    | (failed) err where "\<not> sendable E (n_nodeID n) t x" and "wrap_and_broadcast E t x n = (Some err, n)"
proof -
  have eq: "sendable E (n_nodeID n) t x \<longleftrightarrow> fst (wrap_and_broadcast E t x n) = None"
    by (simp add: sendable_def wrap_and_broadcast_def split: sum.splits)
  show ?thesis
  proof (cases rule: wrap_cases [of E t x n])
    case (sent b)
    then show ?thesis using eq by (intro that(1)) simp_all
  next
    case (failed err)
    then show ?thesis using eq by (intro that(2)) simp_all
  qed
qed

lemma executeRequest_slot:
  assumes "\<And>r. so_handlers e r = answer n r"
  shows "slot_of s (snd (executeRequest E s' n)) =
    (if s' = s then slot_execute e (slot_of s n) else slot_of s n)"
proof (cases "mget (n_requestLog n) s'")
  case None
  then show ?thesis by (auto simp: executeRequest_def slot_execute_def slot_of_def)
next
  case (Some r)
  obtain err app where h: "run_handlers (n_handlers n) r (n_app n) = (err, app)" by force
  then have "so_handlers e r = err" using assms [of r] by simp
  with Some h show ?thesis
    by (cases err) (auto simp: executeRequest_def Let_def slot_execute_def slot_of_def)
qed

lemma slot_quorums:
  "checkPrepareQuorum s n \<longleftrightarrow> required_votes n \<le> int (fcard (sl_prepares (slot_of s n)))"
  "checkCommitQuorum s n \<longleftrightarrow> required_votes n \<le> int (fcard (sl_commits (slot_of s n)))"
  by (simp_all add: checkPrepareQuorum_def checkCommitQuorum_def checkQuorum_def slot_of_def golen_def)

lemma slot_of_emit [simp]: "execution e = [] \<Longrightarrow> slot_of s (emit e n) = slot_of s n"
  by (simp add: slot_of_def)

lemma moveToCommitPhase_slot:
  assumes "\<And>r. so_handlers e r = answer n r"
    and "so_commit_sent e = sendable E (n_nodeID n) 2 (SerializeCommit (e_codecs E)
      \<lparr>c_View = n_view n, c_Sequence = s', c_Digest = d, c_NodeID = n_nodeID n\<rparr>)"
  shows "slot_of s (snd (moveToCommitPhase E s' d n)) =
    (if s' = s then slot_commit e (required_votes n) (n_nodeID n) (slot_of s n) else slot_of s n)"
proof -
  let ?c = "\<lparr>c_View = n_view n, c_Sequence = s', c_Digest = d, c_NodeID = n_nodeID n\<rparr>"
  let ?n1 = "n\<lparr>n_state := StateCommit, n_commitLog := vote s' (n_nodeID n) ?c (n_commitLog n)\<rparr>"
  have sl: "slot_of s ?n1 =
      (if s' = s then (slot_of s n)\<lparr>sl_commits := finsert (n_nodeID n) (sl_commits (slot_of s n))\<rparr> else slot_of s n)"
    by (simp add: slot_of_def)
  show ?thesis
  proof (cases rule: wrap_sendable [of E ?n1 2 "SerializeCommit (e_codecs E) ?c"])
    case (sent b)
    let ?n2 = "emit (EBroadcast b) ?n1"
    have q: "required_votes ?n2 = required_votes n" by (simp add: required_votes_def)
    have h: "so_handlers e r = answer ?n2 r" for r using assms(1) by simp
    have sl2: "slot_of s ?n2 = slot_of s ?n1" by simp
    have "snd (moveToCommitPhase E s' d n) =
        (if checkCommitQuorum s' ?n2 then snd (executeRequest E s' ?n2) else ?n2)"
      by (simp add: moveToCommitPhase_def Let_def sent(2))
    then have "slot_of s (snd (moveToCommitPhase E s' d n)) =
        (if s' = s \<and> required_votes n \<le> int (fcard (sl_commits (slot_of s ?n1)))
         then slot_execute e (slot_of s ?n1) else slot_of s ?n1)"
      by (simp only: slot_quorums q if_distrib [of snd] if_distrib [of "slot_of s"] executeRequest_slot [OF h] sl2)
        (use sl2 in auto)
    from this [unfolded sl] sent(1) assms(2) show ?thesis
      by (cases "s' = s") (simp_all add: slot_commit_def Let_def)
  next
    case (failed err)
    with sl assms(2) show ?thesis
      by (simp add: moveToCommitPhase_def Let_def slot_commit_def)
  qed
qed

lemma handlePrePrepare_slot:
  "slot_of s (snd (handlePrePrepare E m n)) =
    slot_step (oracle_of E (MPrePrepare m) n) (required_votes n) (n_nodeID n) (n_view n) s (MPrePrepare m) (slot_of s n)"
proof (cases "accepts n m")
  case False
  then show ?thesis by (auto simp: handlePrePrepare_rejected accepts_def)
next
  case True
  let ?e = "oracle_of E (MPrePrepare m) n"
  let ?p = "\<lparr>p_View = pp_View m, p_Sequence = pp_Sequence m, p_Digest = pp_Digest m, p_NodeID = n_nodeID n\<rparr>"
  have sl: "slot_of s (prepared m n) = (if pp_Sequence m = s
      then (slot_of s n)\<lparr>sl_request := Some (pp_Request m), sl_prepares := finsert (n_nodeID n) (sl_prepares (slot_of s n))\<rparr>
      else slot_of s n)"
    by (simp add: slot_of_def)
  have ps: "so_prepare_sent ?e = sendable E (n_nodeID (prepared m n)) 1 (SerializePrepare (e_codecs E) ?p)"
    using True by (simp add: oracle_of_def accepts_def)
  show ?thesis
  proof (cases rule: wrap_sendable [of E "prepared m n" 1 "SerializePrepare (e_codecs E) ?p"])
    case (sent b)
    let ?n3 = "emit (EBroadcast b) (prepared m n)"
    note eq = handlePrePrepare_accepted [OF True, of E, unfolded sent(2), simplified]
    have q: "required_votes ?n3 = required_votes n" and i: "n_nodeID ?n3 = n_nodeID n"
      by (simp_all add: required_votes_def)
    have h: "so_handlers ?e r = answer ?n3 r" for r by (simp add: oracle_of_def prepared_def)
    have c: "so_commit_sent ?e = sendable E (n_nodeID ?n3) 2 (SerializeCommit (e_codecs E)
        \<lparr>c_View = n_view ?n3, c_Sequence = pp_Sequence m, c_Digest = pp_Digest m, c_NodeID = n_nodeID ?n3\<rparr>)"
      by (simp add: oracle_of_def prepared_def)
    have sl3: "slot_of s ?n3 = slot_of s (prepared m n)" by simp
    show ?thesis
    proof (cases "pp_Sequence m = s")
      case eqs: True
      then have s: "s = pp_Sequence m" by simp
      show ?thesis
        using True sent(1) ps sl sl3 unfolding s
        by (simp add: eq slot_quorums q i accepts_def Let_def moveToCommitPhase_slot [OF h c]
            executeRequest_slot [OF h] del: slot_of_emit emit_fields)
    next
      case False
      with True sl sl3 show ?thesis
        by (simp add: eq moveToCommitPhase_slot [OF h c] executeRequest_slot [OF h] del: slot_of_emit emit_fields)
    qed
  next
    case (failed err)
    with True sl ps show ?thesis
      by (simp add: handlePrePrepare_accepted [OF True] accepts_def Let_def)
  qed
qed

lemma HandlePrepare_slot:
  "slot_of s (snd (HandlePrepare E m n)) =
    slot_step (oracle_of E (MPrepare m) n) (required_votes n) (n_nodeID n) (n_view n) s (MPrepare m) (slot_of s n)"
proof -
  let ?e = "oracle_of E (MPrepare m) n"
  let ?n1 = "n\<lparr>n_prepareLog := vote (p_Sequence m) (p_NodeID m) m (n_prepareLog n)\<rparr>"
  have q: "required_votes ?n1 = required_votes n" by (simp add: required_votes_def)
  have h: "so_handlers ?e r = answer ?n1 r" for r by (simp add: oracle_of_def)
  have c: "so_commit_sent ?e = sendable E (n_nodeID ?n1) 2 (SerializeCommit (e_codecs E)
      \<lparr>c_View = n_view ?n1, c_Sequence = p_Sequence m, c_Digest = p_Digest m, c_NodeID = n_nodeID ?n1\<rparr>)"
    by (simp add: oracle_of_def)
  have sl: "slot_of s ?n1 = (if p_Sequence m = s
      then (slot_of s n)\<lparr>sl_prepares := finsert (p_NodeID m) (sl_prepares (slot_of s n))\<rparr> else slot_of s n)"
    by (simp add: slot_of_def)
  have r: "mhas (n_requestLog ?n1) (p_Sequence m) \<longleftrightarrow> sl_request (slot_of (p_Sequence m) n) \<noteq> None"
    by (simp add: slot_of_def fmlookup_dom_iff)
  show ?thesis
  proof (cases "p_Sequence m = s")
    case True
    then have s: "s = p_Sequence m" by simp
    show ?thesis
      using sl r unfolding s by (auto simp: HandlePrepare_def Let_def slot_quorums q moveToCommitPhase_slot [OF h c])
  next
    case False
    then show ?thesis
      using sl by (simp add: HandlePrepare_def Let_def moveToCommitPhase_slot [OF h c])
  qed
qed

lemma HandleCommit_slot:
  "slot_of s (snd (HandleCommit E m n)) =
    slot_step (oracle_of E (MCommit m) n) (required_votes n) (n_nodeID n) (n_view n) s (MCommit m) (slot_of s n)"
proof -
  let ?e = "oracle_of E (MCommit m) n"
  let ?n1 = "n\<lparr>n_commitLog := vote (c_Sequence m) (c_NodeID m) m (n_commitLog n)\<rparr>"
  have q: "required_votes ?n1 = required_votes n" by (simp add: required_votes_def)
  have h: "so_handlers ?e r = answer ?n1 r" for r by (simp add: oracle_of_def)
  have sl: "slot_of s ?n1 = (if c_Sequence m = s
      then (slot_of s n)\<lparr>sl_commits := finsert (c_NodeID m) (sl_commits (slot_of s n))\<rparr> else slot_of s n)"
    by (simp add: slot_of_def)
  have r: "mhas (n_requestLog ?n1) (c_Sequence m) \<longleftrightarrow> sl_request (slot_of (c_Sequence m) n) \<noteq> None"
    by (simp add: slot_of_def fmlookup_dom_iff)
  show ?thesis
  proof (cases "c_Sequence m = s")
    case True
    then have s: "s = c_Sequence m" by simp
    show ?thesis
      using sl r unfolding s
      by (auto simp add: HandleCommit_def Let_def slot_quorums q executeRequest_slot [OF h] slot_execute_def)
  next
    case False
    then show ?thesis using sl by (simp add: HandleCommit_def Let_def executeRequest_slot [OF h])
  qed
qed

lemma process_message_slot:
  "slot_of s (snd (process_message E m n)) =
    slot_step (oracle_of E m n) (required_votes n) (n_nodeID n) (n_view n) s m (slot_of s n)"
  by (cases m) (simp_all only: process_message.simps handlePrePrepare_slot HandlePrepare_slot HandleCommit_slot)

text \<open>With a codec that marshals what the node sends, every vote goes out.\<close>

lemma oracle_sends:
  assumes "sender_marshals (e_codecs E) (n_nodeID n)"
  shows "so_prepare_sent (oracle_of E m n)" and "so_commit_sent (oracle_of E m n)"
proof -
  obtain p where "SerializePrepare (e_codecs E) \<lparr>p_View = n_view n, p_Sequence = fst (voted_for m),
      p_Digest = snd (voted_for m), p_NodeID = n_nodeID n\<rparr> = Inr p"
    using sender_marshalsD(1) [OF assms, of "\<lparr>p_View = n_view n, p_Sequence = fst (voted_for m),
      p_Digest = snd (voted_for m), p_NodeID = n_nodeID n\<rparr>"] by auto
  then show "so_prepare_sent (oracle_of E m n)"
    using sender_marshalsD(3) [OF assms, of 1 p] by (auto simp: oracle_of_def sendable_def)
  obtain p' where "SerializeCommit (e_codecs E) \<lparr>c_View = n_view n, c_Sequence = fst (voted_for m),
      c_Digest = snd (voted_for m), c_NodeID = n_nodeID n\<rparr> = Inr p'"
    using sender_marshalsD(2) [OF assms, of "\<lparr>c_View = n_view n, c_Sequence = fst (voted_for m),
      c_Digest = snd (voted_for m), c_NodeID = n_nodeID n\<rparr>"] by auto
  then show "so_commit_sent (oracle_of E m n)"
    using sender_marshalsD(3) [OF assms, of 2 p'] by (auto simp: oracle_of_def sendable_def)
qed

section \<open>The order of messages does not matter\<close>

fun prepare_voter :: "int \<Rightarrow> int \<Rightarrow> ConsensusMessage \<Rightarrow> string list" where
  "prepare_voter v s (MPrepare m) = (if p_View m = v \<and> p_Sequence m = s then [p_NodeID m] else [])"
| "prepare_voter v s _ = []"

fun commit_voter :: "int \<Rightarrow> int \<Rightarrow> ConsensusMessage \<Rightarrow> string list" where
  "commit_voter v s (MCommit m) = (if c_View m = v \<and> c_Sequence m = s then [c_NodeID m] else [])"
| "commit_voter v s _ = []"

fun proposal :: "int \<Rightarrow> int \<Rightarrow> ConsensusMessage \<Rightarrow> Request list" where
  "proposal v s (MPrePrepare m) =
     (if pp_View m = v \<and> computeDigest (pp_Request m) = pp_Digest m \<and> pp_Sequence m = s
      then [pp_Request m] else [])"
| "proposal v s _ = []"

definition prepare_voters :: "int \<Rightarrow> int \<Rightarrow> ConsensusMessage list \<Rightarrow> string fset" where
  "prepare_voters v s ms = fset_of_list (concat (map (prepare_voter v s) ms))"

definition commit_voters :: "int \<Rightarrow> int \<Rightarrow> ConsensusMessage list \<Rightarrow> string fset" where
  "commit_voters v s ms = fset_of_list (concat (map (commit_voter v s) ms))"

definition proposals :: "int \<Rightarrow> int \<Rightarrow> ConsensusMessage list \<Rightarrow> Request list" where
  "proposals v s ms = concat (map (proposal v s) ms)"

text \<open>The commit votes a node can count: those it received, and its own once it is prepared.\<close>

definition countable_commits :: "int \<Rightarrow> string \<Rightarrow> string fset \<Rightarrow> string fset \<Rightarrow> string fset" where
  "countable_commits q self P C = (if q \<le> int (fcard (finsert self P)) then finsert self C else C)"

definition decided :: "int \<Rightarrow> string \<Rightarrow> string fset \<Rightarrow> string fset \<Rightarrow> bool" where
  "decided q self P C \<longleftrightarrow> q \<le> int (fcard (countable_commits q self P C))"

lemma fcard_le: "A |\<subseteq>| B \<Longrightarrow> int (fcard A) \<le> int (fcard B)"
  by (simp add: fcard_mono)

lemma countable_mono:
  assumes "P |\<subseteq>| P'" and "C |\<subseteq>| C'"
  shows "countable_commits q self P C |\<subseteq>| countable_commits q self P' C'"
proof -
  have "int (fcard (finsert self P)) \<le> int (fcard (finsert self P'))"
    using assms(1) by (intro fcard_le) auto
  with assms(2) show ?thesis by (auto simp: countable_commits_def)
qed

lemma decided_mono: "decided q self P C \<Longrightarrow> P |\<subseteq>| P' \<Longrightarrow> C |\<subseteq>| C' \<Longrightarrow> decided q self P' C'"
  unfolding decided_def using fcard_le [OF countable_mono] by (meson order.trans)

text \<open>
  The states a slot goes through. Once decided, the slot holds a log of runs for one request:
  at least one, all but the last refused, and the request still waits if the last one was.
\<close>

definition run_log :: "(string option \<Rightarrow> bool) \<Rightarrow> Request \<Rightarrow> Request option \<Rightarrow> (Request \<times> string option) list \<Rightarrow> bool" where
  "run_log Q r waits runs \<longleftrightarrow> runs \<noteq> [] \<and> (\<forall>x \<in> set runs. fst x = r \<and> Q (snd x)) \<and>
     (\<forall>x \<in> set (butlast runs). snd x \<noteq> None) \<and> waits = (if snd (last runs) = None then None else Some r)"

definition slot_waiting :: "string fset \<Rightarrow> string fset \<Rightarrow> slot" where
  "slot_waiting P C = \<lparr>sl_prepares = P, sl_commits = C, sl_request = None, sl_runs = []\<rparr>"

definition slot_open :: "int \<Rightarrow> string \<Rightarrow> Request \<Rightarrow> string fset \<Rightarrow> string fset \<Rightarrow> slot \<Rightarrow> bool" where
  "slot_open q self r P C sl \<longleftrightarrow> \<not> decided q self P C \<and>
     sl = \<lparr>sl_prepares = finsert self P, sl_commits = countable_commits q self P C,
           sl_request = Some r, sl_runs = []\<rparr>"

definition slot_closed ::
  "(string option \<Rightarrow> bool) \<Rightarrow> int \<Rightarrow> string \<Rightarrow> Request \<Rightarrow> string fset \<Rightarrow> string fset \<Rightarrow> slot \<Rightarrow> bool" where
  "slot_closed Q q self r P C sl \<longleftrightarrow> decided q self P C \<and> run_log Q r (sl_request sl) (sl_runs sl)"

text \<open>An oracle that sends every vote and whose handlers answer \<open>r\<close> within \<open>Q\<close>.\<close>

definition oracle_ok :: "(string option \<Rightarrow> bool) \<Rightarrow> Request \<Rightarrow> slot_oracle \<Rightarrow> bool" where
  "oracle_ok Q r e \<longleftrightarrow> so_prepare_sent e \<and> so_commit_sent e \<and> Q (so_handlers e r)"

lemma oracle_okD: "oracle_ok Q r e \<Longrightarrow> so_prepare_sent e" "oracle_ok Q r e \<Longrightarrow> so_commit_sent e"
    "oracle_ok Q r e \<Longrightarrow> Q (so_handlers e r)"
  by (simp_all add: oracle_ok_def)

lemma run_log_first:
  assumes "oracle_ok Q r e" and "sl_request sl = Some r" and "sl_runs sl = []"
  shows "run_log Q r (sl_request (slot_execute e sl)) (sl_runs (slot_execute e sl))"
  using assms by (auto simp: slot_execute_def run_log_def oracle_ok_def)

lemma run_log_again:
  assumes "oracle_ok Q r e" and "run_log Q r (sl_request sl) (sl_runs sl)"
  shows "run_log Q r (sl_request (slot_execute e sl)) (sl_runs (slot_execute e sl))"
proof (cases "snd (last (sl_runs sl)) = None")
  case True
  with assms show ?thesis by (simp add: slot_execute_def run_log_def)
next
  case False
  let ?xs = "sl_runs sl"
  have nonempty: "?xs \<noteq> []" and old: "\<forall>x \<in> set ?xs. fst x = r \<and> Q (snd x)"
    and refused: "\<forall>x \<in> set (butlast ?xs). snd x \<noteq> None" and "sl_request sl = Some r"
    using assms(2) False by (simp_all add: run_log_def)
  from nonempty have "set ?xs = insert (last ?xs) (set (butlast ?xs))"
    by (metis append_butlast_last_id list.simps(15) rotate1.simps(2) set_rotate1)
  with refused False have "\<forall>x \<in> set ?xs. snd x \<noteq> None" by simp
  with old \<open>sl_request sl = Some r\<close> oracle_okD(3) [OF assms(1)] show ?thesis
    by (auto simp: slot_execute_def run_log_def)
qed

lemma slot_execute_votes [simp]:
  "sl_prepares (slot_execute e sl) = sl_prepares sl" "sl_commits (slot_execute e sl) = sl_commits sl"
  by (simp_all add: slot_execute_def split: option.splits)

lemma waiting_proposal:
  assumes "proposal v s m = [r]" and "oracle_ok Q r e"
  shows "slot_open q self r P C (slot_step e q self v s m (slot_waiting P C)) \<or>
    slot_closed Q q self r P C (slot_step e q self v s m (slot_waiting P C))"
proof -
  obtain pp where m: "m = MPrePrepare pp" and pp: "pp_View pp = v" "pp_Sequence pp = s" "pp_Request pp = r"
      "computeDigest (pp_Request pp) = pp_Digest pp"
    using assms(1) by (cases m) (auto split: if_splits)
  let ?sl = "\<lparr>sl_prepares = finsert self P, sl_commits = countable_commits q self P C, sl_request = Some r, sl_runs = []\<rparr>"
  have eq: "slot_step e q self v s m (slot_waiting P C) = (if decided q self P C then slot_execute e ?sl else ?sl)"
    using pp oracle_okD(1,2) [OF assms(2)]
    by (simp add: m slot_waiting_def slot_commit_def Let_def decided_def countable_commits_def)
  show ?thesis
    using run_log_first [OF assms(2), of ?sl] unfolding eq by (simp add: slot_open_def slot_closed_def)
qed

lemma waiting_step:
  assumes "proposal v s m = []"
  shows "slot_step e q self v s m (slot_waiting P C) =
    slot_waiting (P |\<union>| fset_of_list (prepare_voter v s m)) (C |\<union>| fset_of_list (commit_voter v s m))"
  using assms by (cases m) (auto simp: slot_waiting_def slot_execute_def Let_def split: if_splits)

lemma closed_step:
  assumes "slot_closed Q q self r P C sl" and "proposal v s m = []" and "oracle_ok Q r e"
  shows "slot_closed Q q self r (P |\<union>| fset_of_list (prepare_voter v s m))
    (C |\<union>| fset_of_list (commit_voter v s m)) (slot_step e q self v s m sl)"
proof -
  have "decided q self (P |\<union>| fset_of_list (prepare_voter v s m)) (C |\<union>| fset_of_list (commit_voter v s m))"
    using assms(1) by (auto simp: slot_closed_def intro: decided_mono)
  moreover have "run_log Q r (sl_request sl) (sl_runs sl)" using assms(1) by (simp add: slot_closed_def)
  moreover from this have "run_log Q r (sl_request (slot_execute e (sl\<lparr>sl_prepares := X, sl_commits := Y\<rparr>)))
      (sl_runs (slot_execute e (sl\<lparr>sl_prepares := X, sl_commits := Y\<rparr>)))"
    "run_log Q r (sl_request (slot_execute e (sl\<lparr>sl_commits := Y\<rparr>)))
      (sl_runs (slot_execute e (sl\<lparr>sl_commits := Y\<rparr>)))" for X Y
    by (simp_all add: run_log_again [OF assms(3)])
  moreover have "slot_step e q self v s (MPrePrepare pp) sl = sl" if "m = MPrePrepare pp" for pp
    using assms(2) that by (auto split: if_splits)
  ultimately show ?thesis
    by (cases m) (simp_all add: slot_closed_def slot_commit_def Let_def)
qed

lemma open_prepare:
  assumes "slot_open q self r P C sl" and "p_View m = v" and "p_Sequence m = s" and "oracle_ok Q r e"
  shows "slot_open q self r (finsert (p_NodeID m) P) C (slot_step e q self v s (MPrepare m) sl) \<or>
    slot_closed Q q self r (finsert (p_NodeID m) P) C (slot_step e q self v s (MPrepare m) sl)"
proof -
  let ?P = "finsert (p_NodeID m) P"
  let ?sl = "\<lparr>sl_prepares = finsert self ?P, sl_commits = countable_commits q self ?P C, sl_request = Some r, sl_runs = []\<rparr>"
  have p: "finsert (p_NodeID m) (finsert self P) = finsert self ?P" by auto
  have i: "finsert self (countable_commits q self P C) = finsert self C"
    by (simp add: countable_commits_def)
  have "int (fcard (finsert self P)) \<le> int (fcard (finsert self ?P))" by (intro fcard_le) auto
  then have k: "\<not> q \<le> int (fcard (finsert self ?P)) \<Longrightarrow> \<not> q \<le> int (fcard (finsert self P))" by simp
  have eq: "slot_step e q self v s (MPrepare m) sl = (if decided q self ?P C then slot_execute e ?sl else ?sl)"
  proof (cases "q \<le> int (fcard (finsert self ?P))")
    case True
    with assms oracle_okD(2) [OF assms(4)] show ?thesis
      by (simp add: slot_open_def slot_commit_def Let_def p i decided_def countable_commits_def [of _ _ ?P])
  next
    case False
    with k [OF False] assms show ?thesis
      by (simp add: slot_open_def p decided_def countable_commits_def)
  qed
  show ?thesis
    using run_log_first [OF assms(4), of ?sl] unfolding eq by (simp add: slot_open_def slot_closed_def)
qed

lemma open_commit:
  assumes "slot_open q self r P C sl" and "c_View m = v" and "c_Sequence m = s" and "oracle_ok Q r e"
  shows "slot_open q self r P (finsert (c_NodeID m) C) (slot_step e q self v s (MCommit m) sl) \<or>
    slot_closed Q q self r P (finsert (c_NodeID m) C) (slot_step e q self v s (MCommit m) sl)"
proof -
  let ?C = "finsert (c_NodeID m) C"
  let ?sl = "\<lparr>sl_prepares = finsert self P, sl_commits = countable_commits q self P ?C, sl_request = Some r, sl_runs = []\<rparr>"
  have "finsert (c_NodeID m) (countable_commits q self P C) = countable_commits q self P ?C"
    by (auto simp: countable_commits_def)
  with assms have eq: "slot_step e q self v s (MCommit m) sl = (if decided q self P ?C then slot_execute e ?sl else ?sl)"
    by (simp add: slot_open_def Let_def decided_def)
  show ?thesis
    using run_log_first [OF assms(4), of ?sl] unfolding eq by (simp add: slot_open_def slot_closed_def)
qed

lemma open_step:
  assumes "slot_open q self r P C sl" and "proposal v s m = []" and "oracle_ok Q r e"
  shows "slot_open q self r (P |\<union>| fset_of_list (prepare_voter v s m))
      (C |\<union>| fset_of_list (commit_voter v s m)) (slot_step e q self v s m sl) \<or>
    slot_closed Q q self r (P |\<union>| fset_of_list (prepare_voter v s m))
      (C |\<union>| fset_of_list (commit_voter v s m)) (slot_step e q self v s m sl)"
proof (cases m)
  case (MPrePrepare x)
  with assms show ?thesis by (auto split: if_splits)
next
  case (MPrepare x)
  with assms(1) open_prepare [OF assms(1) _ _ assms(3), of x v s] show ?thesis
    by (cases "p_View x = v \<and> p_Sequence x = s")
      (auto simp del: slot_step.simps(2), simp_all)
next
  case (MCommit x)
  with assms(1) open_commit [OF assms(1) _ _ assms(3), of x v s] show ?thesis
    by (cases "c_View x = v \<and> c_Sequence x = s")
      (auto simp del: slot_step.simps(3), simp_all)
qed

lemma voters_snoc [simp]:
  "prepare_voters v s (ms @ [m]) = prepare_voters v s ms |\<union>| fset_of_list (prepare_voter v s m)"
  "commit_voters v s (ms @ [m]) = commit_voters v s ms |\<union>| fset_of_list (commit_voter v s m)"
  "proposals v s (ms @ [m]) = proposals v s ms @ proposal v s m"
  by (simp_all add: prepare_voters_def commit_voters_def proposals_def funion_commute)

lemma proposal_voters: "proposal v s m = [r] \<Longrightarrow> prepare_voter v s m = [] \<and> commit_voter v s m = []"
  by (cases m) auto

text \<open>A sequence of messages, each with what its surroundings answer.\<close>

definition slot_run :: "int \<Rightarrow> string \<Rightarrow> int \<Rightarrow> int \<Rightarrow> (slot_oracle \<times> ConsensusMessage) list \<Rightarrow> slot \<Rightarrow> slot" where
  "slot_run q self v s = fold (\<lambda>(e, m). slot_step e q self v s m)"

lemma slot_run_simps [simp]:
  "slot_run q self v s [] sl = sl"
  "slot_run q self v s ((e, m) # xs) sl = slot_run q self v s xs (slot_step e q self v s m sl)"
  "slot_run q self v s (xs @ [(e, m)]) sl = slot_step e q self v s m (slot_run q self v s xs sl)"
  by (simp_all add: slot_run_def)

lemma run_waiting:
  "proposals v s (map snd xs) = [] \<Longrightarrow>
     slot_run q self v s xs (slot_waiting {||} {||}) =
       slot_waiting (prepare_voters v s (map snd xs)) (commit_voters v s (map snd xs))"
proof (induction xs rule: rev_induct)
  case Nil
  show ?case by (simp add: prepare_voters_def commit_voters_def)
next
  case (snoc x xs)
  then show ?case by (cases x) (simp add: waiting_step)
qed

lemma run_proposed:
  "proposals v s (map snd xs) = [r] \<Longrightarrow> \<forall>(e, m) \<in> set xs. oracle_ok Q r e \<Longrightarrow>
     slot_open q self r (prepare_voters v s (map snd xs)) (commit_voters v s (map snd xs))
       (slot_run q self v s xs (slot_waiting {||} {||})) \<or>
     slot_closed Q q self r (prepare_voters v s (map snd xs)) (commit_voters v s (map snd xs))
       (slot_run q self v s xs (slot_waiting {||} {||}))"
proof (induction xs rule: rev_induct)
  case Nil
  then show ?case by (simp add: proposals_def)
next
  case (snoc x xs)
  obtain e m where x: "x = (e, m)" by force
  have ok: "oracle_ok Q r e" and oks: "\<forall>(e, m) \<in> set xs. oracle_ok Q r e"
    using snoc.prems(2) x by auto
  from snoc.prems(1) x consider "proposals v s (map snd xs) = []" "proposal v s m = [r]"
    | "proposals v s (map snd xs) = [r]" "proposal v s m = []"
    by (auto simp: append_eq_Cons_conv)
  then show ?case
  proof cases
    case 1
    then show ?thesis
      using waiting_proposal [OF 1(2) ok] proposal_voters [OF 1(2)] by (simp add: x run_waiting)
  next
    case 2
    from snoc.IH [OF 2(1) oks] show ?thesis
      using open_step [OF _ 2(2) ok] closed_step [OF _ 2(2) ok] unfolding x by fastforce
  qed
qed

text \<open>The oracles of the turns of \<open>processMessages\<close> that empty the queue.\<close>

fun oracles :: "Env list \<Rightarrow> 'a PBFTNode \<Rightarrow> (slot_oracle \<times> ConsensusMessage) list" where
  "oracles [] n = []"
| "oracles (E # Es) n =
     (case n_messageQueue n of
        [] \<Rightarrow> []
      | m # q \<Rightarrow> (oracle_of E m n, m) # oracles Es (snd (process_message E m (n\<lparr>n_messageQueue := q\<rparr>))))"

lemma processMessages_slot:
  assumes "\<not> n_cancelled n" and "length Es = length (n_messageQueue n)"
  shows "slot_of s (processMessages Es n) =
      slot_run (required_votes n) (n_nodeID n) (n_view n) s (oracles Es n) (slot_of s n) \<and>
    map snd (oracles Es n) = n_messageQueue n"
  using assms
proof (induction Es n rule: processMessages.induct)
  case (2 E Es n)
  obtain m q where mq: "n_messageQueue n = m # q" using "2.prems"(2) by (cases "n_messageQueue n") auto
  let ?n0 = "n\<lparr>n_messageQueue := q\<rparr>" and ?n' = "snd (process_message E m (n\<lparr>n_messageQueue := q\<rparr>))"
  have rv: "required_votes ?n0 = required_votes n" by (simp add: required_votes_def)
  have o: "oracle_of E m ?n0 = oracle_of E m n" by (simp add: oracle_of_def)
  have sl: "slot_of s ?n0 = slot_of s n" by (simp add: slot_of_def)
  have "slot_of s ?n' = slot_step (oracle_of E m n) (required_votes n) (n_nodeID n) (n_view n) s m (slot_of s n)"
    using process_message_slot [of s E m ?n0] by (simp add: rv sl o)
  moreover have "slot_of s (processMessages Es ?n') =
      slot_run (required_votes ?n') (n_nodeID ?n') (n_view ?n') s (oracles Es ?n') (slot_of s ?n') \<and>
      map snd (oracles Es ?n') = n_messageQueue ?n'"
    using "2.prems" mq by (intro "2.IH") simp_all
  ultimately show ?case using "2.prems"(1) mq by (simp add: rv)
qed simp

lemma oracles_ok:
  assumes "\<forall>E \<in> set Es. sender_marshals (e_codecs E) (n_nodeID n)"
    and "\<And>a. Q (fst (run_handlers (n_handlers n) r a))"
  shows "\<forall>(e, m) \<in> set (oracles Es n). oracle_ok Q r e"
  using assms
proof (induction Es n rule: oracles.induct)
  case (2 E Es n)
  have "oracle_ok Q r (oracle_of E m n)" for m
    using "2.prems" oracle_sends [of E n m] by (simp add: oracle_ok_def) (simp add: oracle_of_def)
  moreover have "\<forall>(e, m) \<in> set (oracles Es (snd (process_message E m (n\<lparr>n_messageQueue := q\<rparr>)))). oracle_ok Q r e"
    if "n_messageQueue n = m # q" for m q
    using "2.IH" [OF that] "2.prems" by simp
  ultimately show ?case by (cases "n_messageQueue n") simp_all
qed simp

lemma processed_outcome:
  assumes "\<not> n_cancelled n" and "length Es = length (n_messageQueue n)"
    and "\<forall>E \<in> set Es. sender_marshals (e_codecs E) (n_nodeID n)"
    and "proposals (n_view n) s (n_messageQueue n) = [r]"
    and "slot_of s n = slot_waiting {||} {||}"
    and "\<And>a. Q (fst (run_handlers (n_handlers n) r a))"
  shows "if decided (required_votes n) (n_nodeID n) (prepare_voters (n_view n) s (n_messageQueue n))
            (commit_voters (n_view n) s (n_messageQueue n))
    then run_log Q r (mget (n_requestLog (processMessages Es n)) s) (runs_at s (executions (processMessages Es n)))
    else runs_at s (executions (processMessages Es n)) = [] \<and> mget (n_requestLog (processMessages Es n)) s = Some r"
proof -
  note sl = processMessages_slot [OF assms(1,2), of s, THEN conjunct1, unfolded assms(5)]
    and ms = processMessages_slot [OF assms(1,2), of s, THEN conjunct2]
  have "mget (n_requestLog n') s = sl_request (slot_of s n')" "runs_at s (executions n') = sl_runs (slot_of s n')"
    for n' :: "'a PBFTNode" by (simp_all add: slot_of_def)
  then show ?thesis
    using run_proposed [of "n_view n" s "oracles Es n" r Q "required_votes n" "n_nodeID n"]
      oracles_ok [OF assms(3), of Q r] assms(4,6)
    by (auto simp: sl ms slot_open_def slot_closed_def)
qed

lemma run_log_accepted: "run_log (\<lambda>err. err = None) r w runs \<Longrightarrow> runs = [(r, None)]"
proof -
  assume log: "run_log (\<lambda>err. err = None) r w runs"
  then obtain ys x where runs: "runs = ys @ [x]" by (cases runs rule: rev_cases) (auto simp: run_log_def)
  with log have "x = (r, None)" and "\<forall>y \<in> set ys. snd y = None \<and> snd y \<noteq> None"
    by (auto simp: run_log_def prod_eq_iff)
  then show ?thesis by (cases ys) (auto simp: runs)
qed

lemma processed_accepted:
  assumes "\<not> n_cancelled n" and "length Es = length (n_messageQueue n)"
    and "\<forall>E \<in> set Es. sender_marshals (e_codecs E) (n_nodeID n)"
    and "proposals (n_view n) s (n_messageQueue n) = [r]"
    and "slot_of s n = slot_waiting {||} {||}"
    and "\<And>a. fst (run_handlers (n_handlers n) r a) = None"
  shows "runs_at s (executions (processMessages Es n)) =
    (if decided (required_votes n) (n_nodeID n) (prepare_voters (n_view n) s (n_messageQueue n))
          (commit_voters (n_view n) s (n_messageQueue n)) then [(r, None)] else [])"
  using processed_outcome [OF assms(1-5), of "\<lambda>err. err = None", OF assms(6)]
  by (auto dest: run_log_accepted split: if_splits)

section \<open>Properties\<close>

text \<open>
  C2: the message handlers refine the slot protocol, without conditions: for every message,
  every sequence number and every node, the slot of the node after \<open>process_message\<close> is the
  slot before it after one \<open>slot_step\<close>. The oracle of that step is what the registered
  handlers answer in the node's application state and whether the codec marshals the node's
  PREPARE and COMMIT, so a run that the application refuses (the request stays and will be
  run again) and a vote that cannot be sent (the handler stops after recording it) are
  covered.
\<close>

theorem process_message_refines_slot:
  "slot_of s (snd (process_message E m n)) =
    slot_step (oracle_of E m n) (required_votes n) (n_nodeID n) (n_view n) s m (slot_of s n)"
  by (rule process_message_slot)

text \<open>
  C1: whether a replica runs the consensus handlers on a request depends on the set of
  messages it processes and not on their order. Let a running replica (not cancelled), with
  nothing recorded yet for sequence number \<open>s\<close> and a codec that marshals its own votes,
  empty a queue that holds one valid PRE-PREPARE for \<open>s\<close> in its view, with request \<open>r\<close>. If
  the commit votes it can count reach \<open>2f+1\<close> then the handlers ran for \<open>s\<close> at least once, only
  on \<open>r\<close>; every run but the last was refused, so at most one succeeded; and \<open>r\<close> still waits in
  the request log exactly if the last run was refused. If they accept \<open>r\<close> in every
  application state there is exactly one run. Without the votes there is no run and \<open>r\<close>
  waits. The digests the votes carry play no part.
\<close>

theorem execution_is_order_independent:
  assumes "\<not> n_cancelled n" and "length Es = length (n_messageQueue n)"
    and "\<forall>E \<in> set Es. sender_marshals (e_codecs E) (n_nodeID n)"
    and "proposals (n_view n) s (n_messageQueue n) = [r]"
    and "slot_of s n = slot_waiting {||} {||}"
    and "n' = processMessages Es n" and "runs = runs_at s (executions n')"
  shows "if decided (required_votes n) (n_nodeID n) (prepare_voters (n_view n) s (n_messageQueue n))
            (commit_voters (n_view n) s (n_messageQueue n))
    then runs \<noteq> [] \<and> (\<forall>x \<in> set runs. fst x = r) \<and> (\<forall>x \<in> set (butlast runs). snd x \<noteq> None) \<and>
      mget (n_requestLog n') s = (if snd (last runs) = None then None else Some r) \<and>
      ((\<forall>a. fst (run_handlers (n_handlers n) r a) = None) \<longrightarrow> runs = [(r, None)])
    else runs = [] \<and> mget (n_requestLog n') s = Some r"
  using processed_outcome [OF assms(1-5), of "\<lambda>_. True"] processed_accepted [OF assms(1-5)]
  unfolding assms(6,7) run_log_def by (simp split: if_splits)

definition example_env :: Env where
  "example_env = \<lparr>e_codecs = numbering_codecs, e_peerCount = 3, e_nowNano = 0, e_takeDone = False\<rparr>"

definition example_node :: "int \<Rightarrow> ConsensusMessage list \<Rightarrow> unit PBFTNode" where
  "example_node i q = (NewPBFTNode \<lparr>cfg_NodeID = node_name i, cfg_TotalNodes = 4, cfg_IsPrimary = (i = 0),
     cfg_ViewTimeout = 0\<rparr> ())\<lparr>n_messageQueue := q\<rparr>"

definition valid_proposal :: "int \<Rightarrow> Request \<Rightarrow> ConsensusMessage" where
  "valid_proposal s r = MPrePrepare \<lparr>pp_View = 0, pp_Sequence = s, pp_Digest = computeDigest r, pp_Request = r\<rparr>"

definition prepare_vote :: "int \<Rightarrow> string \<Rightarrow> int \<Rightarrow> ConsensusMessage" where
  "prepare_vote s d i = MPrepare \<lparr>p_View = 0, p_Sequence = s, p_Digest = d, p_NodeID = node_name i\<rparr>"

definition commit_vote :: "int \<Rightarrow> string \<Rightarrow> int \<Rightarrow> ConsensusMessage" where
  "commit_vote s d i = MCommit \<lparr>c_View = 0, c_Sequence = s, c_Digest = d, c_NodeID = node_name i\<rparr>"

lemma max_faulty_4: "max_faulty 4 = 1"
  by code_simp

lemma example_node_facts [simp]:
  "n_handlers (example_node i q) = []" "\<not> n_cancelled (example_node i q)"
  "n_messageQueue (example_node i q) = q" "n_view (example_node i q) = 0"
  "n_nodeID (example_node i q) = node_name i" "required_votes (example_node i q) = 3"
  "slot_of s (example_node i q) = slot_waiting {||} {||}" "executions (example_node i q) = []"
  by (simp_all add: example_node_def required_votes_def slot_of_def slot_waiting_def
      max_faulty_4) (simp_all add: NewPBFTNode_def Let_def)

lemma example_marshals [simp]: "sender_marshals (e_codecs example_env) i"
  by (simp add: example_env_def numbering_sender_marshals)

definition example_votes_for :: "int \<Rightarrow> ConsensusMessage list" where
  "example_votes_for s = [commit_vote s ''x'' 0, prepare_vote s ''y'' 3, commit_vote s ''z'' 3, prepare_vote s [] 0]"

lemma example_votes_for_sets:
  "prepare_voters 0 s (valid_proposal s r # example_votes_for s) = {|node_name 0, node_name 3|}"
  "commit_voters 0 s (valid_proposal s r # example_votes_for s) = {|node_name 0, node_name 3|}"
  "proposals 0 s (valid_proposal s r # example_votes_for s) = [r]"
  by (auto simp: example_votes_for_def valid_proposal_def commit_vote_def prepare_vote_def prepare_voters_def
      commit_voters_def proposals_def)

lemma example_decided:
  "decided 3 (node_name 1) {|node_name 0, node_name 3|} {|node_name 0, node_name 3|}"
  "decided 3 (node_name 2) {|node_name 0, node_name 3|} {|node_name 0, node_name 3|}"
  by (simp_all add: decided_def countable_commits_def fcard_finsert_if)

definition refusing_node :: "ConsensusMessage list \<Rightarrow> unit PBFTNode" where
  "refusing_node q = RegisterHandler (\<lambda>r a. (Some ''ticket already consumed'', a)) (example_node 1 q)"

lemma refusing_node_facts [simp]:
  "\<not> n_cancelled (refusing_node q)" "n_messageQueue (refusing_node q) = q" "n_view (refusing_node q) = 0"
  "n_nodeID (refusing_node q) = node_name 1" "required_votes (refusing_node q) = 3"
  "slot_of s (refusing_node q) = slot_waiting {||} {||}"
proof -
  have "slot_of s (refusing_node q) = slot_of s (example_node 1 q)"
    and "required_votes (refusing_node q) = required_votes (example_node 1 q)"
    by (simp_all add: refusing_node_def RegisterHandler_def slot_of_def required_votes_def)
  then show "slot_of s (refusing_node q) = slot_waiting {||} {||}" "required_votes (refusing_node q) = 3"
    by simp_all
qed (simp_all add: refusing_node_def RegisterHandler_def)

definition accepting_run :: "unit PBFTNode" where
  "accepting_run = processMessages (replicate 5 example_env)
     (example_node 1 (valid_proposal 1 example_request # example_votes_for 1))"

definition refusing_run :: "unit PBFTNode" where
  "refusing_run = processMessages (replicate 5 example_env)
     (refusing_node (valid_proposal 1 example_request # example_votes_for 1))"

theorem execution_is_order_independent_witness:
  "runs_at 1 (executions accepting_run) = [(example_request, None)] \<and> runs_at 1 (executions refusing_run) \<noteq> []"
proof -
  have l: "length (example_votes_for 1) = 4" by (simp add: example_votes_for_def)
  note five = example_votes_for_sets example_decided l
  have "runs_at 1 (executions accepting_run) = [(example_request, None)]"
    using execution_is_order_independent [OF _ _ _ _ _ accepting_run_def refl, of 1 example_request]
    by (simp add: five)
  moreover have "runs_at 1 (executions refusing_run) \<noteq> []"
    using execution_is_order_independent [OF _ _ _ _ _ refusing_run_def refl, of 1 example_request]
    by (simp add: five)
  ultimately show ?thesis by simp
qed

text \<open>
  C5: votes are not matched by digest, so a primary that sends different requests for one
  sequence number to two correct backups makes them execute different requests: both
  execute what they were sent, on the same PREPARE and COMMIT votes of the other nodes.
\<close>

theorem equivocation_splits_replicas:
  assumes "\<forall>m \<in> set votes. proposal 0 s m = []"
    and "decided 3 (node_name i) (prepare_voters 0 s votes) (commit_voters 0 s votes)"
    and "decided 3 (node_name j) (prepare_voters 0 s votes) (commit_voters 0 s votes)"
  shows "executed_at s (executions (processMessages (replicate (Suc (length votes)) example_env)
        (example_node i (valid_proposal s r # votes)))) = [r] \<and>
    executed_at s (executions (processMessages (replicate (Suc (length votes)) example_env)
        (example_node j (valid_proposal s r' # votes)))) = [r']"
proof -
  have "proposals 0 s votes = []" using assms(1) by (simp add: proposals_def)
  then have p: "proposals 0 s (valid_proposal s x # votes) = [x]"
      "prepare_voters 0 s (valid_proposal s x # votes) = prepare_voters 0 s votes"
      "commit_voters 0 s (valid_proposal s x # votes) = commit_voters 0 s votes" for x
    by (simp_all add: proposals_def valid_proposal_def prepare_voters_def commit_voters_def)
  have "executed_at s (executions (processMessages (replicate (Suc (length votes)) example_env)
      (example_node k (valid_proposal s x # votes)))) = [x]"
    if "decided 3 (node_name k) (prepare_voters 0 s votes) (commit_voters 0 s votes)" for k x
    using that by (subst executed_at_runs, subst processed_accepted [of _ _ _ x]) (simp_all add: p)
  with assms(2,3) show ?thesis by blast
qed

theorem equivocation_splits_replicas_witness:
  "executed_at 1 (executions (processMessages (replicate 5 example_env)
      (example_node 1 (valid_proposal 1 example_request # example_votes_for 1)))) = [example_request] \<and>
   executed_at 1 (executions (processMessages (replicate 5 example_env)
      (example_node 2 (valid_proposal 1 (example_request\<lparr>r_TicketID := ''U''\<rparr>) # example_votes_for 1)))) =
      [example_request\<lparr>r_TicketID := ''U''\<rparr>] \<and>
   example_request\<lparr>r_TicketID := ''U''\<rparr> \<noteq> example_request"
proof -
  have s: "prepare_voters 0 1 (example_votes_for 1) = {|node_name 0, node_name 3|}"
    "commit_voters 0 1 (example_votes_for 1) = {|node_name 0, node_name 3|}"
    by (auto simp: example_votes_for_def commit_vote_def prepare_vote_def prepare_voters_def commit_voters_def)
  have "\<forall>m \<in> set (example_votes_for 1). proposal 0 1 m = []"
    by (simp add: example_votes_for_def commit_vote_def prepare_vote_def)
  moreover have "Suc (length (example_votes_for 1)) = 5" by (simp add: example_votes_for_def)
  ultimately show ?thesis
    using equivocation_splits_replicas [of "example_votes_for 1" 1 1 2 example_request "example_request\<lparr>r_TicketID := ''U''\<rparr>"]
    by (simp add: s example_decided) (simp add: example_request_def)
qed

end
