(* ===== verification/PBFT_Properties.thy ===== *)
theory PBFT_Properties
  imports PBFT_Order
begin

text \<open>
  The properties of the replica that hold over whole runs: what executions rest on,
  agreement, view changes, callbacks, the message queue and checkpoints.
\<close>

section \<open>Frames of the events\<close>

lemma propose_begin_fields [simp]:
  "n_nodeID (snd (propose_begin E r n)) = n_nodeID n"
  "n_totalNodes (snd (propose_begin E r n)) = n_totalNodes n"
  "n_f (snd (propose_begin E r n)) = n_f n"
  "n_view (snd (propose_begin E r n)) = n_view n"
  "n_isPrimary (snd (propose_begin E r n)) = n_isPrimary n"
  "n_messageQueue (snd (propose_begin E r n)) = n_messageQueue n"
  "n_requestCallbacks (snd (propose_begin E r n)) = n_requestCallbacks n"
  "n_effects (snd (propose_begin E r n)) = n_effects n"
  "n_lastStableCheckpoint (snd (propose_begin E r n)) = n_lastStableCheckpoint n"
  by (cases rule: propose_begin_cases [of E r n]; simp)+

lemma ProposeRequest_cases:
  obtains (refused) "snd (ProposeRequest E r n) = snd (propose_begin E r n)"
    | (local) b pp where "snd (ProposeRequest E r n) =
        snd (handlePrePrepare E pp (emit (EBroadcast b) (snd (propose_begin E r n))))"
proof (cases rule: propose_begin_cases [of E r n])
  case (refused err)
  then show ?thesis by (intro that(1)) (simp add: ProposeRequest_def)
next
  case (begun pp)
  show ?thesis
    by (cases rule: wrap_cases [of E 0 "SerializePrePrepare (e_codecs E) pp" "snd (propose_begin E r n)"])
      (use begun that in \<open>auto simp: ProposeRequest_def\<close>)
qed

lemma ProposeRequest_fields [simp]:
  "n_nodeID (snd (ProposeRequest E r n)) = n_nodeID n"
  "n_totalNodes (snd (ProposeRequest E r n)) = n_totalNodes n"
  "n_f (snd (ProposeRequest E r n)) = n_f n"
  "n_view (snd (ProposeRequest E r n)) = n_view n"
  "n_isPrimary (snd (ProposeRequest E r n)) = n_isPrimary n"
  "n_messageQueue (snd (ProposeRequest E r n)) = n_messageQueue n"
  "n_lastStableCheckpoint (snd (ProposeRequest E r n)) = n_lastStableCheckpoint n"
  by (cases rule: ProposeRequest_cases [of E r n]; simp)+

lemma HandleCheckpoint_fields [simp]:
  "n_nodeID (HandleCheckpoint k n) = n_nodeID n"
  "n_totalNodes (HandleCheckpoint k n) = n_totalNodes n"
  "n_f (HandleCheckpoint k n) = n_f n"
  "n_view (HandleCheckpoint k n) = n_view n"
  "n_isPrimary (HandleCheckpoint k n) = n_isPrimary n"
  "n_messageQueue (HandleCheckpoint k n) = n_messageQueue n"
  "n_requestCallbacks (HandleCheckpoint k n) = n_requestCallbacks n"
  "n_effects (HandleCheckpoint k n) = n_effects n"
  by (simp_all add: HandleCheckpoint_def Let_def garbageCollect_def)

lemma enqueue_fields [simp]:
  "n_nodeID (snd (enqueue E m n)) = n_nodeID n"
  "n_totalNodes (snd (enqueue E m n)) = n_totalNodes n"
  "n_f (snd (enqueue E m n)) = n_f n"
  "n_view (snd (enqueue E m n)) = n_view n"
  "n_isPrimary (snd (enqueue E m n)) = n_isPrimary n"
  "n_requestCallbacks (snd (enqueue E m n)) = n_requestCallbacks n"
  "n_effects (snd (enqueue E m n)) = n_effects n"
  by (simp_all add: enqueue_def Let_def)

lemma view_change_fields [simp]:
  "n_nodeID (snd (HandleViewChange v n)) = n_nodeID n"
  "n_totalNodes (snd (HandleViewChange v n)) = n_totalNodes n"
  "n_f (snd (HandleViewChange v n)) = n_f n"
  "n_messageQueue (snd (HandleViewChange v n)) = n_messageQueue n"
  "n_prepareLog (snd (HandleViewChange v n)) = n_prepareLog n"
  "n_commitLog (snd (HandleViewChange v n)) = n_commitLog n"
  "n_handlers (snd (HandleViewChange v n)) = n_handlers n"
  "n_nodeID (snd (initiateViewChange E n)) = n_nodeID n"
  "n_totalNodes (snd (initiateViewChange E n)) = n_totalNodes n"
  "n_f (snd (initiateViewChange E n)) = n_f n"
  "n_messageQueue (snd (initiateViewChange E n)) = n_messageQueue n"
  "n_prepareLog (snd (initiateViewChange E n)) = n_prepareLog n"
  "n_commitLog (snd (initiateViewChange E n)) = n_commitLog n"
  by (simp_all add: HandleViewChange_def initiateViewChange_def Let_def)

lemma simple_fields [simp]:
  "n_nodeID (NotifyPendingRequest n) = n_nodeID n" "n_totalNodes (NotifyPendingRequest n) = n_totalNodes n"
  "n_f (NotifyPendingRequest n) = n_f n" "n_view (NotifyPendingRequest n) = n_view n"
  "n_isPrimary (NotifyPendingRequest n) = n_isPrimary n"
  "n_messageQueue (NotifyPendingRequest n) = n_messageQueue n"
  "n_requestCallbacks (NotifyPendingRequest n) = n_requestCallbacks n"
  by (simp_all add: NotifyPendingRequest_def)

lemmas simple_event_defs = ClearPendingRequest_def RegisterCallback_def Close_def

text \<open>A turn of \<open>processMessages\<close> does nothing or processes the head of the queue.\<close>

lemma EvTurn_cases:
  obtains (idle) "pbft_step (EvTurn E) n = n"
    | (message) m q where "n_messageQueue n = m # q"
        and "pbft_step (EvTurn E) n = snd (process_message E m (n\<lparr>n_messageQueue := q\<rparr>))"
  by (cases "n_messageQueue n"; cases "n_cancelled n \<and> e_takeDone E") auto

lemma EvTimeout_cases:
  obtains (stopped) "pbft_step (EvTimeout E) n = n"
    | (fired) "pbft_step (EvTimeout E) n = snd (initiateViewChange E n)"
  by (cases "n_cancelled n \<and> e_takeDone E") auto

text \<open>What a network message leads to.\<close>

lemma EvNet_cases:
  obtains (ignored) "pbft_step (EvNet E t p) n = n"
    | (queued) m where "pbft_step (EvNet E t p) n = snd (enqueue E m n)"
    | (view_change) w where "pbft_step (EvNet E t p) n = snd (HandleViewChange w n)"
    | (checkpoint) k where "pbft_step (EvNet E t p) n = HandleCheckpoint k n"
    | (tracked) "pbft_step (EvNet E t p) n = NotifyPendingRequest n"
    | (proposal) r where "n_isPrimary n" and "pbft_step (EvNet E t p) n = snd (ProposeRequest E r n)"
proof -
  consider "t \<in> {0, 1, 2}" | "t = 3" | "t = 4" | "t = 7" | "t \<notin> {0, 1, 2, 3, 4, 7}" by blast
  then show ?thesis
  proof cases
    case 1
    show ?thesis
    proof (cases "deserialize_consensus (e_codecs E) t p")
      case (Inl a)
      with 1 have "pbft_step (EvNet E t p) n = n" by (auto simp: HandleNetworkMessage_def)
      then show ?thesis by (rule ignored)
    next
      case (Inr m)
      with 1 have "pbft_step (EvNet E t p) n = snd (enqueue E m n)" by (auto simp: HandleNetworkMessage_def)
      then show ?thesis by (rule queued)
    qed
  next
    case 2
    then have "pbft_step (EvNet E t p) n = n \<or> (\<exists>w. pbft_step (EvNet E t p) n = snd (HandleViewChange w n))"
      by (cases "DeserializeViewChange (e_codecs E) p") (auto simp: HandleNetworkMessage_def)
    then show ?thesis using ignored view_change by blast
  next
    case 3
    then have "pbft_step (EvNet E t p) n = n \<or> (\<exists>k. pbft_step (EvNet E t p) n = HandleCheckpoint k n)"
      by (cases "DeserializeCheckpoint (e_codecs E) p") (auto simp: HandleNetworkMessage_def)
    then show ?thesis using ignored checkpoint by blast
  next
    case 4
    show ?thesis
    proof (cases "DeserializeRequest (e_codecs E) p")
      case (Inl a)
      with 4 have "pbft_step (EvNet E t p) n = n" by (simp add: HandleNetworkMessage_def)
      then show ?thesis by (rule ignored)
    next
      case (Inr r)
      with 4 show ?thesis
        by (cases "n_isPrimary n") (simp_all add: HandleNetworkMessage_def proposal tracked)
    qed
  next
    case 5
    then have "pbft_step (EvNet E t p) n = n" by (simp add: HandleNetworkMessage_def)
    then show ?thesis by (rule ignored)
  qed
qed

lemma step_identity [simp]:
  "n_nodeID (pbft_step ev n) = n_nodeID n \<and> n_totalNodes (pbft_step ev n) = n_totalNodes n \<and>
   n_f (pbft_step ev n) = n_f n"
proof (cases ev)
  case (EvNet E t p)
  show ?thesis unfolding EvNet by (cases rule: EvNet_cases [of E t p n]; simp)
next
  case (EvTurn E)
  show ?thesis unfolding EvTurn by (cases rule: EvTurn_cases [of E n]; simp)
next
  case (EvTimeout E)
  show ?thesis unfolding EvTimeout by (cases rule: EvTimeout_cases [of E n]; simp)
qed (simp_all add: simple_event_defs)

lemma run_identity:
  "n_nodeID (pbft_run evs n) = n_nodeID n" "n_totalNodes (pbft_run evs n) = n_totalNodes n"
  "n_f (pbft_run evs n) = n_f n"
  by (induction evs n rule: pbft_run.induct) simp_all

lemma run_append: "pbft_run (xs @ ys) n = pbft_run ys (pbft_run xs n)"
  by (induction xs n rule: pbft_run.induct) simp_all

lemma turns_run: "\<not> n_cancelled n \<Longrightarrow> pbft_run (map EvTurn Es) n = processMessages Es n"
proof (induction Es n rule: processMessages.induct)
  case (2 E Es n)
  then show ?case by (cases "n_messageQueue n") simp_all
qed simp

section \<open>Executions\<close>

text \<open>
  C3: a replica runs the consensus handlers for a sequence number only while its commit log
  holds at least \<open>2f+1\<close> votes for it. For every entry \<open>(s, r, err)\<close> of the execution trace of a
  run that starts with an empty trace, there is exactly the event that adds it: the node after
  the event is the result of \<open>executeRequest\<close> called for \<open>s\<close> on an intermediate node \<open>nc\<close> with the
  trace still as before the event, and this \<open>nc\<close>, in which the vote just received or cast is
  recorded, holds \<open>r\<close> in its request log and commit votes of at least \<open>2f+1\<close> different node
  IDs for \<open>s\<close>.
\<close>

theorem execution_needs_commit_quorum:
  assumes "i < length (executions (pbft_run evs n))" and "executions n = []"
    and "executions (pbft_run evs n) ! i = (s, r, err)"
  shows "\<exists>pre ev post E nc. evs = pre @ ev # post \<and> length (executions (pbft_run pre n)) = i \<and>
    executions (pbft_run (pre @ [ev]) n) = executions (pbft_run pre n) @ [(s, r, err)] \<and>
    pbft_run (pre @ [ev]) n = snd (executeRequest E s nc) \<and>
    executions nc = executions (pbft_run pre n) \<and> mget (n_requestLog nc) s = Some r \<and>
    2 * n_f n + 1 \<le> int (card (fset (fmdom (inner (n_commitLog nc) s))))"
proof -
  obtain pre ev post where split: "evs = pre @ ev # post" "length (executions (pbft_run pre n)) = i"
    and "executes_with_quorum (s, r, err) (pbft_run pre n) (pbft_run (pre @ [ev]) n)"
    using execution_quorum_point [OF assms(1)] assms(2,3) by (auto simp: run_snoc)
  then obtain E nc where "executions (pbft_run (pre @ [ev]) n) = executions (pbft_run pre n) @ [(s, r, err)]"
    and "pbft_run (pre @ [ev]) n = snd (executeRequest E s nc)" and "mget (n_requestLog nc) s = Some r"
    and "executions nc = executions (pbft_run pre n)" and "2 * n_f n + 1 \<le> golen (inner (n_commitLog nc) s)"
    by (auto simp: executes_with_quorum_def run_identity)
  with split show ?thesis unfolding golen_card by blast
qed

definition example_run_node :: "unit PBFTNode" where
  "example_run_node = example_node 1 (valid_proposal 1 example_request # example_votes_for 1)"

definition example_events :: "event list" where
  "example_events = map EvTurn (replicate 5 example_env)"

lemma example_run_executes:
  "executed_at 1 (executions (pbft_run example_events example_run_node)) = [example_request]"
proof -
  have "executed_at 1 (executions (processMessages (replicate 5 example_env) example_run_node)) = [example_request]"
    unfolding example_run_node_def executed_at_runs
    by (subst processed_accepted [of _ _ _ example_request])
      (simp_all add: example_votes_for_sets example_decided, simp add: example_votes_for_def)
  then show ?thesis
    unfolding example_events_def by (subst turns_run) (simp add: example_run_node_def)
qed

lemma executed_at_member: "r \<in> set (executed_at s xs) \<longleftrightarrow> (s, r, None) \<in> set xs"
  by (force simp: executed_at_def)

lemma example_execution: "(1, example_request, None) \<in> set (executions (pbft_run example_events example_run_node))"
  by (simp add: executed_at_member [symmetric] example_run_executes)

lemma example_run_node_facts [simp]:
  "executions example_run_node = []" "n_f example_run_node = 1"
  by (simp_all add: example_run_node_def) (simp add: example_node_def max_faulty_4)

lemma example_run_traced:
  "0 < length (executions (pbft_run example_events example_run_node))"
  using example_execution by (auto dest: length_pos_if_in_set)

theorem execution_needs_commit_quorum_witness:
  "\<exists>pre ev post E nc s. example_events = pre @ ev # post \<and>
     pbft_run (pre @ [ev]) example_run_node = snd (executeRequest E s nc) \<and>
     3 \<le> int (card (fset (fmdom (inner (n_commitLog nc) s))))"
proof -
  obtain s r err where x: "executions (pbft_run example_events example_run_node) ! 0 = (s, r, err)"
    using prod_cases3 by blast
  obtain pre ev post E nc where "example_events = pre @ ev # post"
    and "pbft_run (pre @ [ev]) example_run_node = snd (executeRequest E s nc)"
    and "2 * n_f example_run_node + 1 \<le> int (card (fset (fmdom (inner (n_commitLog nc) s))))"
    using execution_needs_commit_quorum [OF example_run_traced(1) _ x] by auto
  moreover have "2 * n_f example_run_node + 1 = 3" by simp
  ultimately show ?thesis by (metis (no_types))
qed

text \<open>
  Every successful execution is paid for by one acceptance: a new node executes a
  sequence number at most as often as it accepted a PRE-PREPARE or a proposal for it.
\<close>

theorem executions_bounded_by_acceptances:
  "executed s (pbft_run evs (NewPBFTNode cfg app)) \<le> accepted_at s (accepted evs (NewPBFTNode cfg app))"
  using run_potential [of s evs "NewPBFTNode cfg app"] by (simp add: pending_def)

text \<open>
  C4: what a new node executes under a sequence number is a request that it accepted for
  that number, so two nodes that accepted no two different requests for a number never
  execute different requests there, whatever votes they counted.
\<close>

theorem agreement_without_equivocation:
  assumes "(s, r, err) \<in> set (executions (pbft_run evs (NewPBFTNode cfg app)))"
    and "(s, r', err') \<in> set (executions (pbft_run evs' (NewPBFTNode cfg' app')))"
    and "\<And>q q'. (s, q) \<in> set (accepted evs (NewPBFTNode cfg app)) \<Longrightarrow>
      (s, q') \<in> set (accepted evs' (NewPBFTNode cfg' app')) \<Longrightarrow> q = q'"
  shows "r = r'"
proof -
  have "(s, r) \<in> set (accepted evs (NewPBFTNode cfg app))"
    using run_explained [OF new_node_explained, of evs cfg app] assms(1) by (force simp: explained_def)
  moreover have "(s, r') \<in> set (accepted evs' (NewPBFTNode cfg' app'))"
    using run_explained [OF new_node_explained, of evs' cfg' app'] assms(2) by (force simp: explained_def)
  ultimately show ?thesis by (rule assms(3))
qed

definition single_config :: Config where
  "single_config = \<lparr>cfg_NodeID = node_name 0, cfg_TotalNodes = 1, cfg_IsPrimary = True, cfg_ViewTimeout = 0\<rparr>"

definition handled_events :: "event list" where
  "handled_events = [EvHandle example_env (valid_proposal 1 example_request)]"

lemma single_required: "required_votes (NewPBFTNode single_config ()) = 1"
proof -
  have "max_faulty 1 = 0" by code_simp
  then show ?thesis by (simp add: required_votes_def single_config_def)
qed

lemma single_facts:
  "n_handlers (NewPBFTNode cfg ()) = []"
  "slot_of s (NewPBFTNode cfg ()) = slot_waiting {||} {||}"
  by (simp_all add: slot_of_def slot_waiting_def) (simp_all add: NewPBFTNode_def Let_def)

lemma single_oracle:
  "oracle_ok (\<lambda>err. err = None) r (oracle_of example_env m (NewPBFTNode cfg ()))"
  using oracle_sends [of example_env "NewPBFTNode cfg ()" m]
  by (simp add: oracle_ok_def) (simp add: oracle_of_def single_facts)

lemma single_slot:
  "slot_of 1 (pbft_run handled_events (NewPBFTNode single_config ())) =
     \<lparr>sl_prepares = {|node_name 0|}, sl_commits = {|node_name 0|}, sl_request = None,
      sl_runs = [(example_request, None)]\<rparr>"
proof -
  let ?e = "oracle_of example_env (valid_proposal 1 example_request) (NewPBFTNode single_config ())"
  have "slot_of 1 (pbft_run handled_events (NewPBFTNode single_config ())) =
      slot_step ?e 1 (node_name 0) 0 1 (valid_proposal 1 example_request) (slot_waiting {||} {||})"
    by (simp add: handled_events_def process_message_slot single_facts single_required)
      (simp add: single_config_def)
  moreover have ok: "oracle_ok (\<lambda>err. err = None) example_request ?e" by (rule single_oracle)
  ultimately show ?thesis
    using oracle_okD [OF ok]
    by (simp add: valid_proposal_def slot_waiting_def slot_commit_def slot_execute_def fcard_finsert_if fcard_fempty)
qed

lemma single_execution:
  "(1, example_request, None) \<in> set (executions (pbft_run handled_events (NewPBFTNode single_config ())))"
proof -
  have "runs_at 1 (executions (pbft_run handled_events (NewPBFTNode single_config ()))) = [(example_request, None)]"
    using arg_cong [OF single_slot, of sl_runs] by (simp add: slot_of_def)
  then show ?thesis by (simp add: executed_at_member [symmetric] executed_at_runs)
qed

lemma single_accepted:
  "set (accepted handled_events (NewPBFTNode single_config ())) \<subseteq> {(1, example_request)}"
  by (auto simp: handled_events_def valid_proposal_def)

theorem agreement_without_equivocation_witness:
  "(1, example_request, None) \<in> set (executions (pbft_run handled_events (NewPBFTNode single_config ()))) \<and>
   example_request = example_request"
  using agreement_without_equivocation [OF single_execution single_execution] single_execution single_accepted
  by blast

lemma commit_quorum_executes:
  assumes "accepts n m" and "sender_marshals (e_codecs E) (n_nodeID n)"
    and "required_votes n \<le> golen (inner (n_commitLog n) (pp_Sequence m))"
  shows "runs_at (pp_Sequence m) (executions (snd (handlePrePrepare E m n))) =
    runs_at (pp_Sequence m) (executions n) @ [(pp_Request m, answer n (pp_Request m))]"
proof -
  let ?C = "fmdom (inner (n_commitLog n) (pp_Sequence m))" and ?e = "oracle_of E (MPrePrepare m) n"
  have q: "required_votes n \<le> int (fcard ?C)" using assms(3) by (simp add: golen_def)
  have "int (fcard ?C) \<le> int (fcard (finsert (n_nodeID n) ?C))" by (rule fcard_le) auto
  with q have q': "required_votes n \<le> int (fcard (finsert (n_nodeID n) ?C))" by linarith
  have "so_handlers ?e = answer n" by (simp add: oracle_of_def)
  then have "sl_runs (slot_of (pp_Sequence m) (snd (handlePrePrepare E m n))) =
      runs_at (pp_Sequence m) (executions n) @ [(pp_Request m, answer n (pp_Request m))]"
    unfolding handlePrePrepare_slot using assms(1) q q' oracle_sends [OF assms(2), of "MPrePrepare m"]
    by (simp add: accepts_def slot_of_def slot_commit_def slot_execute_def Let_def)
  then show ?thesis by (simp add: slot_of_def)
qed

text \<open>
  A commit quorum stays in the log after it has served: whenever the log already holds
  \<open>2f+1\<close> COMMIT votes for a sequence number, the handlers run at once on a valid PRE-PREPARE
  for that number, without any new vote. So a replayed PRE-PREPARE executes its request again,
  until a stable checkpoint clears the log.
\<close>

theorem commit_quorum_is_reusable:
  assumes "accepts n m" and "sender_marshals (e_codecs E) (n_nodeID n)"
    and "required_votes n \<le> golen (inner (n_commitLog n) (pp_Sequence m))"
  shows "runs_at (pp_Sequence m) (executions (snd (handlePrePrepare E m n))) =
    runs_at (pp_Sequence m) (executions n) @ [(pp_Request m, answer n (pp_Request m))]"
  using assms by (rule commit_quorum_executes)

definition replayed_proposal :: PrePrepareMsg where
  "replayed_proposal = \<lparr>pp_View = 0, pp_Sequence = 1, pp_Digest = computeDigest example_request,
     pp_Request = example_request\<rparr>"

lemma single_run_facts:
  "n_handlers (pbft_run handled_events (NewPBFTNode single_config ())) = []"
  "n_view (pbft_run handled_events (NewPBFTNode single_config ())) = 0"
  "required_votes (pbft_run handled_events (NewPBFTNode single_config ())) = 1"
  "golen (inner (n_commitLog (pbft_run handled_events (NewPBFTNode single_config ()))) 1) = 1"
  using single_required single_facts(1) [of single_config] arg_cong [OF single_slot, of sl_commits]
  by (simp_all add: handled_events_def slot_of_def golen_def fcard_finsert_if fcard_fempty)

theorem commit_quorum_is_reusable_witness:
  "\<exists>n :: unit PBFTNode. runs_at 1 (executions n) = [(example_request, None)] \<and>
     runs_at 1 (executions (snd (handlePrePrepare example_env replayed_proposal n))) =
       [(example_request, None), (example_request, None)]"
proof -
  let ?n = "pbft_run handled_events (NewPBFTNode single_config ())"
  have "accepts ?n replayed_proposal"
    by (simp add: accepts_def replayed_proposal_def single_run_facts)
  moreover have "runs_at 1 (executions ?n) = [(example_request, None)]"
    using arg_cong [OF single_slot, of sl_runs] by (simp add: slot_of_def)
  ultimately show ?thesis
    using commit_quorum_is_reusable [of ?n replayed_proposal example_env] single_run_facts
    by (intro exI [of _ ?n]) (simp add: replayed_proposal_def)
qed

text \<open>
  Votes outlive their view: when a VIEW-CHANGE quorum moves a node to a new view, the
  COMMIT votes it collected before still count, so a PRE-PREPARE of the new view for a
  sequence number with an old quorum (a new primary starts again from its own counter)
  is executed at once.
\<close>

theorem votes_outlive_view:
  assumes "n' = snd (HandleViewChange w n)" and "n_view n' \<noteq> n_view n"
    and "accepts n' m" and "sender_marshals (e_codecs E) (n_nodeID n)"
    and "required_votes n \<le> golen (inner (n_commitLog n) (pp_Sequence m))"
  shows "(pp_Request m, answer n' (pp_Request m)) \<in>
    set (runs_at (pp_Sequence m) (executions (snd (handlePrePrepare E m n'))))"
proof -
  have "required_votes n' = required_votes n" and "n_commitLog n' = n_commitLog n" and "n_nodeID n' = n_nodeID n"
    using assms(1) by (simp_all add: required_votes_def)
  with assms(3-5) commit_quorum_executes [of n' m E] show ?thesis by simp
qed

lemma view_change_quorum:
  "n_view (snd (HandleViewChange w n)) =
     (if n_view n < vch_NewView w \<and>
         required_votes n \<le> golen (fmupd (vch_NodeID w) w (inner (n_viewChangeLog n) (vch_NewView w)))
      then vch_NewView w else n_view n)"
  by (simp add: HandleViewChange_def Let_def not_le not_less)

definition after_single :: "unit PBFTNode" where
  "after_single = pbft_run handled_events (NewPBFTNode single_config ())"

lemma after_single_facts:
  "required_votes after_single = 1" "n_view after_single = 0" "golen (inner (n_commitLog after_single) 1) = 1"
  "n_nodeID after_single = node_name 0" "n_totalNodes after_single = 1"
  "inner (n_viewChangeLog after_single) v = fmempty" "n_handlers after_single = []"
  using single_run_facts
  by (simp_all add: after_single_def handled_events_def)
    (simp_all add: single_config_def NewPBFTNode_def Let_def)

theorem votes_outlive_view_witness:
  "example_request \<in> fst ` set (runs_at 1 (executions (snd (handlePrePrepare example_env
     (replayed_proposal\<lparr>pp_View := 1\<rparr>)
     (snd (HandleViewChange \<lparr>vch_NewView = 1, vch_NodeID = node_name 5\<rparr> after_single))))))"
proof -
  let ?w = "\<lparr>vch_NewView = 1, vch_NodeID = node_name 5\<rparr>"
  have v: "n_view (snd (HandleViewChange ?w after_single)) = 1"
    by (simp add: view_change_quorum after_single_facts golen_upd)
  then have "accepts (snd (HandleViewChange ?w after_single)) (replayed_proposal\<lparr>pp_View := 1\<rparr>)"
    by (simp add: accepts_def replayed_proposal_def)
  from votes_outlive_view [OF refl _ this, of example_env] v show ?thesis
    by (force simp: after_single_facts replayed_proposal_def)
qed

section \<open>View changes\<close>

lemma view_log_kept [simp]:
  "n_viewChangeLog (snd (propose_begin E r n)) = n_viewChangeLog n"
  "n_viewChangeLog (snd (enqueue E m n)) = n_viewChangeLog n"
  "n_viewChangeLog (HandleCheckpoint k n) = n_viewChangeLog n"
  "n_viewChangeLog (NotifyPendingRequest n) = n_viewChangeLog n"
proof -
  show "n_viewChangeLog (snd (propose_begin E r n)) = n_viewChangeLog n"
    by (cases rule: propose_begin_cases [of E r n]) simp_all
qed (simp_all add: enqueue_def HandleCheckpoint_def garbageCollect_def NotifyPendingRequest_def Let_def)

lemma view_log_propose [simp]: "n_viewChangeLog (snd (ProposeRequest E r n)) = n_viewChangeLog n"
  by (cases rule: ProposeRequest_cases [of E r n]) simp_all

text \<open>
  The votes for views that an event brings: a VIEW-CHANGE message from the network, or the
  node's own when its timer fires while it is busy.
\<close>

fun view_vote :: "event \<Rightarrow> 'a PBFTNode \<Rightarrow> (int \<times> string) list" where
  "view_vote (EvNet E t payload) n =
     (if t = 3 then
        (case DeserializeViewChange (e_codecs E) payload of
           Inl err \<Rightarrow> [] | Inr w \<Rightarrow> [(vch_NewView w, vch_NodeID w)])
      else [])"
| "view_vote (EvTimeout E) n =
     (if n_cancelled n \<and> e_takeDone E \<or> n_state n = StateIdle \<and> \<not> n_hasPendingClientRequest n then []
      else [(int64 (n_view n + 1), n_nodeID n)])"
| "view_vote _ n = []"

fun view_votes :: "event list \<Rightarrow> 'a PBFTNode \<Rightarrow> (int \<times> string) list" where
  "view_votes [] n = []"
| "view_votes (ev # evs) n = view_vote ev n @ view_votes evs (pbft_step ev n)"

lemma view_votes_snoc: "view_votes (evs @ [ev]) n = view_votes evs n @ view_vote ev (pbft_run evs n)"
  by (induction evs arbitrary: n) simp_all

definition votes_known :: "(int \<times> string) set \<Rightarrow> 'a PBFTNode \<Rightarrow> bool" where
  "votes_known V n \<longleftrightarrow> (\<forall>v i. mhas (inner (n_viewChangeLog n) v) i \<longrightarrow> (v, i) \<in> V)"

lemma votes_known_same:
  "n_viewChangeLog n' = n_viewChangeLog n \<Longrightarrow> votes_known V n \<Longrightarrow> votes_known (V \<union> W) n'"
  by (simp add: votes_known_def)

lemma HandleViewChange_votes:
  "votes_known V n \<Longrightarrow> votes_known (V \<union> {(vch_NewView w, vch_NodeID w)}) (snd (HandleViewChange w n))"
  by (auto simp: HandleViewChange_def Let_def votes_known_def)

lemma initiate_votes:
  "votes_known V n \<Longrightarrow> votes_known (V \<union>
     (if n_state n = StateIdle \<and> \<not> n_hasPendingClientRequest n then {} else {(int64 (n_view n + 1), n_nodeID n)}))
     (snd (initiateViewChange E n))"
  by (auto simp: initiateViewChange_def Let_def votes_known_def)

lemma EvNet_other: "t \<noteq> 3 \<Longrightarrow> n_viewChangeLog (pbft_step (EvNet E t p) n) = n_viewChangeLog n \<and>
    n_view (pbft_step (EvNet E t p) n) = n_view n"
  by (simp add: HandleNetworkMessage_def split: sum.splits)

lemma EvNet_view_change:
  "pbft_step (EvNet E 3 p) n =
     (case DeserializeViewChange (e_codecs E) p of Inl err \<Rightarrow> n | Inr w \<Rightarrow> snd (HandleViewChange w n))"
  by (simp add: HandleNetworkMessage_def split: sum.splits)

lemma other_events:
  assumes "\<And>E t p. ev \<noteq> EvNet E t p" and "\<And>E. ev \<noteq> EvTimeout E"
  shows "n_viewChangeLog (pbft_step ev n) = n_viewChangeLog n" and "n_view (pbft_step ev n) = n_view n"
proof -
  have "n_viewChangeLog (pbft_step ev n) = n_viewChangeLog n \<and> n_view (pbft_step ev n) = n_view n"
  proof (cases ev)
    case (EvTurn E)
    show ?thesis unfolding EvTurn by (cases rule: EvTurn_cases [of E n]) simp_all
  qed (use assms in \<open>simp_all add: simple_event_defs\<close>)
  then show "n_viewChangeLog (pbft_step ev n) = n_viewChangeLog n" and "n_view (pbft_step ev n) = n_view n" by simp_all
qed

lemma step_votes:
  assumes "votes_known V n"
  shows "votes_known (V \<union> set (view_vote ev n)) (pbft_step ev n)"
proof (cases ev)
  case (EvNet E t p)
  show ?thesis
  proof (cases "t = 3")
    case [simp]: True
    show ?thesis
      using assms HandleViewChange_votes [OF assms] unfolding EvNet True EvNet_view_change
      by (cases "DeserializeViewChange (e_codecs E) p") simp_all
  next
    case False
    with EvNet_other [OF False, of E p n] assms show ?thesis unfolding EvNet by (intro votes_known_same) simp_all
  qed
next
  case (EvTimeout E)
  show ?thesis
    using assms initiate_votes [OF assms, of E] by (auto simp: EvTimeout split: if_splits)
qed (rule votes_known_same [OF other_events(1) assms]; simp)+

lemma run_votes: "votes_known V n \<Longrightarrow> votes_known (V \<union> set (view_votes evs n)) (pbft_run evs n)"
proof (induction evs arbitrary: V n)
  case (Cons ev evs)
  from Cons.IH [OF step_votes [OF Cons.prems, of ev]] show ?case by (simp add: Un_assoc)
qed simp

lemma new_node_votes: "votes_known {} (NewPBFTNode cfg app)"
  by (simp add: votes_known_def) (simp add: NewPBFTNode_def Let_def inner_def)

lemma known_quorum:
  assumes "votes_known (set V) n" and "q \<le> golen (inner (n_viewChangeLog n) v)"
  shows "q \<le> int (card {i. (v, i) \<in> set V})"
proof -
  have "finite {i. (v, i) \<in> set V}"
    by (rule finite_subset [of _ "snd ` set V"]) force+
  moreover have "fset (fmdom (inner (n_viewChangeLog n) v)) \<subseteq> {i. (v, i) \<in> set V}"
    using assms(1) by (auto simp: votes_known_def)
  ultimately have "card (fset (fmdom (inner (n_viewChangeLog n) v))) \<le> card {i. (v, i) \<in> set V}"
    by (intro card_mono)
  with assms(2) show ?thesis by (simp add: golen_card)
qed

text \<open>The state a node is in after it changed its view.\<close>

definition fresh_view :: "'a PBFTNode \<Rightarrow> 'a PBFTNode \<Rightarrow> bool" where
  "fresh_view n n' \<longleftrightarrow>
     n_isPrimary n' = (n_nodeID n = expected_primary (n_view n') (n_totalNodes n)) \<and>
     n_state n' = StateIdle \<and> \<not> n_hasPendingClientRequest n' \<and> n_requestCallbacks n' = fmempty \<and>
     n_sequence n' = n_sequence n \<and> n_requestLog n' = n_requestLog n \<and>
     n_prepareLog n' = n_prepareLog n \<and> n_commitLog n' = n_commitLog n \<and> executions n' = executions n"

lemma fail_callbacks_none: "n_requestCallbacks (failPendingCallbacks reason n) = fmempty"
  by (simp add: failPendingCallbacks_def)

lemma HandleViewChange_moves:
  assumes "n_totalNodes n \<noteq> 0"
    and "n_view n < vch_NewView w"
    and "required_votes n \<le> golen (fmupd (vch_NodeID w) w (inner (n_viewChangeLog n) (vch_NewView w)))"
  shows "n_view (snd (HandleViewChange w n)) = vch_NewView w \<and> fresh_view n (snd (HandleViewChange w n)) \<and>
    (\<forall>v \<le> vch_NewView w. inner (n_viewChangeLog (snd (HandleViewChange w n))) v = fmempty)"
  using assms by (simp add: HandleViewChange_def Let_def fresh_view_def fail_callbacks_none)

lemma HandleViewChange_stays:
  "n_view n < vch_NewView w \<Longrightarrow>
   golen (fmupd (vch_NodeID w) w (inner (n_viewChangeLog n) (vch_NewView w))) < required_votes n \<Longrightarrow>
   snd (HandleViewChange w n) =
     n\<lparr>n_viewChangeLog := vote (vch_NewView w) (vch_NodeID w) w (n_viewChangeLog n)\<rparr>"
  by (simp add: HandleViewChange_def Let_def)

lemma initiate_moves:
  assumes "n_totalNodes n \<noteq> 0" and "n_view (snd (initiateViewChange E n)) \<noteq> n_view n"
  shows "n_view (snd (initiateViewChange E n)) = int64 (n_view n + 1) \<and>
    (n_state n \<noteq> StateIdle \<or> n_hasPendingClientRequest n) \<and> fresh_view n (snd (initiateViewChange E n))"
  using assms by (auto simp: initiateViewChange_def Let_def fresh_view_def fail_callbacks_none split: if_splits)

lemma view_moved:
  assumes "n_totalNodes n \<noteq> 0" and "n_view (pbft_step ev n) \<noteq> n_view n"
  obtains (timeout) E where "ev = EvTimeout E" and "n_view (pbft_step ev n) = int64 (n_view n + 1)"
      and "n_state n \<noteq> StateIdle \<or> n_hasPendingClientRequest n" and "fresh_view n (pbft_step ev n)"
    | (voted) E p w where "ev = EvNet E 3 p" and "DeserializeViewChange (e_codecs E) p = Inr w"
      and "n_view n < vch_NewView w"
      and "required_votes n \<le> golen (fmupd (vch_NodeID w) w (inner (n_viewChangeLog n) (vch_NewView w)))"
      and "pbft_step ev n = snd (HandleViewChange w n)"
proof -
  consider E t p where "ev = EvNet E t p" | E where "ev = EvTimeout E"
    | "\<And>E t p. ev \<noteq> EvNet E t p" "\<And>E. ev \<noteq> EvTimeout E" by (cases ev) blast+
  then show ?thesis
  proof cases
    case (1 E t p)
    with assms(2) have "t = 3" using EvNet_other [of t E p n] by auto
    with 1 have ev: "ev = EvNet E 3 p" by simp
    from assms(2) obtain w where w: "DeserializeViewChange (e_codecs E) p = Inr w"
      unfolding ev EvNet_view_change by (cases "DeserializeViewChange (e_codecs E) p") simp_all
    then have st: "pbft_step ev n = snd (HandleViewChange w n)" by (simp add: ev EvNet_view_change del: pbft_step.simps)
    with assms(2) view_change_quorum [of w n] show ?thesis
      by (intro voted [OF ev w _ _ st]) (auto split: if_splits)
  next
    case (2 E)
    then have "pbft_step ev n = snd (initiateViewChange E n)"
      using assms(2) by (cases rule: EvTimeout_cases [of E n]) simp_all
    with 2 assms initiate_moves [OF assms(1), of E] timeout show ?thesis by simp
  next
    case 3
    from other_events(2) [OF 3, of n] assms(2) show ?thesis by contradiction
  qed
qed

lemma run_view_quorum:
  assumes "n = pbft_run evs (NewPBFTNode cfg app)" and "ev = EvNet E 3 p" and "DeserializeViewChange (e_codecs E) p = Inr w"
    and "required_votes n \<le> golen (fmupd (vch_NodeID w) w (inner (n_viewChangeLog n) (vch_NewView w)))"
  shows "2 * max_faulty (cfg_TotalNodes cfg) + 1 \<le>
    int (card {i. (vch_NewView w, i) \<in> set (view_votes (evs @ [ev]) (NewPBFTNode cfg app))})"
proof -
  let ?V = "view_votes (evs @ [ev]) (NewPBFTNode cfg app)"
  have "?V = view_votes evs (NewPBFTNode cfg app) @ [(vch_NewView w, vch_NodeID w)]"
    using assms(2,3) by (simp add: view_votes_snoc)
  moreover have "votes_known (set (view_votes evs (NewPBFTNode cfg app))) n"
    using run_votes [OF new_node_votes, of evs cfg app] assms(1) by simp
  ultimately have "votes_known (set ?V) (n\<lparr>n_viewChangeLog := vote (vch_NewView w) (vch_NodeID w) w (n_viewChangeLog n)\<rparr>)"
    by (auto simp: votes_known_def)
  from known_quorum [OF this, of "required_votes n" "vch_NewView w"] assms(4)
  have "required_votes n \<le> int (card {i. (vch_NewView w, i) \<in> set ?V})" by simp
  moreover have "n_f n = max_faulty (cfg_TotalNodes cfg)" using assms(1) by (simp add: run_identity)
  ultimately show ?thesis by (simp add: required_votes_def Let_def split: if_splits)
qed

text \<open>
  C9: how a replica changes its view, over every run of a new node of a network that is not
  empty. A step that changes the view either is the node's own timeout while it is busy or
  has a request pending, and then the view is the next one; or it is a VIEW-CHANGE message,
  and then the node adopts exactly the view that the message names, which is newer, at least
  \<open>2f+1\<close> different node IDs asked for that view in messages received so far (or by the node's
  own timeout), and the votes for it and for older views are dropped. In both cases the node
  is primary exactly if the new view says so, idle, with no request pending and no callback
  waiting, and its logs, its sequence counter and its executions are as before. In the other
  direction, a VIEW-CHANGE message for a newer view moves the node to it as soon as the
  recorded votes with this one reach the quorum, and otherwise is recorded and changes nothing
  else.
\<close>

theorem view_change_needs_quorum:
  assumes "n = pbft_run evs (NewPBFTNode cfg app)" and "cfg_TotalNodes cfg \<noteq> 0"
    and "n' = pbft_step ev n"
  shows "(n_view n' \<noteq> n_view n \<longrightarrow> fresh_view n n' \<and>
      ((\<exists>E. ev = EvTimeout E) \<and> n_view n' = int64 (n_view n + 1) \<and>
         (n_state n \<noteq> StateIdle \<or> n_hasPendingClientRequest n) \<or>
       (\<exists>E p w. ev = EvNet E 3 p \<and> DeserializeViewChange (e_codecs E) p = Inr w \<and> n_view n' = vch_NewView w) \<and>
         n_view n < n_view n' \<and> (\<forall>v \<le> n_view n'. inner (n_viewChangeLog n') v = fmempty) \<and>
         2 * max_faulty (cfg_TotalNodes cfg) + 1 \<le>
           int (card {i. (n_view n', i) \<in> set (view_votes (evs @ [ev]) (NewPBFTNode cfg app))}))) \<and>
    (\<forall>E p w. ev = EvNet E 3 p \<and> DeserializeViewChange (e_codecs E) p = Inr w \<and> n_view n < vch_NewView w \<longrightarrow>
       (if required_votes n \<le> golen (fmupd (vch_NodeID w) w (inner (n_viewChangeLog n) (vch_NewView w)))
        then n_view n' = vch_NewView w
        else n' = n\<lparr>n_viewChangeLog := vote (vch_NewView w) (vch_NodeID w) w (n_viewChangeLog n)\<rparr>))"
proof (intro conjI impI allI)
  have tn: "n_totalNodes n \<noteq> 0" using assms(1,2) by (simp add: run_identity)
  assume "n_view n' \<noteq> n_view n"
  then have moved: "n_view (pbft_step ev n) \<noteq> n_view n" using assms(3) by simp
  show "fresh_view n n'"
    by (cases rule: view_moved [OF tn moved]) (use assms(3) HandleViewChange_moves [OF tn] in simp_all)
  show "(\<exists>E. ev = EvTimeout E) \<and> n_view n' = int64 (n_view n + 1) \<and>
         (n_state n \<noteq> StateIdle \<or> n_hasPendingClientRequest n) \<or>
       (\<exists>E p w. ev = EvNet E 3 p \<and> DeserializeViewChange (e_codecs E) p = Inr w \<and> n_view n' = vch_NewView w) \<and>
         n_view n < n_view n' \<and> (\<forall>v \<le> n_view n'. inner (n_viewChangeLog n') v = fmempty) \<and>
         2 * max_faulty (cfg_TotalNodes cfg) + 1 \<le>
           int (card {i. (n_view n', i) \<in> set (view_votes (evs @ [ev]) (NewPBFTNode cfg app))})"
    using tn moved
  proof (cases rule: view_moved)
    case (timeout E)
    then show ?thesis using assms(3) by blast
  next
    case (voted E p w)
    with HandleViewChange_moves [OF tn voted(3,4)] assms(3) run_view_quorum [OF assms(1) voted(1,2,4)]
    show ?thesis by auto
  qed
next
  fix E p w
  assume "ev = EvNet E 3 p \<and> DeserializeViewChange (e_codecs E) p = Inr w \<and> n_view n < vch_NewView w"
  then have "n' = snd (HandleViewChange w n)" and "n_view n < vch_NewView w"
    using assms(3) by (simp_all add: EvNet_view_change del: pbft_step.simps)
  then show "if required_votes n \<le> golen (fmupd (vch_NodeID w) w (inner (n_viewChangeLog n) (vch_NewView w)))
        then n_view n' = vch_NewView w
        else n' = n\<lparr>n_viewChangeLog := vote (vch_NewView w) (vch_NodeID w) w (n_viewChangeLog n)\<rparr>"
    by (auto simp: view_change_quorum HandleViewChange_stays)
qed

text \<open>The role of a node: it is what its view prescribes, or what its configuration says in view 0.\<close>

definition role_ok :: "'a PBFTNode \<Rightarrow> bool" where
  "role_ok n \<longleftrightarrow> n_view n = 0 \<or>
     n_isPrimary n = (n_nodeID n = expected_primary (n_view n) (n_totalNodes n))"

lemma role_ok_frame:
  "n_view n' = n_view n \<Longrightarrow> n_isPrimary n' = n_isPrimary n \<Longrightarrow> n_nodeID n' = n_nodeID n \<Longrightarrow>
     n_totalNodes n' = n_totalNodes n \<Longrightarrow> role_ok n \<Longrightarrow> role_ok n'"
  by (simp add: role_ok_def)

lemma HandleViewChange_role:
  "n_totalNodes n \<noteq> 0 \<Longrightarrow> role_ok n \<Longrightarrow> role_ok (snd (HandleViewChange w n))"
  by (simp add: HandleViewChange_def Let_def role_ok_def)

lemma initiateViewChange_role:
  "n_totalNodes n \<noteq> 0 \<Longrightarrow> role_ok n \<Longrightarrow> role_ok (snd (initiateViewChange E n))"
  by (simp add: initiateViewChange_def Let_def role_ok_def)

lemma step_role:
  assumes "n_totalNodes n \<noteq> 0" and "role_ok n"
  shows "role_ok (pbft_step ev n)"
proof (cases ev)
  case (EvNet E t p)
  show ?thesis unfolding EvNet
    by (cases rule: EvNet_cases [of E t p n])
      (use assms in \<open>auto intro: HandleViewChange_role role_ok_frame\<close>)
next
  case (EvTurn E)
  show ?thesis unfolding EvTurn
    by (cases rule: EvTurn_cases [of E n]) (use assms in \<open>auto intro: role_ok_frame\<close>)
next
  case (EvTimeout E)
  show ?thesis unfolding EvTimeout
    by (cases rule: EvTimeout_cases [of E n]) (use assms in \<open>auto intro: initiateViewChange_role\<close>)
qed (use assms in \<open>auto intro: role_ok_frame [OF _ _ _ _ assms(2)] simp: simple_event_defs\<close>)

lemma run_role: "n_totalNodes n \<noteq> 0 \<Longrightarrow> role_ok n \<Longrightarrow> role_ok (pbft_run evs n)"
proof (induction evs n rule: pbft_run.induct)
  case (2 ev evs n)
  then show ?case using step_role [of n ev] by simp
qed simp

text \<open>
  C8: at most one node acts as primary in a view: two nodes of the same network with
  different names that reached the same view other than 0, by any events, are not both
  primary.
\<close>

theorem one_primary_per_view:
  assumes "A = pbft_run evs (NewPBFTNode cfg app)" and "B = pbft_run evs' (NewPBFTNode cfg' app')"
    and "cfg_TotalNodes cfg = cfg_TotalNodes cfg'" and "cfg_TotalNodes cfg \<noteq> 0"
    and "cfg_NodeID cfg \<noteq> cfg_NodeID cfg'"
    and "n_view A = n_view B" and "n_view A \<noteq> 0"
  shows "\<not> (n_isPrimary A \<and> n_isPrimary B)"
proof -
  have "role_ok A" and "role_ok B"
    using assms(1-4) run_role [of "NewPBFTNode cfg app" evs] run_role [of "NewPBFTNode cfg' app'" evs']
    by (simp_all add: role_ok_def)
  moreover have "n_nodeID A \<noteq> n_nodeID B" and "n_totalNodes A = n_totalNodes B"
    using assms by (simp_all add: run_identity)
  ultimately show ?thesis using assms(6,7) by (auto simp: role_ok_def)
qed

definition example_config :: "int \<Rightarrow> Config" where
  "example_config i = \<lparr>cfg_NodeID = node_name i, cfg_TotalNodes = 4, cfg_IsPrimary = (i = 0), cfg_ViewTimeout = 0\<rparr>"

definition timed_out :: "int \<Rightarrow> unit PBFTNode" where
  "timed_out i = pbft_run [EvNotify, EvTimeout example_env] (NewPBFTNode (example_config i) ())"

lemma timed_out_view: "n_view (timed_out i) = 1"
  by (simp add: timed_out_def initiateViewChange_def Let_def NotifyPendingRequest_def int64_def)
    (simp add: NewPBFTNode_def Let_def example_env_def example_config_def int64_def)

theorem view_change_needs_quorum_witness:
  "fresh_view (pbft_run [EvNotify] (NewPBFTNode (example_config 1) ())) (timed_out 1) \<and> n_isPrimary (timed_out 1)"
proof -
  let ?n = "pbft_run [EvNotify] (NewPBFTNode (example_config 1) ())"
  have st: "timed_out 1 = pbft_step (EvTimeout example_env) ?n" by (simp add: timed_out_def)
  have "n_view ?n = 0" by simp
  then have "fresh_view ?n (timed_out 1)"
    using view_change_needs_quorum [OF refl _ st] timed_out_view [of 1]
    by (simp add: example_config_def del: pbft_run.simps)
  moreover from this have "n_isPrimary (timed_out 1) = (node_name 1 = expected_primary 1 4)"
    by (simp add: fresh_view_def timed_out_view) (simp add: example_config_def)
  moreover have "(1::int) smod 4 = 1" by code_simp
  then have "expected_primary 1 4 = node_name 1" by (simp add: expected_primary_def)
  ultimately show ?thesis by simp
qed

theorem one_primary_per_view_witness: "\<not> (n_isPrimary (timed_out 1) \<and> n_isPrimary (timed_out 2))"
  by (rule one_primary_per_view [OF timed_out_def timed_out_def])
    (simp_all add: timed_out_view example_config_def del: pbft_run.simps)

section \<open>The message queue\<close>

lemma step_queue:
  "length (n_messageQueue n) \<le> queue_capacity \<Longrightarrow> length (n_messageQueue (pbft_step ev n)) \<le> queue_capacity"
proof (cases ev)
  case (EvNet E t p)
  assume "length (n_messageQueue n) \<le> queue_capacity"
  then show ?thesis unfolding EvNet
    by (cases rule: EvNet_cases [of E t p n]) (auto simp: enqueue_def Let_def)
next
  case (EvTurn E)
  assume "length (n_messageQueue n) \<le> queue_capacity"
  then show ?thesis unfolding EvTurn by (cases rule: EvTurn_cases [of E n]) auto
next
  case (EvTimeout E)
  assume "length (n_messageQueue n) \<le> queue_capacity"
  then show ?thesis unfolding EvTimeout by (cases rule: EvTimeout_cases [of E n]) auto
qed (simp_all add: simple_event_defs)

text \<open>
  C12: the queue between the network and the consensus loop never holds more than 1000
  messages; when it is full, a decodable PRE-PREPARE, PREPARE or COMMIT is refused with an
  error and the node does not change, and when it is not, the message is appended.
\<close>

theorem queue_is_bounded_and_drops:
  assumes "n = pbft_run evs (NewPBFTNode cfg app)" and "\<not> n_cancelled n"
    and "t \<in> {0, 1, 2}" and "deserialize_consensus (e_codecs E) t payload = Inr m"
  shows "length (n_messageQueue n) \<le> 1000 \<and>
    HandleNetworkMessage E t payload n =
      (if length (n_messageQueue n) = 1000 then (Some QueueFull, n)
       else (None, n\<lparr>n_messageQueue := n_messageQueue n @ [m]\<rparr>))"
proof -
  have "length (n_messageQueue n') \<le> queue_capacity \<Longrightarrow>
      length (n_messageQueue (pbft_run evs n')) \<le> queue_capacity" for n' :: "'a PBFTNode"
    by (induction evs n' rule: pbft_run.induct) (simp_all add: step_queue)
  then have "length (n_messageQueue n) \<le> 1000" by (simp add: assms(1) queue_capacity_def)
  with assms(2-4) show ?thesis
    by (auto simp: HandleNetworkMessage_def enqueue_def Let_def queue_capacity_def)
qed

lemma example_vote_decodes:
  "\<exists>payload. deserialize_consensus (e_codecs example_env) 2 payload = Inr (commit_vote 1 [] 2)"
proof -
  let ?c = "\<lparr>c_View = 0, c_Sequence = 1, c_Digest = [], c_NodeID = node_name 2\<rparr>"
  obtain b where b: "SerializeCommit numbering_codecs ?c = Inr b"
    using sender_marshalsD(2) [OF numbering_sender_marshals] by blast
  then have "DeserializeCommit numbering_codecs b = Inr ?c"
    using numbering_codecs_ok
    by (auto simp: SerializeCommit_def DeserializeCommit_def codecs_ok_def unmarshal_marshal)
  then show ?thesis
    by (intro exI [of _ b]) (simp add: deserialize_consensus_def example_env_def commit_vote_def)
qed

theorem queue_is_bounded_and_drops_witness:
  "\<exists>payload. HandleNetworkMessage example_env 2 payload (NewPBFTNode single_config ()) =
     (None, (NewPBFTNode single_config ())\<lparr>n_messageQueue := [commit_vote 1 [] 2]\<rparr>)"
proof -
  obtain payload where "deserialize_consensus (e_codecs example_env) 2 payload = Inr (commit_vote 1 [] 2)"
    using example_vote_decodes by blast
  moreover have "\<not> n_cancelled (NewPBFTNode single_config ())" by (simp add: NewPBFTNode_def Let_def)
  ultimately show ?thesis
    using queue_is_bounded_and_drops [of "NewPBFTNode single_config ()" "[]" single_config "()" 2] by auto
qed

section \<open>Callbacks\<close>

fun fires :: "nat \<Rightarrow> effect \<Rightarrow> bool" where
  "fires cb (ECallback c ok err) = (c = cb)"
| "fires cb _ = False"

definition fire_count :: "nat \<Rightarrow> effect list \<Rightarrow> nat" where
  "fire_count cb es = length (filter (fires cb) es)"

abbreviation fired :: "nat \<Rightarrow> 'a PBFTNode \<Rightarrow> nat" where
  "fired cb n \<equiv> fire_count cb (n_effects n)"

definition waiting :: "nat \<Rightarrow> (string, ConsensusCallback) gomap \<Rightarrow> nat" where
  "waiting cb m = length (filter (\<lambda>i. mget m i = Some (Some cb)) (keys m))"

abbreviation callback_load :: "nat \<Rightarrow> 'a PBFTNode \<Rightarrow> nat" where
  "callback_load cb n \<equiv> fired cb n + waiting cb (n_requestCallbacks n)"

lemma waiting_card: "waiting cb m = card {i. mget m i = Some (Some cb)}"
proof -
  have "distinct (filter (\<lambda>i. mget m i = Some (Some cb)) (keys m))" by simp
  moreover have "set (filter (\<lambda>i. mget m i = Some (Some cb)) (keys m)) = {i. mget m i = Some (Some cb)}"
    by (auto dest: fmdomI)
  ultimately show ?thesis unfolding waiting_def by (metis distinct_card)
qed

lemma finite_waiting [simp]: "finite {i. mget m i = Some (Some (cb::nat))}"
  by (rule finite_subset [of _ "fset (fmdom m)"]) (auto dest: fmdomI)

lemma waiting_drop:
  "mget m i = Some c \<Longrightarrow> waiting cb m = waiting cb (fmdrop i m) + (if c = Some cb then 1 else 0)"
proof -
  assume c: "mget m i = Some c"
  have "{j. mget (fmdrop i m) j = Some (Some cb)} = {j. mget m j = Some (Some cb)} - {i}"
    by auto
  then have d: "waiting cb (fmdrop i m) = card ({j. mget m j = Some (Some cb)} - {i})"
    by (simp add: waiting_card)
  show ?thesis
  proof (cases "c = Some cb")
    case True
    with c have "i \<in> {j. mget m j = Some (Some cb)}" by simp
    from card_Suc_Diff1 [OF finite_waiting this] True show ?thesis unfolding d waiting_card [of cb m] by simp
  next
    case False
    with c have "{j. mget m j = Some (Some cb)} - {i} = {j. mget m j = Some (Some cb)}" by auto
    with False show ?thesis unfolding d waiting_card [of cb m] by simp
  qed
qed

lemma waiting_upd: "waiting cb (fmupd i c m) \<le> waiting cb m + (if c = Some cb then 1 else 0)"
proof -
  have "{j. mget (fmupd i c m) j = Some (Some cb)} \<subseteq>
      {j. mget m j = Some (Some cb)} \<union> (if c = Some cb then {i} else {})"
    by (auto split: if_splits)
  then have "waiting cb (fmupd i c m) \<le> card ({j. mget m j = Some (Some cb)} \<union> (if c = Some cb then {i} else {}))"
    unfolding waiting_card by (intro card_mono) auto
  also have "\<dots> \<le> waiting cb m + (if c = Some cb then 1 else 0)"
    by (auto simp: waiting_card card_insert_if)
  finally show ?thesis .
qed

lemma fired_emit [simp]: "fired cb (emit e n) = fired cb n + (if fires cb e then 1 else 0)"
  by (simp add: fire_count_def emit_def)

lemma fired_timer [simp]: "fired cb (timer_reset n) = fired cb n"
  by (simp add: timer_reset_def)

lemma fired_wrap [simp]: "fired cb (snd (wrap_and_broadcast E t x n)) = fired cb n"
  by (simp add: wrap_and_broadcast_def split: sum.splits)

lemma fired_replicate [simp]: "fired cb (replicate_state r n) = fired cb n"
  by (simp add: replicate_state_def split: option.splits)

lemma fired_create [simp]: "fired cb (createCheckpoint E s n) = fired cb n"
  by (simp add: createCheckpoint_def Let_def)

lemma invoke_load: "callback_load cb (invokeCallback i ok err n) = callback_load cb n"
proof (cases "mget (n_requestCallbacks n) i")
  case None
  then show ?thesis by (simp add: invokeCallback_def)
next
  case (Some c)
  with waiting_drop [OF Some, of cb] show ?thesis
    by (cases c) (simp_all add: invokeCallback_def Let_def)
qed

lemma fired_fail:
  "fired cb (fail_callbacks reason cbs n) =
     fired cb n + length (filter (\<lambda>(i, c). c = Some cb) cbs)"
  by (induction reason cbs n rule: fail_callbacks.induct) (auto split: option.splits)

lemma failPending_load: "callback_load cb (failPendingCallbacks reason n) = callback_load cb n"
proof -
  let ?m = "n_requestCallbacks n"
  have "length (filter (\<lambda>(i, c). c = Some cb) (entries ?m)) = waiting cb ?m"
    unfolding entries_def waiting_def filter_count_map
    by (rule arg_cong [where f = length], rule filter_cong) (auto dest: fmdom_notI simp: fmlookup_dom_iff)
  moreover have "waiting cb fmempty = 0" by (simp add: waiting_card)
  ultimately show ?thesis by (simp add: failPendingCallbacks_def fired_fail)
qed

lemma execute_load: "callback_load cb (snd (executeRequest E s n)) = callback_load cb n"
proof (cases "mget (n_requestLog n) s")
  case None
  then show ?thesis by (simp add: executeRequest_def)
next
  case (Some r)
  obtain err app where h: "run_handlers (n_handlers n) r (n_app n) = (err, app)" by force
  let ?n1 = "emit (EExecute s r err) (n\<lparr>n_state := StateCommitted, n_app := app\<rparr>)"
  have n1: "callback_load cb ?n1 = callback_load cb n" by simp
  show ?thesis
  proof (cases err)
    case None
    let ?n2 = "invokeCallback (r_RequestID r) True None (replicate_state r ?n1)"
    let ?n3 = "timer_reset (?n2\<lparr>n_state := StateIdle, n_hasPendingClientRequest := False\<rparr>)"
    let ?n4 = "?n3\<lparr>n_requestLog := fmdrop s (n_requestLog ?n3)\<rparr>"
    have "callback_load cb ?n4 = callback_load cb ?n2"
      by simp
    also have "\<dots> = callback_load cb ?n1" by (simp add: invoke_load)
    finally have "callback_load cb ?n4 = callback_load cb n" by (simp only: n1)
    moreover have "snd (executeRequest E s n) =
        (if s smod checkpointInterval = 0 then createCheckpoint E s ?n4 else ?n4)"
      using Some h None by (simp add: executeRequest_def Let_def)
    ultimately show ?thesis by simp
  next
    case (Some e)
    with \<open>mget (n_requestLog n) s = Some r\<close> h n1 show ?thesis
      by (simp add: executeRequest_def Let_def invoke_load)
  qed
qed

lemma commit_load: "callback_load cb (snd (moveToCommitPhase E s d n)) = callback_load cb n"
proof -
  let ?c = "\<lparr>c_View = n_view n, c_Sequence = s, c_Digest = d, c_NodeID = n_nodeID n\<rparr>"
  let ?n1 = "n\<lparr>n_state := StateCommit, n_commitLog := vote s (n_nodeID n) ?c (n_commitLog n)\<rparr>"
  show ?thesis
    by (cases rule: wrap_cases [of E 2 "SerializeCommit (e_codecs E) ?c" ?n1])
      (simp_all add: moveToCommitPhase_def Let_def execute_load)
qed

lemma prepared_load: "callback_load cb (prepared m n) = callback_load cb n"
  by (simp add: prepared_def)

lemma preprepare_load: "callback_load cb (snd (handlePrePrepare E m n)) = callback_load cb n"
proof (cases "accepts n m")
  case True
  show ?thesis
    by (cases rule: wrap_cases [of E 1 "SerializePrepare (e_codecs E) \<lparr>p_View = pp_View m,
            p_Sequence = pp_Sequence m, p_Digest = pp_Digest m, p_NodeID = n_nodeID n\<rparr>" "prepared m n"])
      (simp_all add: handlePrePrepare_accepted [OF True] commit_load execute_load prepared_load)
qed (simp add: handlePrePrepare_rejected)

lemma message_load: "callback_load cb (snd (process_message E m n)) = callback_load cb n"
  by (cases m)
    (simp_all add: preprepare_load HandlePrepare_def HandleCommit_def Let_def commit_load execute_load)

lemma propose_load: "callback_load cb (snd (ProposeRequest E r n)) = callback_load cb n"
  by (cases rule: ProposeRequest_cases [of E r n]) (simp_all add: preprepare_load)

lemma initiate_load: "callback_load cb (snd (initiateViewChange E n)) = callback_load cb n"
  by (simp add: initiateViewChange_def Let_def failPending_load)

lemma view_change_load: "callback_load cb (snd (HandleViewChange w n)) = callback_load cb n"
  by (simp add: HandleViewChange_def Let_def failPending_load)

fun registers :: "nat \<Rightarrow> event \<Rightarrow> bool" where
  "registers cb (EvCallback i c) = (c = Some cb)"
| "registers cb _ = False"

lemma step_load: "callback_load cb (pbft_step ev n) \<le> callback_load cb n + (if registers cb ev then 1 else 0)"
proof (cases ev)
  case (EvNet E t p)
  show ?thesis unfolding EvNet
    by (cases rule: EvNet_cases [of E t p n]) (simp_all add: view_change_load propose_load NotifyPendingRequest_def)
next
  case (EvTurn E)
  show ?thesis unfolding EvTurn by (cases rule: EvTurn_cases [of E n]) (simp_all add: message_load)
next
  case (EvTimeout E)
  show ?thesis unfolding EvTimeout by (cases rule: EvTimeout_cases [of E n]) (simp_all add: initiate_load)
next
  case (EvCallback i c)
  then show ?thesis using waiting_upd [of cb i c "n_requestCallbacks n"] by (simp add: RegisterCallback_def)
qed (simp_all add: message_load propose_load NotifyPendingRequest_def ClearPendingRequest_def Close_def)

text \<open>
  C10: a callback fires at most as often as it was registered: a waiting API call gets one
  answer, of success, of a handler error or of a view change, and never a second one.
\<close>

theorem callbacks_fire_once:
  "fired cb (pbft_run evs (NewPBFTNode cfg app)) \<le> length (filter (registers cb) evs)"
proof -
  have "callback_load cb (pbft_run evs n) \<le> callback_load cb n + length (filter (registers cb) evs)"
    for n :: "'a PBFTNode"
  proof (induction evs n rule: pbft_run.induct)
    case (2 ev evs n)
    from "2.IH" step_load [of cb ev n] show ?case by (simp split: if_splits)
  qed simp
  moreover have "callback_load cb (NewPBFTNode cfg app) = 0"
    by (simp add: NewPBFTNode_def Let_def fire_count_def waiting_card)
  ultimately show ?thesis by (metis add_0 add_leD1)
qed

section \<open>Checkpoints\<close>

definition votes_for :: "string \<Rightarrow> (string \<times> Checkpoint) list \<Rightarrow> int" where
  "votes_for d vs = int (length (filter (\<lambda>(k, v). k_StateDigest v = d) vs))"

lemma count_digests_lookup:
  "(case mget (count_digests vs m) d of None \<Rightarrow> 0 | Some c \<Rightarrow> c) =
     (case mget m d of None \<Rightarrow> 0 | Some c \<Rightarrow> c) + votes_for d vs"
  by (induction vs m rule: count_digests.induct) (auto simp: votes_for_def split: option.splits)

lemma count_digests_iff:
  assumes "0 < q"
  shows "list_ex (\<lambda>(d, c). q \<le> c) (entries (count_digests vs fmempty)) \<longleftrightarrow> (\<exists>d. q \<le> votes_for d vs)"
proof -
  let ?m = "count_digests vs fmempty"
  have "list_ex (\<lambda>(d, c). q \<le> c) (entries ?m) \<longleftrightarrow> (\<exists>d c. mget ?m d = Some c \<and> q \<le> c)"
    using enumerates_entries [of ?m] by (auto simp: list_ex_iff enumerates_def)
  also have "\<dots> \<longleftrightarrow> (\<exists>d. q \<le> votes_for d vs)"
  proof -
    have "(\<exists>c. mget ?m d = Some c \<and> q \<le> c) \<longleftrightarrow> q \<le> votes_for d vs" for d
      using count_digests_lookup [of vs fmempty d] assms by (cases "mget ?m d") simp_all
    then show ?thesis by blast
  qed
  finally show ?thesis .
qed

lemma required_pos: "0 < required_votes n"
  by (simp add: required_votes_def Let_def)

text \<open>The nodes whose recorded vote carries a state digest.\<close>

definition matching_voters :: "string \<Rightarrow> (string, Checkpoint) gomap \<Rightarrow> string set" where
  "matching_voters d votes = {i. \<exists>k. mget votes i = Some k \<and> k_StateDigest k = d}"

lemma votes_for_card: "votes_for d (entries m) = int (card (matching_voters d m))"
proof -
  let ?xs = "filter (\<lambda>i. k_StateDigest (the (mget m i)) = d) (keys m)"
  have "set ?xs = matching_voters d m" by (auto simp: matching_voters_def fmlookup_dom_iff)
  moreover have "distinct ?xs" by simp
  moreover have "votes_for d (entries m) = int (length ?xs)"
    by (simp add: votes_for_def entries_def filter_map comp_def)
  ultimately show ?thesis by (metis distinct_card)
qed

lemma matching_few: "int (card (matching_voters d m)) \<le> golen m"
proof -
  have "matching_voters d m \<subseteq> fset (fmdom m)" by (auto simp: matching_voters_def fmlookup_dom_iff)
  then show ?thesis unfolding golen_card by (simp add: card_mono)
qed

text \<open>
  C11: what \<open>HandleCheckpoint\<close> does, in full. A message for a sequence number that is not
  beyond the last stable checkpoint changes nothing. Otherwise its vote is recorded, one per
  node; if with it at least \<open>2f+1\<close> different nodes voted for the number with one and the same
  state digest, whatever else was voted, the number becomes the last stable one, the request,
  prepare and commit logs and the checkpoint votes lose exactly the entries up to it, the
  checkpoints exactly those before it. Nothing else of the node changes in any case, and
  with fewer matching votes only the vote is recorded.
\<close>

theorem checkpoint_needs_matching_quorum:
  "HandleCheckpoint k n =
    (if k_Sequence k \<le> n_lastStableCheckpoint n then n
     else if \<exists>d. required_votes n \<le>
       int (card (matching_voters d (fmupd (k_NodeID k) k (inner (n_checkpointVotes n) (k_Sequence k)))))
     then n\<lparr>n_lastStableCheckpoint := k_Sequence k,
            n_requestLog := fmfilter (\<lambda>s. k_Sequence k < s) (n_requestLog n),
            n_prepareLog := fmfilter (\<lambda>s. k_Sequence k < s) (n_prepareLog n),
            n_commitLog := fmfilter (\<lambda>s. k_Sequence k < s) (n_commitLog n),
            n_checkpoints := fmfilter (\<lambda>s. k_Sequence k \<le> s) (n_checkpoints n),
            n_checkpointVotes := fmfilter (\<lambda>s. k_Sequence k < s) (n_checkpointVotes n)\<rparr>
     else n\<lparr>n_checkpointVotes := vote (k_Sequence k) (k_NodeID k) k (n_checkpointVotes n)\<rparr>)"
proof -
  let ?votes = "fmupd (k_NodeID k) k (inner (n_checkpointVotes n) (k_Sequence k))"
  have few: "golen ?votes < required_votes n \<Longrightarrow> \<not> (\<exists>d. required_votes n \<le> int (card (matching_voters d ?votes)))"
    using matching_few [of _ ?votes] by (meson leD order.trans not_le)
  have vf: "fmfilter (\<lambda>s. k_Sequence k < s) (vote (k_Sequence k) (k_NodeID k) k (n_checkpointVotes n)) =
      fmfilter (\<lambda>s. k_Sequence k < s) (n_checkpointVotes n)"
    by (simp add: vote_def)
  let ?reached = "\<exists>d. required_votes n \<le> int (card (matching_voters d ?votes))"
  have found: "list_ex (\<lambda>(d, c). required_votes n \<le> c) (entries (count_digests (entries ?votes) fmempty)) \<longleftrightarrow> ?reached"
    by (simp add: count_digests_iff [OF required_pos] votes_for_card)
  consider "k_Sequence k \<le> n_lastStableCheckpoint n" | "n_lastStableCheckpoint n < k_Sequence k" "?reached"
    | "n_lastStableCheckpoint n < k_Sequence k" "\<not> ?reached" by fastforce
  then show ?thesis
  proof cases
    case 1
    then show ?thesis by (simp add: HandleCheckpoint_def)
  next
    case 2
    with few have "\<not> golen ?votes < required_votes n" by blast
    with 2 found show ?thesis
      by (simp add: HandleCheckpoint_def Let_def garbageCollect_def not_le not_less vf)
  next
    case 3
    with found show ?thesis by (simp add: HandleCheckpoint_def Let_def)
  qed
qed

section \<open>Proposals\<close>

text \<open>With a quorum of one, an accepted PRE-PREPARE returns what the handlers answer.\<close>

lemma execute_result:
  assumes "mget (n_requestLog n) s = Some r"
  shows "fst (executeRequest E s n) = map_option ConsensusHandlerError (answer n r)"
  using assms by (cases "run_handlers (n_handlers n) r (n_app n)")
    (simp add: executeRequest_def Let_def split: option.splits)

lemma sendable_wrap:
  assumes "sendable E (n_nodeID n) t x"
  shows "\<exists>b. wrap_and_broadcast E t x n = (None, emit (EBroadcast b) n)"
proof (cases rule: wrap_sendable [of E n t x])
  case (sent b)
  then show ?thesis by blast
qed (use assms in simp)

lemma golen_upd_pos: "1 \<le> golen (fmupd k v m)"
proof -
  have "card (fset (fmdom (fmupd k v m))) \<noteq> 0" by simp
  then show ?thesis unfolding golen_card by linarith
qed

lemma single_result:
  assumes "accepts n m" and "sender_marshals (e_codecs E) (n_nodeID n)" and "required_votes n = 1"
  shows "fst (handlePrePrepare E m n) = map_option ConsensusHandlerError (answer n (pp_Request m))"
proof -
  let ?p = "\<lparr>p_View = pp_View m, p_Sequence = pp_Sequence m, p_Digest = pp_Digest m, p_NodeID = n_nodeID n\<rparr>"
  let ?c = "\<lparr>c_View = n_view n, c_Sequence = pp_Sequence m, c_Digest = pp_Digest m, c_NodeID = n_nodeID n\<rparr>"
  have sp: "sendable E (n_nodeID (prepared m n)) 1 (SerializePrepare (e_codecs E) ?p)"
    and sc: "sendable E (n_nodeID n) 2 (SerializeCommit (e_codecs E) ?c)"
    using oracle_sends [OF assms(2), of "MPrePrepare m"] assms(1) by (simp_all add: oracle_of_def accepts_def)
  from sp obtain b where b: "wrap_and_broadcast E 1 (SerializePrepare (e_codecs E) ?p) (prepared m n) =
      (None, emit (EBroadcast b) (prepared m n))"
    using sendable_wrap by blast
  let ?n3 = "emit (EBroadcast b) (prepared m n)"
  let ?n4 = "?n3\<lparr>n_state := StateCommit, n_commitLog := vote (pp_Sequence m) (n_nodeID n) ?c (n_commitLog n)\<rparr>"
  from sc obtain b' where b': "wrap_and_broadcast E 2 (SerializeCommit (e_codecs E) ?c) ?n4 = (None, emit (EBroadcast b') ?n4)"
    using sendable_wrap [of E ?n4 2] by auto
  have view: "n_view (prepared m n) = n_view n" by (simp add: prepared_def)
  have "checkPrepareQuorum (pp_Sequence m) ?n3"
    using golen_upd_pos assms(3) by (simp add: checkPrepareQuorum_def checkQuorum_def required_votes_def)
  then have "handlePrePrepare E m n = moveToCommitPhase E (pp_Sequence m) (pp_Digest m) ?n3"
    by (simp add: handlePrePrepare_accepted [OF assms(1)] b)
  moreover have "checkCommitQuorum (pp_Sequence m) (emit (EBroadcast b') ?n4)"
    using golen_upd_pos assms(3) by (simp add: checkCommitQuorum_def checkQuorum_def required_votes_def)
  then have "moveToCommitPhase E (pp_Sequence m) (pp_Digest m) ?n3 = executeRequest E (pp_Sequence m) (emit (EBroadcast b') ?n4)"
    using b' by (simp add: moveToCommitPhase_def Let_def view)
  moreover have "answer (emit (EBroadcast b') ?n4) (pp_Request m) = answer n (pp_Request m)"
    by (simp add: prepared_def)
  ultimately show ?thesis by (simp add: execute_result)
qed

text \<open>
  C13: a primary that is alone in its network decides by itself. Let the node be primary of a
  network of one (no faulty node tolerated), with a codec that marshals its PRE-PREPARE and
  its votes. Then \<open>ProposeRequest\<close> takes the next sequence number and, before it returns, has
  run the consensus handlers exactly once for that number, on the request. If they accept the
  request the call returns no error and the request has left the request log; if they refuse
  it the call returns their error and the request stays in the log.
\<close>

theorem single_node_decides_alone:
  assumes "n_isPrimary n" and "n_totalNodes n = 1" and "n_f n = 0"
    and "sender_marshals (e_codecs E) (n_nodeID n)"
    and "\<And>pp. pp_Request pp = req \<Longrightarrow> \<exists>b. SerializePrePrepare (e_codecs E) pp = Inr b"
    and "s = int64 (n_sequence n + 1)" and "err = fst (run_handlers (n_handlers n) req (n_app n))"
    and "ProposeRequest E req n = (res, n')"
  shows "n_sequence n' = s \<and> runs_at s (executions n') = runs_at s (executions n) @ [(req, err)] \<and>
    res = map_option ConsensusHandlerError err \<and>
    mget (n_requestLog n') s = (if err = None then None else Some req)"
proof -
  let ?pp = "\<lparr>pp_View = n_view n, pp_Sequence = s, pp_Digest = computeDigest req, pp_Request = req\<rparr>"
  let ?n1 = "n\<lparr>n_sequence := s, n_requestLog := fmupd s req (n_requestLog n)\<rparr>"
  have pb: "propose_begin E req n = (Inr ?pp, ?n1)"
    using assms(1,2,6) by (simp add: propose_begin_def Let_def)
  obtain p where p: "SerializePrePrepare (e_codecs E) ?pp = Inr p" using assms(5) [of ?pp] by auto
  obtain b where b: "wrap_and_broadcast E 0 (Inr p) ?n1 = (None, emit (EBroadcast b) ?n1)"
    using sender_marshalsD(3) [OF assms(4), of 0 p] by (auto simp: wrap_and_broadcast_def)
  let ?n2 = "emit (EBroadcast b) ?n1"
  have eq: "handlePrePrepare E ?pp ?n2 = (res, n')"
    using assms(8) by (simp add: ProposeRequest_def pb p b)
  have m: "sender_marshals (e_codecs E) (n_nodeID ?n2)" and rv: "required_votes ?n2 = 1"
    and ans: "answer ?n2 req = err"
    using assms(3,4,7) by (simp_all add: required_votes_def)
  note sends = oracle_sends [OF m, of "MPrePrepare ?pp"]
  have pos: "1 \<le> int (fcard (finsert i A))" for i :: string and A
    by (simp add: fcard_finsert_if) (metis Suc_le_eq fcard_0_eq femptyE neq0_conv)
  have h: "so_handlers (oracle_of E (MPrePrepare ?pp) ?n2) req = err"
    using ans by (simp add: oracle_of_def)
  have "slot_of s n' = slot_step (oracle_of E (MPrePrepare ?pp) ?n2) 1 (n_nodeID n) (n_view n) s (MPrePrepare ?pp) (slot_of s ?n2)"
    using handlePrePrepare_slot [of s E ?pp ?n2] by (simp add: eq rv)
  then have "sl_runs (slot_of s n') = runs_at s (executions n) @ [(req, err)]"
    and "sl_request (slot_of s n') = (if err = None then None else Some req)"
    using sends pos h by (simp_all add: slot_of_def slot_commit_def slot_execute_def Let_def)
  moreover have "n_sequence n' = s" using preprepare_fields(3) [of E ?pp ?n2] by (simp add: eq)
  moreover have "res = map_option ConsensusHandlerError err"
    using single_result [OF _ m rv, of ?pp] ans eq by (simp add: accepts_def)
  ultimately show ?thesis by (simp add: slot_of_def)
qed

theorem single_node_decides_alone_witness:
  "runs_at 1 (executions (snd (ProposeRequest example_env example_request (NewPBFTNode single_config ())))) =
     [(example_request, None)] \<and>
   fst (ProposeRequest example_env example_request (NewPBFTNode single_config ())) = None"
proof -
  let ?n = "NewPBFTNode single_config ()"
  have n: "n_isPrimary ?n" "n_totalNodes ?n = 1" "n_f ?n = 0" "n_sequence ?n = 0"
  proof -
    have "max_faulty 1 = 0" by code_simp
    then show "n_f ?n = 0" by (simp add: single_config_def)
  qed (simp_all add: NewPBFTNode_def single_config_def Let_def)
  have "\<exists>b. SerializePrePrepare (e_codecs example_env) pp = Inr b" for pp
    by (simp add: SerializePrePrepare_def Let_def marshal_as_def example_env_def numbering_codecs_def numbering_def)
  moreover have "int64 (n_sequence ?n + 1) = 1" by (simp add: n int64_def)
  ultimately show ?thesis
    using single_node_decides_alone [OF n(1-3) example_marshals _ refl refl surjective_pairing, of example_request]
    by (simp add: single_facts(1))
qed

end
