(* ===== verification/Message_Cache.thy ===== *)
theory Message_Cache
  imports Go_Text
begin

text \<open>
  \<open>pkg/gossip/cache.go\<close>: the message cache of the gossip engine, a bounded LRU list with a
  bloom filter in front of its index. List elements have identity in the source (the index
  maps a key to a \<open>*list.Element\<close>), so an element carries a number here and the index maps
  keys to numbers. The filter panics when its size is 0 (\<open>h % bf.size\<close>); \<open>None\<close> is that
  panic. The contract of the filter is the locale \<open>membership_filter\<close>; the cache relies on
  nothing else.
\<close>

unbundle bit_operations_syntax

section \<open>Model\<close>

record Message =
  m_ID :: string
  m_Payload :: bytes
  m_TTL :: int
  m_SeenBy :: "string list"
  m_Timestamp :: int

subsection \<open>The bloom filter\<close>

record BloomFilter =
  bf_bits :: "bool list"
  bf_size :: nat
  bf_hashCount :: nat

definition NewBloomFilter :: "nat \<Rightarrow> BloomFilter" where
  "NewBloomFilter capacity =
     (let sz = capacity * 10; hashCount = 7
      in \<lparr>bf_bits = replicate sz False, bf_size = sz, bf_hashCount = hashCount\<rparr>)"

text \<open>64-bit FNV-1a, as in \<open>hash/fnv\<close>.\<close>

definition fnv64a :: "bytes \<Rightarrow> uint64" where
  "fnv64a key = foldl (\<lambda>h c. (h XOR of_char c) * 1099511628211) 14695981039346656037 key"

definition getHashes :: "BloomFilter \<Rightarrow> string \<Rightarrow> nat list" where
  "getHashes bf key =
     (let sum = fnv64a key;
          h1 = sum AND 0xffffffff;
          h2 = (if drop_bit 32 sum = 0 then 1 else drop_bit 32 sum)
      in map (\<lambda>i. unat ((h1 + word_of_nat i * h2) AND 0x7fffffff)) [0..<bf_hashCount bf])"

fun mark_bits :: "nat \<Rightarrow> nat list \<Rightarrow> bool list \<Rightarrow> bool list" where
  "mark_bits sz [] bits = bits"
| "mark_bits sz (h # hs) bits = mark_bits sz hs (bits[h mod sz := True])"

definition bf_mark :: "string \<Rightarrow> BloomFilter \<Rightarrow> BloomFilter" where
  "bf_mark key bf = bf\<lparr>bf_bits := mark_bits (bf_size bf) (getHashes bf key) (bf_bits bf)\<rparr>"

definition bf_test :: "string \<Rightarrow> BloomFilter \<Rightarrow> bool" where
  "bf_test key bf \<longleftrightarrow> list_all (\<lambda>h. bf_bits bf ! (h mod bf_size bf)) (getHashes bf key)"

definition bloom_Add :: "string \<Rightarrow> BloomFilter \<Rightarrow> BloomFilter option" where
  "bloom_Add key bf = (if bf_size bf = 0 then None else Some (bf_mark key bf))"

definition bloom_Contains :: "string \<Rightarrow> BloomFilter \<Rightarrow> bool option" where
  "bloom_Contains key bf = (if bf_size bf = 0 then None else Some (bf_test key bf))"

subsection \<open>The cache\<close>

record cacheEntry =
  ce_elem :: nat
  ce_key :: string
  ce_message :: Message

record MessageCache =
  mc_capacity :: nat
  mc_cache :: "(string, nat) gomap"
  mc_lru :: "cacheEntry list"
  mc_bloom :: BloomFilter
  mc_next :: nat

definition NewMessageCache :: "nat \<Rightarrow> MessageCache" where
  "NewMessageCache capacity =
     \<lparr>mc_capacity = capacity, mc_cache = fmempty, mc_lru = [], mc_bloom = NewBloomFilter capacity,
      mc_next = 0\<rparr>"

text \<open>\<open>container/list\<close>: the operations on an element of the list.\<close>

definition MoveToFront :: "nat \<Rightarrow> cacheEntry list \<Rightarrow> cacheEntry list" where
  "MoveToFront e lru =
     filter (\<lambda>x. ce_elem x = e) lru @ filter (\<lambda>x. ce_elem x \<noteq> e) lru"

definition set_message :: "nat \<Rightarrow> Message \<Rightarrow> cacheEntry list \<Rightarrow> cacheEntry list" where
  "set_message e msg lru = map (\<lambda>x. if ce_elem x = e then x\<lparr>ce_message := msg\<rparr> else x) lru"

definition evict :: "MessageCache \<Rightarrow> MessageCache" where
  "evict mc =
     (if mc_lru mc = [] then mc
      else let entry = last (mc_lru mc)
           in mc\<lparr>mc_lru := butlast (mc_lru mc), mc_cache := fmdrop (ce_key entry) (mc_cache mc)\<rparr>)"

definition cache_Add :: "Message \<Rightarrow> MessageCache \<Rightarrow> MessageCache option" where
  "cache_Add msg mc =
     (case mget (mc_cache mc) (m_ID msg) of
        Some elem \<Rightarrow>
          Some (mc\<lparr>mc_lru := set_message elem msg (MoveToFront elem (mc_lru mc))\<rparr>)
      | None \<Rightarrow>
          (case bloom_Add (m_ID msg) (mc_bloom mc) of
             None \<Rightarrow> None
           | Some bloom \<Rightarrow>
               let elem = mc_next mc;
                   entry = \<lparr>ce_elem = elem, ce_key = m_ID msg, ce_message = msg\<rparr>;
                   mc' = mc\<lparr>mc_bloom := bloom, mc_lru := entry # mc_lru mc,
                            mc_cache := fmupd (m_ID msg) elem (mc_cache mc), mc_next := elem + 1\<rparr>
               in Some (if mc_capacity mc' < length (mc_lru mc') then evict mc' else mc')))"

definition cache_Contains :: "string \<Rightarrow> MessageCache \<Rightarrow> bool option" where
  "cache_Contains msgID mc =
     (case bloom_Contains msgID (mc_bloom mc) of
        None \<Rightarrow> None
      | Some False \<Rightarrow> Some False
      | Some True \<Rightarrow> Some (mhas (mc_cache mc) msgID))"

definition cache_Get :: "string \<Rightarrow> MessageCache \<Rightarrow> Message option \<times> MessageCache" where
  "cache_Get msgID mc =
     (case mget (mc_cache mc) msgID of
        Some elem \<Rightarrow>
          (map_option ce_message (find (\<lambda>x. ce_elem x = elem) (mc_lru mc)),
           mc\<lparr>mc_lru := MoveToFront elem (mc_lru mc)\<rparr>)
      | None \<Rightarrow> (None, mc))"

definition GetDigests :: "MessageCache \<Rightarrow> string list" where
  "GetDigests mc = keys (mc_cache mc)"

definition cache_Size :: "MessageCache \<Rightarrow> nat" where
  "cache_Size mc = length (mc_lru mc)"

definition Clear :: "MessageCache \<Rightarrow> MessageCache" where
  "Clear mc = mc\<lparr>mc_cache := fmempty, mc_lru := [], mc_bloom := NewBloomFilter (mc_capacity mc)\<rparr>"

section \<open>Filters without false negatives\<close>

locale membership_filter =
  fixes mark :: "'k \<Rightarrow> 'f \<Rightarrow> 'f" and test :: "'k \<Rightarrow> 'f \<Rightarrow> bool" and ok :: "'f \<Rightarrow> bool"
  assumes mark_ok: "ok f \<Longrightarrow> ok (mark k f)"
    and mark_same: "ok f \<Longrightarrow> test k (mark k f)"
    and mark_mono: "ok f \<Longrightarrow> test j f \<Longrightarrow> test j (mark k f)"
begin

definition covers :: "'f \<Rightarrow> 'k set \<Rightarrow> bool" where
  "covers f K \<longleftrightarrow> ok f \<and> (\<forall>k \<in> K. test k f)"

lemma covers_mark: "covers f K \<Longrightarrow> covers (mark k f) (insert k K)"
  by (simp add: covers_def mark_ok mark_same mark_mono)

lemma covers_subset: "covers f K \<Longrightarrow> L \<subseteq> K \<Longrightarrow> covers f L"
  by (auto simp: covers_def)

lemma covers_exact: "covers f K \<Longrightarrow> (test k f \<and> k \<in> K) = (k \<in> K)"
  by (auto simp: covers_def)

end

definition bf_ok :: "BloomFilter \<Rightarrow> bool" where
  "bf_ok bf \<longleftrightarrow> 0 < bf_size bf \<and> length (bf_bits bf) = bf_size bf"

lemma length_mark_bits [simp]: "length (mark_bits sz hs bits) = length bits"
  by (induction sz hs bits rule: mark_bits.induct) simp_all

lemma mark_bits_mono: "bits ! i \<Longrightarrow> i < length bits \<Longrightarrow> mark_bits sz hs bits ! i"
proof (induction sz hs bits rule: mark_bits.induct)
  case (2 sz h hs bits)
  have "bits[h mod sz := True] ! i" using "2.prems" by (cases "i = h mod sz") simp_all
  with 2 show ?case by simp
qed simp

lemma mark_bits_set:
  "h \<in> set hs \<Longrightarrow> 0 < sz \<Longrightarrow> length bits = sz \<Longrightarrow> mark_bits sz hs bits ! (h mod sz)"
  by (induction sz hs bits rule: mark_bits.induct) (auto simp: mark_bits_mono)

lemma getHashes_bits [simp]: "getHashes (bf\<lparr>bf_bits := b\<rparr>) key = getHashes bf key"
  by (simp add: getHashes_def)

interpretation bloom: membership_filter bf_mark bf_test bf_ok
proof unfold_locales
  fix f k j
  assume ok: "bf_ok f"
  show "bf_ok (bf_mark k f)" using ok by (simp add: bf_ok_def bf_mark_def)
  show "bf_test k (bf_mark k f)"
    using ok by (auto simp: bf_test_def bf_mark_def bf_ok_def list_all_iff mark_bits_set)
  assume "bf_test j f"
  then show "bf_test j (bf_mark k f)"
    using ok by (auto simp: bf_test_def bf_mark_def bf_ok_def list_all_iff mark_bits_mono)
qed

section \<open>The cache refines a bounded recency list\<close>

definition recency :: "MessageCache \<Rightarrow> (string \<times> Message) list" where
  "recency mc = map (\<lambda>x. (ce_key x, ce_message x)) (mc_lru mc)"

definition touch :: "string \<Rightarrow> Message \<Rightarrow> (string \<times> Message) list \<Rightarrow> (string \<times> Message) list" where
  "touch k m xs = (k, m) # filter (\<lambda>(j, _). j \<noteq> k) xs"

definition mc_ok :: "MessageCache \<Rightarrow> bool" where
  "mc_ok mc \<longleftrightarrow> bloom.covers (mc_bloom mc) (fset (fmdom (mc_cache mc))) \<and>
     distinct (map ce_key (mc_lru mc)) \<and> distinct (map ce_elem (mc_lru mc)) \<and>
     (\<forall>x \<in> set (mc_lru mc). ce_elem x < mc_next mc) \<and>
     (\<forall>k e. mget (mc_cache mc) k = Some e \<longleftrightarrow> (\<exists>x \<in> set (mc_lru mc). ce_key x = k \<and> ce_elem x = e)) \<and>
     length (mc_lru mc) \<le> mc_capacity mc"

lemma mc_okD:
  assumes "mc_ok mc"
  shows "mhas (mc_cache mc) k \<longleftrightarrow> k \<in> ce_key ` set (mc_lru mc)"
    and "0 < bf_size (mc_bloom mc)"
  using assms by (auto simp: mc_ok_def fmlookup_dom_iff bloom.covers_def bf_ok_def)

lemma elem_of_key:
  assumes "mc_ok mc" and "mget (mc_cache mc) k = Some e" and "x \<in> set (mc_lru mc)"
  shows "ce_elem x = e \<longleftrightarrow> ce_key x = k"
proof
  obtain y where y: "y \<in> set (mc_lru mc)" "ce_key y = k" "ce_elem y = e"
    using assms(1,2) by (auto simp: mc_ok_def)
  show "ce_key x = k" if "ce_elem x = e"
    using that y assms(1,3) by (auto simp: mc_ok_def distinct_map dest: inj_onD)
  show "ce_elem x = e" if "ce_key x = k"
    using that y assms(1,3) by (auto simp: mc_ok_def distinct_map dest: inj_onD)
qed

lemma MoveToFront_key:
  assumes "mc_ok mc" and "mget (mc_cache mc) k = Some e"
  shows "MoveToFront e (mc_lru mc) =
    filter (\<lambda>x. ce_key x = k) (mc_lru mc) @ filter (\<lambda>x. ce_key x \<noteq> k) (mc_lru mc)"
  unfolding MoveToFront_def using elem_of_key [OF assms] by (simp cong: filter_cong)

lemma filter_key_single:
  "distinct (map f xs) \<Longrightarrow> x \<in> set xs \<Longrightarrow> f x = k \<Longrightarrow> filter (\<lambda>y. f y = k) xs = [x]"
proof (induction xs)
  case (Cons y ys)
  show ?case
  proof (cases "y = x")
    case True
    with Cons.prems have "f x \<notin> f ` set ys" by simp
    then have "filter (\<lambda>y. f y = k) ys = []"
      using Cons.prems(3) by (metis (mono_tags, lifting) filter_False image_eqI)
    with True Cons.prems show ?thesis by simp
  next
    case False
    with Cons.prems have "f y \<noteq> k" by auto
    with False Cons show ?thesis by simp
  qed
qed simp

lemma find_filter_single: "filter P xs = [x] \<Longrightarrow> find P xs = Some x"
  by (induction xs) (auto split: if_splits)

lemma moved_front:
  assumes "mc_ok mc" and "mget (mc_cache mc) k = Some e"
  obtains x where "x \<in> set (mc_lru mc)" and "ce_key x = k" and "ce_elem x = e"
    and "MoveToFront e (mc_lru mc) = x # filter (\<lambda>x. ce_key x \<noteq> k) (mc_lru mc)"
proof -
  obtain x where x: "x \<in> set (mc_lru mc)" "ce_key x = k" "ce_elem x = e"
    using assms by (auto simp: mc_ok_def)
  then have "filter (\<lambda>x. ce_key x = k) (mc_lru mc) = [x]"
    using assms(1) by (intro filter_key_single) (auto simp: mc_ok_def)
  with x MoveToFront_key [OF assms] that show ?thesis by simp
qed

lemma set_message_front:
  "ce_elem x = e \<Longrightarrow> \<forall>y \<in> set ys. ce_elem y \<noteq> e \<Longrightarrow>
     set_message e m (x # ys) = x\<lparr>ce_message := m\<rparr> # ys"
  by (simp add: set_message_def map_idI)

lemma set_moved_front:
  "x \<in> set xs \<Longrightarrow> ce_key x = k \<Longrightarrow> distinct (map ce_key xs) \<Longrightarrow>
     set (x # filter (\<lambda>x. ce_key x \<noteq> k) xs) = set xs"
  by (auto simp: distinct_map dest: inj_onD)

lemma map_pair_zip: "map (\<lambda>x. (f x, g x)) xs = zip (map f xs) (map g xs)"
  by (induction xs) simp_all

lemma mc_ok_permuted:
  assumes "mc_ok mc" and "map ce_key lru' = map ce_key lru''" and "map ce_elem lru' = map ce_elem lru''"
    and "set lru'' = set (mc_lru mc)" and "distinct (map ce_key lru'')" and "distinct (map ce_elem lru'')"
  shows "mc_ok (mc\<lparr>mc_lru := lru'\<rparr>)"
proof -
  have pairs: "(\<lambda>x. (ce_key x, ce_elem x)) ` set lru' = (\<lambda>x. (ce_key x, ce_elem x)) ` set (mc_lru mc)"
  proof -
    have "map (\<lambda>x. (ce_key x, ce_elem x)) lru' = map (\<lambda>x. (ce_key x, ce_elem x)) lru''"
      using assms(2,3) by (simp only: map_pair_zip)
    then show ?thesis using assms(4) by (metis list.set_map)
  qed
  have len: "length lru' = length (mc_lru mc)"
  proof -
    have "length lru'' = card (set lru'')" using assms(5) by (metis distinct_card distinct_map)
    moreover have "length (mc_lru mc) = card (set (mc_lru mc))"
      using assms(1) by (metis distinct_card distinct_map mc_ok_def)
    ultimately show ?thesis using assms(2,4) by (metis length_map)
  qed
  have "(\<exists>x \<in> set lru'. ce_key x = k \<and> ce_elem x = e) \<longleftrightarrow> (\<exists>x \<in> set (mc_lru mc). ce_key x = k \<and> ce_elem x = e)"
    for k e using pairs by (metis (mono_tags, lifting) Pair_inject image_iff)
  moreover have "\<forall>x \<in> set lru'. ce_elem x < mc_next mc"
    using pairs assms(1) unfolding mc_ok_def by (metis (mono_tags, lifting) Pair_inject image_iff)
  ultimately show ?thesis using assms len by (simp add: mc_ok_def)
qed

lemma moved_front_distinct:
  assumes "mc_ok mc" and "x \<in> set (mc_lru mc)" and "ce_key x = k"
  shows "distinct (map ce_key (x # filter (\<lambda>y. ce_key y \<noteq> k) (mc_lru mc)))"
    and "distinct (map ce_elem (x # filter (\<lambda>y. ce_key y \<noteq> k) (mc_lru mc)))"
    and "\<forall>y \<in> set (filter (\<lambda>y. ce_key y \<noteq> k) (mc_lru mc)). ce_elem y \<noteq> ce_elem x"
  using assms by (auto simp: mc_ok_def distinct_map distinct_map_filter inj_on_def)

lemma Add_existing:
  assumes "mc_ok mc" and "mget (mc_cache mc) (m_ID msg) = Some e"
  shows "\<exists>mc'. cache_Add msg mc = Some mc' \<and> mc_ok mc' \<and>
    recency mc' = touch (m_ID msg) msg (recency mc) \<and> mc_capacity mc' = mc_capacity mc"
proof -
  obtain x where x: "x \<in> set (mc_lru mc)" "ce_key x = m_ID msg" "ce_elem x = e"
    and front: "MoveToFront e (mc_lru mc) = x # filter (\<lambda>x. ce_key x \<noteq> m_ID msg) (mc_lru mc)"
    using assms by (rule moved_front)
  let ?rest = "filter (\<lambda>x. ce_key x \<noteq> m_ID msg) (mc_lru mc)"
  have eq: "cache_Add msg mc = Some (mc\<lparr>mc_lru := x\<lparr>ce_message := msg\<rparr> # ?rest\<rparr>)"
    using assms(2) front set_message_front [of x e ?rest msg] x moved_front_distinct(3) [OF assms(1) x(1,2)]
    by (simp add: cache_Add_def)
  have "mc_ok (mc\<lparr>mc_lru := x\<lparr>ce_message := msg\<rparr> # ?rest\<rparr>)"
    using moved_front_distinct [OF assms(1) x(1,2)] set_moved_front [OF x(1,2)] assms(1)
    by (intro mc_ok_permuted [of mc _ "x # ?rest"]) (simp_all add: mc_ok_def)
  moreover have "recency (mc\<lparr>mc_lru := x\<lparr>ce_message := msg\<rparr> # ?rest\<rparr>) = touch (m_ID msg) msg (recency mc)"
    using x(2) by (simp add: recency_def touch_def filter_map comp_def)
  ultimately show ?thesis using eq by simp
qed

lemma evict_ok:
  assumes "mc_ok (mc\<lparr>mc_capacity := length (mc_lru mc)\<rparr>)" and "mc_lru mc \<noteq> []"
    and "length (mc_lru mc) = Suc (mc_capacity mc)"
  shows "mc_ok (evict mc)" and "recency (evict mc) = butlast (recency mc)"
proof -
  obtain ys y where l: "mc_lru mc = ys @ [y]" using assms(2) by (cases "mc_lru mc" rule: rev_cases) auto
  have dk: "distinct (map ce_key (ys @ [y]))" and de: "distinct (map ce_elem (ys @ [y]))"
    and all: "\<And>k e. mget (mc_cache mc) k = Some e \<longleftrightarrow> (\<exists>x \<in> set (ys @ [y]). ce_key x = k \<and> ce_elem x = e)"
    and nx: "\<forall>x \<in> set (ys @ [y]). ce_elem x < mc_next mc"
    and cov: "bloom.covers (mc_bloom mc) (fset (fmdom (mc_cache mc)))"
    using assms(1) l by (simp_all add: mc_ok_def)
  have nk: "\<forall>x \<in> set ys. ce_key x \<noteq> ce_key y" using dk by (simp add: not_in_image)
  have "mget (fmdrop (ce_key y) (mc_cache mc)) k = Some e \<longleftrightarrow>
      (\<exists>x \<in> set ys. ce_key x = k \<and> ce_elem x = e)" for k e
    using all [of k e] nk by (cases "k = ce_key y") auto
  moreover have "bloom.covers (mc_bloom mc) (fset (fmdom (fmdrop (ce_key y) (mc_cache mc))))"
    using cov by (rule bloom.covers_subset) auto
  ultimately show "mc_ok (evict mc)"
    using dk de nx assms(3) by (simp add: mc_ok_def evict_def Let_def l)
  show "recency (evict mc) = butlast (recency mc)"
    by (simp add: recency_def evict_def Let_def l)
qed

lemma Add_new:
  assumes "mc_ok mc" and "mget (mc_cache mc) (m_ID msg) = None"
  shows "\<exists>mc'. cache_Add msg mc = Some mc' \<and> mc_ok mc' \<and>
    recency mc' = take (mc_capacity mc) (touch (m_ID msg) msg (recency mc)) \<and> mc_capacity mc' = mc_capacity mc"
proof -
  let ?e = "\<lparr>ce_elem = mc_next mc, ce_key = m_ID msg, ce_message = msg\<rparr>"
  let ?mc = "mc\<lparr>mc_bloom := bf_mark (m_ID msg) (mc_bloom mc), mc_lru := ?e # mc_lru mc,
      mc_cache := fmupd (m_ID msg) (mc_next mc) (mc_cache mc), mc_next := mc_next mc + 1\<rparr>"
  have absent: "m_ID msg \<notin> ce_key ` set (mc_lru mc)"
    using assms mc_okD(1) [OF assms(1), of "m_ID msg"] by (simp add: fmlookup_dom_iff)
  have cov: "bloom.covers (mc_bloom mc) (fset (fmdom (mc_cache mc)))"
    and dk: "distinct (map ce_key (mc_lru mc))" and de: "distinct (map ce_elem (mc_lru mc))"
    and nx: "\<forall>x \<in> set (mc_lru mc). ce_elem x < mc_next mc"
    and all: "\<And>k e. mget (mc_cache mc) k = Some e \<longleftrightarrow> (\<exists>x \<in> set (mc_lru mc). ce_key x = k \<and> ce_elem x = e)"
    and len: "length (mc_lru mc) \<le> mc_capacity mc"
    using assms(1) by (simp_all add: mc_ok_def)
  have ok: "mc_ok (?mc\<lparr>mc_capacity := length (mc_lru ?mc)\<rparr>)"
  proof -
    have "bloom.covers (mc_bloom ?mc) (fset (fmdom (mc_cache ?mc)))"
      using bloom.covers_mark [OF cov, of "m_ID msg"] by simp
    moreover have "mget (mc_cache ?mc) k = Some e \<longleftrightarrow>
        (\<exists>x \<in> set (mc_lru ?mc). ce_key x = k \<and> ce_elem x = e)" for k e
      using all [of k e] absent [unfolded not_in_image] by (cases "k = m_ID msg") auto
    moreover have "distinct (map ce_elem (mc_lru ?mc))" using de nx by auto
    moreover have "distinct (map ce_key (mc_lru ?mc))" using dk absent by simp
    moreover have "\<forall>x \<in> set (mc_lru ?mc). ce_elem x < mc_next ?mc" using nx by auto
    ultimately show ?thesis by (simp add: mc_ok_def)
  qed
  have add: "cache_Add msg mc = Some (if mc_capacity mc < length (mc_lru ?mc) then evict ?mc else ?mc)"
    using assms(2) mc_okD(2) [OF assms(1)] by (simp add: cache_Add_def bloom_Add_def Let_def)
  have "filter (\<lambda>(j, _). j \<noteq> m_ID msg) (recency mc) = recency mc"
    using absent by (auto simp: recency_def filter_id_conv not_in_image)
  then have rec: "recency ?mc = touch (m_ID msg) msg (recency mc)"
    by (simp add: recency_def touch_def)
  have lr: "length (recency ?mc) = Suc (length (mc_lru mc))" by (simp add: recency_def)
  show ?thesis
  proof (cases "mc_capacity mc < length (mc_lru ?mc)")
    case True
    with len have l: "length (mc_lru ?mc) = Suc (mc_capacity ?mc)" by simp
    from evict_ok [OF ok _ l] have "mc_ok (evict ?mc)" and "recency (evict ?mc) = butlast (recency ?mc)" by simp_all
    moreover have "butlast (recency ?mc) = take (mc_capacity mc) (recency ?mc)"
      using l lr by (simp add: butlast_conv_take)
    moreover have "mc_capacity (evict ?mc) = mc_capacity mc" by (simp add: evict_def Let_def)
    ultimately show ?thesis using add True rec by simp
  next
    case False
    then have "mc_ok ?mc" using ok by (simp add: mc_ok_def)
    with False add rec lr show ?thesis by simp
  qed
qed

lemma distinct_recency: "mc_ok mc \<Longrightarrow> distinct (map fst (recency mc))"
  by (simp add: mc_ok_def recency_def comp_def)

lemma length_recency: "mc_ok mc \<Longrightarrow> length (recency mc) \<le> mc_capacity mc"
  by (simp add: mc_ok_def recency_def)

lemma length_touch_present:
  "distinct (map fst xs) \<Longrightarrow> k \<in> fst ` set xs \<Longrightarrow> length (touch k m xs) = length xs"
proof (induction xs)
  case (Cons x xs)
  show ?case
  proof (cases "fst x = k")
    case True
    with Cons.prems have "filter (\<lambda>(j, _). j \<noteq> k) xs = xs"
      by (auto simp: filter_id_conv not_in_image)
    with True show ?thesis by (cases x) (simp add: touch_def)
  next
    case False
    with Cons show ?thesis by (auto simp: touch_def split: prod.splits)
  qed
qed simp

lemma cache_Add_recency:
  assumes "mc_ok mc"
  shows "\<exists>mc'. cache_Add msg mc = Some mc' \<and> mc_ok mc' \<and>
    recency mc' = take (mc_capacity mc) (touch (m_ID msg) msg (recency mc)) \<and> mc_capacity mc' = mc_capacity mc"
proof (cases "mget (mc_cache mc) (m_ID msg)")
  case (Some e)
  then have "m_ID msg \<in> fst ` set (recency mc)"
    using mc_okD(1) [OF assms, of "m_ID msg"] by (auto simp: recency_def fmlookup_dom_iff image_image)
  then have "length (touch (m_ID msg) msg (recency mc)) \<le> mc_capacity mc"
    using length_touch_present [OF distinct_recency [OF assms]] length_recency [OF assms] by simp
  with Add_existing [OF assms Some] show ?thesis by simp
qed (rule Add_new [OF assms])

section \<open>Properties\<close>

fun add_all :: "Message list \<Rightarrow> MessageCache \<Rightarrow> MessageCache option" where
  "add_all [] mc = Some mc"
| "add_all (m # ms) mc = (case cache_Add m mc of None \<Rightarrow> None | Some mc' \<Rightarrow> add_all ms mc')"

text \<open>The unbounded recency list.\<close>

definition recent :: "Message list \<Rightarrow> (string \<times> Message) list" where
  "recent ms = fold (\<lambda>m. touch (m_ID m) m) ms []"

lemma new_cache_ok: "0 < cap \<Longrightarrow> mc_ok (NewMessageCache cap)"
  by (simp add: mc_ok_def NewMessageCache_def NewBloomFilter_def bloom.covers_def bf_ok_def Let_def)

lemma distinct_touch: "distinct (map fst xs) \<Longrightarrow> distinct (map fst (touch k m xs))"
  by (auto simp: touch_def distinct_map_filter)

lemma length_filter_key:
  "distinct (map fst xs) \<Longrightarrow> length (xs :: (string \<times> Message) list) \<le>
     Suc (length (filter (\<lambda>(j, _). j \<noteq> k) xs))"
proof (cases "k \<in> fst ` set xs")
  case True
  assume "distinct (map fst xs)"
  then show ?thesis using length_touch_present [OF _ True] by (auto simp: touch_def)
next
  case False
  then have "filter (\<lambda>(j, _). j \<noteq> k) xs = xs" by (auto simp: not_in_image filter_id_conv)
  then show ?thesis by simp
qed

lemma take_touch:
  assumes "distinct (map fst xs)"
  shows "take c (touch k m (take c xs)) = take c (touch k m xs)"
proof (cases "length xs \<le> c")
  case False
  let ?P = "\<lambda>(j, _ :: Message). j \<noteq> k"
  have "length (take c xs) \<le> Suc (length (filter ?P (take c xs)))"
    using assms by (intro length_filter_key) (simp flip: take_map)
  with False have "c \<le> Suc (length (filter ?P (take c xs)))" by simp
  moreover have "filter ?P xs = filter ?P (take c xs) @ filter ?P (drop c xs)"
    by (metis append_take_drop_id filter_append)
  ultimately show ?thesis by (cases c) (simp_all add: touch_def)
qed simp

lemma add_all_recency:
  assumes "mc_ok mc" and "recency mc = take (mc_capacity mc) xs" and "distinct (map fst xs)"
  shows "\<exists>mc'. add_all ms mc = Some mc' \<and> mc_ok mc' \<and> mc_capacity mc' = mc_capacity mc \<and>
    recency mc' = take (mc_capacity mc) (fold (\<lambda>m. touch (m_ID m) m) ms xs)"
  using assms
proof (induction ms arbitrary: mc xs)
  case (Cons m ms)
  obtain mc' where mc': "cache_Add m mc = Some mc'" "mc_ok mc'" "mc_capacity mc' = mc_capacity mc"
    "recency mc' = take (mc_capacity mc) (touch (m_ID m) m (recency mc))"
    using cache_Add_recency [OF Cons.prems(1)] by blast
  then have "recency mc' = take (mc_capacity mc') (touch (m_ID m) m xs)"
    using Cons.prems(2,3) by (simp add: take_touch)
  from Cons.IH [OF mc'(2) this distinct_touch [OF Cons.prems(3)]] mc' show ?case by simp
qed simp

lemma Contains_iff: "mc_ok mc \<Longrightarrow> cache_Contains k mc = Some (k \<in> fst ` set (recency mc))"
proof -
  assume ok: "mc_ok mc"
  then have "bf_test k (mc_bloom mc) \<and> mhas (mc_cache mc) k \<longleftrightarrow> mhas (mc_cache mc) k"
    using bloom.covers_exact [of "mc_bloom mc" "fset (fmdom (mc_cache mc))" k] by (auto simp: mc_ok_def)
  with mc_okD(1) [OF ok, of k] mc_okD(2) [OF ok] show ?thesis
    by (auto simp: cache_Contains_def bloom_Contains_def recency_def image_image split: bool.splits)
qed

text \<open>
  C19: after any additions to a new cache of positive capacity the cache holds exactly the
  most recently added messages, as many as its capacity allows and each under its own ID,
  with the latest message for that ID; \<open>Contains\<close> answers exactly that, the bloom filter
  never hides a cached message, and nothing panics.
\<close>

theorem cache_keeps_most_recent:
  assumes "0 < cap"
  shows "\<exists>mc. add_all ms (NewMessageCache cap) = Some mc \<and> recency mc = take cap (recent ms) \<and>
    cache_Size mc \<le> cap \<and> (\<forall>k. cache_Contains k mc = Some (k \<in> fst ` set (take cap (recent ms))))"
proof -
  have "recency (NewMessageCache cap) = take cap []" by (simp add: recency_def NewMessageCache_def)
  then obtain mc where "add_all ms (NewMessageCache cap) = Some mc" and ok: "mc_ok mc"
    and "recency mc = take cap (recent ms)"
    using add_all_recency [OF new_cache_ok [OF assms], of "[]" ms]
    by (auto simp: recent_def NewMessageCache_def)
  moreover from this have "cache_Size mc \<le> cap"
    by (metis cache_Size_def length_map length_take min.cobounded2 recency_def)
  ultimately show ?thesis using Contains_iff [OF ok] by auto
qed

definition example_message :: "string \<Rightarrow> Message" where
  "example_message i = \<lparr>m_ID = i, m_Payload = [], m_TTL = 10, m_SeenBy = [], m_Timestamp = 0\<rparr>"

theorem cache_keeps_most_recent_witness:
  "\<exists>mc. add_all (map example_message [''a'', ''b'', ''a'', ''c'']) (NewMessageCache 2) = Some mc \<and>
     map fst (recency mc) = [''c'', ''a'']"
  using cache_keeps_most_recent [of 2 "map example_message [''a'', ''b'', ''a'', ''c'']"]
  by (auto simp: recent_def touch_def example_message_def)

text \<open>
  \<open>Get\<close> returns the cached message for an ID exactly when \<open>Contains\<close> says it is there,
  and makes it the most recently used one without changing which messages are cached.
\<close>

theorem cache_Get_refreshes:
  assumes "add_all ms (NewMessageCache cap) = Some mc" and "0 < cap"
    and "cache_Contains k mc = Some True"
  shows "\<exists>m mc'. cache_Get k mc = (Some m, mc') \<and> (k, m) \<in> set (recency mc) \<and>
    recency mc' = touch k m (recency mc)"
proof -
  have "recency (NewMessageCache cap) = take cap []" by (simp add: recency_def NewMessageCache_def)
  then have ok: "mc_ok mc"
    using add_all_recency [OF new_cache_ok [OF assms(2)], of "[]" ms] assms(1)
    by (auto simp: NewMessageCache_def)
  with assms(3) have "k \<in> fst ` set (recency mc)" by (simp add: Contains_iff)
  then obtain e where e: "mget (mc_cache mc) k = Some e"
    using mc_okD(1) [OF ok, of k] by (auto simp: recency_def image_image fmlookup_dom_iff)
  obtain x where x: "x \<in> set (mc_lru mc)" "ce_key x = k" "ce_elem x = e"
    and front: "MoveToFront e (mc_lru mc) = x # filter (\<lambda>x. ce_key x \<noteq> k) (mc_lru mc)"
    using ok e by (rule moved_front)
  have "filter (\<lambda>y. ce_elem y = e) (mc_lru mc) = [x]"
    using ok x by (intro filter_key_single) (auto simp: mc_ok_def)
  then have "find (\<lambda>y. ce_elem y = e) (mc_lru mc) = Some x"
    by (rule find_filter_single)
  then show ?thesis using e front x
    by (auto simp: cache_Get_def recency_def touch_def filter_map comp_def)
qed

theorem cache_Get_refreshes_witness:
  "\<exists>mc m mc'. add_all (map example_message [''a'', ''b'']) (NewMessageCache 2) = Some mc \<and>
     cache_Get ''a'' mc = (Some m, mc') \<and> map fst (recency mc') = [''a'', ''b'']"
proof -
  let ?ms = "map example_message [''a'', ''b'']"
  have "recency (NewMessageCache 2) = take 2 []" by (simp add: recency_def NewMessageCache_def)
  then obtain mc where mc: "add_all ?ms (NewMessageCache 2) = Some mc" and ok: "mc_ok mc"
    and r: "recency mc = [(''b'', example_message ''b''), (''a'', example_message ''a'')]"
    using add_all_recency [OF new_cache_ok, of 2 "[]" ?ms]
    by (auto simp: NewMessageCache_def touch_def example_message_def)
  have "cache_Contains ''a'' mc = Some True" by (simp add: Contains_iff [OF ok] r)
  from cache_Get_refreshes [OF mc _ this] mc r show ?thesis by (force simp: touch_def)
qed

end
