(* ===== verification/Gossip.thy ===== *)
theory Gossip
  imports Message_Cache Sha256 "HOL-Library.Multiset"
begin

text \<open>
  \<open>pkg/gossip/engine.go\<close>: the epidemic broadcast engine. Peers are the type \<open>'p\<close> of the
  peer manager; what is sent is recorded in \<open>g_sends\<close>. Handlers act on an application
  state \<open>'a\<close>. Times are nanoseconds. A send on the full message channel blocks until there
  is room or the engine is closed: the call's outcome is then \<open>Blocked\<close>. Random numbers are
  an argument: \<open>rand.Intn(k)\<close> with the draw \<open>d\<close> (the \<open>i\<close>th of the shuffle is \<open>draws i\<close>) is \<open>d mod k\<close>, which reaches every value
  below \<open>k\<close>. The message a call to \<open>ReceiveMessage\<close> passes is shared with the cache, so the
  changes it makes to it afterwards are changes to the cached message too.
\<close>

section \<open>Model\<close>

definition DefaultTTL :: int where "DefaultTTL = 10"
definition MessageCacheSize :: nat where "MessageCacheSize = 10000"
definition SentMessagesTTL :: int where "SentMessagesTTL = 600000000000"
definition SentMessagesMaxSize :: nat where "SentMessagesMaxSize = 50000"
definition messageChan_capacity :: nat where "messageChan_capacity = 1000"

type_synonym 'a MessageHandler = "Message \<Rightarrow> 'a \<Rightarrow> string option \<times> 'a"

record ('p, 'a) GossipEngine =
  g_nodeID :: string
  g_fanout :: int
  g_cache :: MessageCache
  g_messageChan :: "Message list"
  g_cancelled :: bool
  g_handlers :: "'a MessageHandler list"
  g_sentMessages :: "(string, int) gomap"
  g_receivedDigests :: "(string, int) gomap"
  g_app :: 'a
  g_sends :: "('p \<times> bytes) list"

record GossipConfig =
  gc_NodeID :: string
  gc_Fanout :: int

definition NewGossipEngine :: "GossipConfig \<Rightarrow> 'a \<Rightarrow> ('p, 'a) GossipEngine" where
  "NewGossipEngine cfg app =
     (let fanout = (if gc_Fanout cfg = 0 then 3 else gc_Fanout cfg)
      in \<lparr>g_nodeID = gc_NodeID cfg, g_fanout = fanout, g_cache = NewMessageCache MessageCacheSize,
          g_messageChan = [], g_cancelled = False, g_handlers = [], g_sentMessages = fmempty,
          g_receivedDigests = fmempty, g_app = app, g_sends = []\<rparr>)"

text \<open>Outcomes of the calls that send on the channel.\<close>

datatype 'g gossip_result =
    Returned 'g
  | ContextErr 'g
  | Blocked 'g
  | Panicked

definition send_chan :: "bool \<Rightarrow> Message \<Rightarrow> ('p, 'a) GossipEngine \<Rightarrow> ('p, 'a) GossipEngine gossip_result" where
  "send_chan takeDone msg g =
     (let space = (length (g_messageChan g) < messageChan_capacity)
      in if g_cancelled g \<and> (\<not> space \<or> takeDone) then ContextErr g
         else if space then Returned (g\<lparr>g_messageChan := g_messageChan g @ [msg]\<rparr>)
         else Blocked g)"

definition generateMessageID :: "bytes \<Rightarrow> string" where
  "generateMessageID payload = EncodeToString (Sum256 payload)"

definition Publish :: "int \<Rightarrow> bool \<Rightarrow> bytes \<Rightarrow> ('p, 'a) GossipEngine \<Rightarrow> ('p, 'a) GossipEngine gossip_result" where
  "Publish now takeDone payload g =
     (let msg = \<lparr>m_ID = generateMessageID payload, m_Payload = payload, m_TTL = DefaultTTL,
                 m_SeenBy = [g_nodeID g], m_Timestamp = now sdiv 1000000000\<rparr>
      in case cache_Add msg (g_cache g) of
           None \<Rightarrow> Panicked
         | Some cache \<Rightarrow>
             send_chan takeDone msg
               (g\<lparr>g_cache := cache, g_sentMessages := fmupd (m_ID msg) now (g_sentMessages g)\<rparr>))"

fun gossip_handlers :: "'a MessageHandler list \<Rightarrow> Message \<Rightarrow> 'a \<Rightarrow> 'a" where
  "gossip_handlers [] msg a = a"
| "gossip_handlers (h # hs) msg a = gossip_handlers hs msg (snd (h msg a))"

definition int32 :: "int \<Rightarrow> int" where
  "int32 x = (x + 2 ^ 31) mod 2 ^ 32 - 2 ^ 31"

text \<open>The cached message of an ID, changed through the shared pointer.\<close>

definition update_cached :: "Message \<Rightarrow> MessageCache \<Rightarrow> MessageCache" where
  "update_cached msg mc =
     (case mget (mc_cache mc) (m_ID msg) of
        None \<Rightarrow> mc
      | Some e \<Rightarrow> mc\<lparr>mc_lru := set_message e msg (mc_lru mc)\<rparr>)"

text \<open>
  \<open>ReceiveMessage\<close> holds no lock between its look into the cache and its insertion, nor
  while the handlers run, so a call is three steps between which other goroutines may act:
  the check, the insertion (with the changes to the message, which the cache shares), and the
  handlers with the propagation. \<open>ReceiveMessage\<close> is a call that is not interrupted.
\<close>

definition receive_check :: "Message \<Rightarrow> ('p, 'a) GossipEngine \<Rightarrow> bool option" where
  "receive_check msg g = cache_Contains (m_ID msg) (g_cache g)"

definition receive_add :: "Message \<Rightarrow> ('p, 'a) GossipEngine \<Rightarrow> (Message \<times> ('p, 'a) GossipEngine) option" where
  "receive_add msg g =
     (case cache_Add msg (g_cache g) of
        None \<Rightarrow> None
      | Some cache \<Rightarrow>
          let msg' = msg\<lparr>m_SeenBy := m_SeenBy msg @ [g_nodeID g], m_TTL := int32 (m_TTL msg - 1)\<rparr>
          in Some (msg', g\<lparr>g_cache := update_cached msg' cache\<rparr>))"

definition receive_handle ::
  "bool \<Rightarrow> Message \<Rightarrow> ('p, 'a) GossipEngine \<Rightarrow> ('p, 'a) GossipEngine gossip_result" where
  "receive_handle takeDone msg g =
     (let g1 = g\<lparr>g_app := gossip_handlers (g_handlers g) msg (g_app g)\<rparr>
      in if 0 < m_TTL msg then send_chan takeDone msg g1 else Returned g1)"

definition ReceiveMessage ::
  "bool \<Rightarrow> Message \<Rightarrow> ('p, 'a) GossipEngine \<Rightarrow> ('p, 'a) GossipEngine gossip_result" where
  "ReceiveMessage takeDone msg g =
     (case receive_check msg g of
        None \<Rightarrow> Panicked
      | Some True \<Rightarrow> Returned g
      | Some False \<Rightarrow>
          (case receive_add msg g of
             None \<Rightarrow> Panicked
           | Some (msg', g1) \<Rightarrow> receive_handle takeDone msg' g1))"

definition RegisterHandler :: "'a MessageHandler \<Rightarrow> ('p, 'a) GossipEngine \<Rightarrow> ('p, 'a) GossipEngine" where
  "RegisterHandler handler g = g\<lparr>g_handlers := g_handlers g @ [handler]\<rparr>"

subsection \<open>Dissemination\<close>

definition swap :: "nat \<Rightarrow> nat \<Rightarrow> 'p list \<Rightarrow> 'p list" where
  "swap i j xs = xs[i := xs ! j, j := xs ! i]"

fun partial_shuffle :: "nat \<Rightarrow> nat \<Rightarrow> (nat \<Rightarrow> nat) \<Rightarrow> 'p list \<Rightarrow> 'p list" where
  "partial_shuffle i 0 draws shuffled = shuffled"
| "partial_shuffle i (Suc k) draws shuffled =
     (let j = i + draws i mod (length shuffled - i)
      in partial_shuffle (i + 1) k draws (swap i j shuffled))"

text \<open>A negative count panics in \<open>shuffled[:n]\<close>.\<close>

definition selectRandomPeers :: "(nat \<Rightarrow> nat) \<Rightarrow> 'p list \<Rightarrow> int \<Rightarrow> 'p list option" where
  "selectRandomPeers draws peers n =
     (if int (length peers) \<le> n then Some peers
      else if n < 0 then None
      else Some (take (nat n) (partial_shuffle 0 (nat n) draws peers)))"

definition serializeMessage :: "Message \<Rightarrow> bytes" where
  "serializeMessage msg = m_Payload msg"

definition disseminateMessage ::
  "(nat \<Rightarrow> nat) \<Rightarrow> 'p list \<Rightarrow> Message \<Rightarrow> ('p, 'a) GossipEngine \<Rightarrow> ('p, 'a) GossipEngine gossip_result" where
  "disseminateMessage draws peers msg g =
     (if length peers = 0 then Returned g
      else
        let fanout = (if int (length peers) < g_fanout g then int (length peers) else g_fanout g)
        in case selectRandomPeers draws peers fanout of
             None \<Rightarrow> Panicked
           | Some selected \<Rightarrow>
               Returned (g\<lparr>g_sends := g_sends g @ map (\<lambda>p. (p, serializeMessage msg)) selected\<rparr>))"

text \<open>A turn of the loop of \<open>processMessages\<close>.\<close>

definition processMessages_turn ::
  "bool \<Rightarrow> (nat \<Rightarrow> nat) \<Rightarrow> 'p list \<Rightarrow> ('p, 'a) GossipEngine \<Rightarrow> ('p, 'a) GossipEngine gossip_result" where
  "processMessages_turn takeDone draws peers g =
     (if g_cancelled g \<and> (g_messageChan g = [] \<or> takeDone) then Returned g
      else case g_messageChan g of
        [] \<Rightarrow> Returned g
      | msg # q \<Rightarrow> disseminateMessage draws peers msg (g\<lparr>g_messageChan := q\<rparr>))"

fun join_with :: "string \<Rightarrow> string list \<Rightarrow> string" where
  "join_with sep [] = []"
| "join_with sep [s] = s"
| "join_with sep (s # ss) = s @ sep @ join_with sep ss"

definition serializeDigests :: "string list \<Rightarrow> bytes" where
  "serializeDigests digests = join_with '','' digests"

definition performAntiEntropy :: "nat \<Rightarrow> 'p list \<Rightarrow> ('p, 'a) GossipEngine \<Rightarrow> ('p, 'a) GossipEngine" where
  "performAntiEntropy draw peers g =
     (if length peers = 0 then g
      else g\<lparr>g_sends := g_sends g @
                [(peers ! (draw mod length peers), serializeDigests (GetDigests (g_cache g)))]\<rparr>)"

text \<open>\<open>int(math.Sqrt(float64(n)))\<close> is the integer square root for the peer counts that occur.\<close>

definition isqrt :: "nat \<Rightarrow> nat" where
  "isqrt n = length (takeWhile (\<lambda>k. k * k \<le> n) [1..<Suc n])"

definition adjustFanout :: "nat \<Rightarrow> ('p, 'a) GossipEngine \<Rightarrow> ('p, 'a) GossipEngine" where
  "adjustFanout peerCount g =
     (let newFanout = int (isqrt peerCount);
          newFanout = (if newFanout < 3 then 3 else newFanout);
          newFanout = (if 10 < newFanout then 10 else newFanout)
      in g\<lparr>g_fanout := newFanout\<rparr>)"

subsection \<open>Cleanup\<close>

text \<open>The index of the first newest entry: the inner loop.\<close>

function max_index :: "nat \<Rightarrow> nat \<Rightarrow> (string \<times> int) list \<Rightarrow> nat" where
  "max_index i maxIdx oldest =
     (if i < length oldest
      then max_index (i + 1) (if snd (oldest ! maxIdx) < snd (oldest ! i) then i else maxIdx) oldest
      else maxIdx)"
  by pat_completeness auto
termination by (relation "measure (\<lambda>(i, m, xs). length xs - i)") auto

declare max_index.simps [simp del]

fun oldest_entries :: "nat \<Rightarrow> (string \<times> int) list \<Rightarrow> (string \<times> int) list \<Rightarrow> (string \<times> int) list" where
  "oldest_entries excess [] oldest = oldest"
| "oldest_entries excess ((msgID, ts) # es) oldest =
     (if length oldest < excess then oldest_entries excess es (oldest @ [(msgID, ts)])
      else let maxIdx = max_index 1 0 oldest
           in if ts < snd (oldest ! maxIdx)
              then oldest_entries excess es (oldest[maxIdx := (msgID, ts)])
              else oldest_entries excess es oldest)"

fun delete_all :: "(string \<times> int) list \<Rightarrow> (string, int) gomap \<Rightarrow> (string, int) gomap" where
  "delete_all [] m = m"
| "delete_all (e # es) m = delete_all es (fmdrop (fst e) m)"

definition fresh_entries :: "int \<Rightarrow> (string, int) gomap \<Rightarrow> (string, int) gomap" where
  "fresh_entries cutoff m = fmfilter (\<lambda>id. \<not> the (mget m id) < cutoff) m"

text \<open>\<open>visit m\<close> is the order in which a \<open>range\<close> loop visits the map \<open>m\<close>; any order may occur.
  The hard cap, for the order \<open>es\<close> in which the map is visited.\<close>

definition cap_entries :: "nat \<Rightarrow> (string \<times> int) list \<Rightarrow> (string, int) gomap \<Rightarrow> (string, int) gomap" where
  "cap_entries limit es m =
     (if golen m > int limit
      then delete_all (oldest_entries (nat (golen m) - limit) es []) m
      else m)"

definition cleanupExpiredEntries ::
  "((string, int) gomap \<Rightarrow> (string \<times> int) list) \<Rightarrow> int \<Rightarrow> ('p, 'a) GossipEngine \<Rightarrow> ('p, 'a) GossipEngine" where
  "cleanupExpiredEntries visit now g =
     (let cutoff = now - SentMessagesTTL;
          sent = fresh_entries cutoff (g_sentMessages g)
      in g\<lparr>g_sentMessages := cap_entries SentMessagesMaxSize (visit sent) sent,
           g_receivedDigests := fresh_entries cutoff (g_receivedDigests g)\<rparr>)"

definition GetCacheSize :: "('p, 'a) GossipEngine \<Rightarrow> nat" where
  "GetCacheSize g = cache_Size (g_cache g)"

definition gossip_Close :: "('p, 'a) GossipEngine \<Rightarrow> ('p, 'a) GossipEngine" where
  "gossip_Close g = g\<lparr>g_cancelled := True\<rparr>"

section \<open>Random peers\<close>

lemma length_swap [simp]: "length (swap i j xs) = length xs"
  by (simp add: swap_def)

lemma mset_swap' [simp]: "i < length xs \<Longrightarrow> j < length xs \<Longrightarrow> mset (swap i j xs) = mset xs"
  unfolding swap_def by (rule mset_swap)

lemma take_swap [simp]: "k \<le> i \<Longrightarrow> i \<le> j \<Longrightarrow> take k (swap i j xs) = take k xs"
  by (simp add: swap_def)

lemma length_partial_shuffle [simp]: "length (partial_shuffle i k d xs) = length xs"
  by (induction i k d xs rule: partial_shuffle.induct) (simp_all add: Let_def)

lemma draw_bound: "i < n \<Longrightarrow> i + d mod (n - i) < (n::nat)"
  using mod_less_divisor [of "n - i" d] by linarith

lemma mset_partial_shuffle:
  "i + k \<le> length xs \<Longrightarrow> mset (partial_shuffle i k d xs) = mset xs"
proof (induction i k d xs rule: partial_shuffle.induct)
  case (2 i k d xs)
  then show ?case using draw_bound [of i "length xs" "d i"] by (simp add: Let_def)
qed simp

lemma take_partial_shuffle: "j \<le> i \<Longrightarrow> take j (partial_shuffle i k d xs) = take j xs"
  by (induction i k d xs rule: partial_shuffle.induct) (simp_all add: Let_def)

text \<open>The draws from a position on are free.\<close>

lemma partial_shuffle_cong:
  "(\<And>n. i \<le> n \<Longrightarrow> d n = d' n) \<Longrightarrow> partial_shuffle i k d xs = partial_shuffle i k d' xs"
  by (induction i k d xs rule: partial_shuffle.induct) (simp_all add: Let_def)

lemma nth_swap_front: "i < length xs \<Longrightarrow> i \<le> j \<Longrightarrow> j < length xs \<Longrightarrow> swap i j xs ! i = xs ! j"
  by (cases "i = j") (simp_all add: swap_def)

lemma mset_drop_swap:
  assumes "i < length xs" and "i \<le> j" and "j < length xs"
  shows "mset (drop (i + 1) (swap i j xs)) = mset (drop i xs) - {#xs ! j#}"
proof -
  let ?s = "swap i j xs"
  have "mset ?s = mset (take i ?s) + mset (drop i ?s)"
    by (metis append_take_drop_id mset_append)
  moreover have "mset xs = mset (take i xs) + mset (drop i xs)"
    by (metis append_take_drop_id mset_append)
  moreover have "mset ?s = mset xs" and "take i ?s = take i xs"
    using assms by simp_all
  ultimately have "mset (drop i ?s) = mset (drop i xs)" by simp
  moreover have "drop i ?s = xs ! j # drop (i + 1) ?s"
    using assms nth_swap_front [OF assms] by (simp add: Cons_nth_drop_Suc [symmetric])
  ultimately have "add_mset (xs ! j) (mset (drop (i + 1) ?s)) = mset (drop i xs)" by simp
  then show ?thesis by (metis add_mset_remove_trivial)
qed

lemma partial_shuffle_reaches:
  assumes "mset s \<subseteq># mset (drop i xs)"
  shows "\<exists>d. take (length s) (drop i (partial_shuffle i (length s) d xs)) = s"
  using assms
proof (induction s arbitrary: i xs)
  case (Cons p s)
  then have "p \<in># mset (drop i xs)" by (simp add: insert_subset_eq_iff del: set_mset_mset)
  then have "p \<in> set (drop i xs)" by simp
  then obtain l where l: "l < length xs - i" "xs ! (i + l) = p"
    by (auto simp: in_set_conv_nth)
  let ?ys = "swap i (i + l) xs"
  from l have b: "i < length xs" "i + l < length xs" by linarith+
  have "mset s \<subseteq># mset (drop (i + 1) ?ys)"
    using Cons.prems mset_drop_swap [of i xs "i + l"] b l(2) by (simp add: insert_subset_eq_iff)
  then obtain d where d: "take (length s) (drop (i + 1) (partial_shuffle (i + 1) (length s) d ?ys)) = s"
    using Cons.IH [of "i + 1" ?ys] by blast
  let ?r = "partial_shuffle (i + 1) (length s) (d(i := l)) ?ys"
  have r: "?r = partial_shuffle (i + 1) (length s) d ?ys"
    by (rule partial_shuffle_cong) simp
  have "?r ! i = p"
  proof -
    have "take (i + 1) ?r = take (i + 1) ?ys" by (rule take_partial_shuffle) simp
    then have "?r ! i = ?ys ! i" by (metis less_add_one nth_take)
    then show ?thesis using nth_swap_front [of i xs "i + l"] b l(2) by simp
  qed
  moreover have "drop i ?r = ?r ! i # drop (i + 1) ?r"
    using b by (simp add: Cons_nth_drop_Suc)
  ultimately have "take (length (p # s)) (drop i ?r) = p # s"
    using d r by simp
  moreover have "partial_shuffle i (length (p # s)) (d(i := l)) xs = ?r"
    using l(1) by (simp add: Let_def)
  ultimately show ?case by metis
qed simp

lemma selectRandomPeers_sound:
  assumes "n < int (length peers)" and "selectRandomPeers d peers n = Some s"
  shows "0 \<le> n" and "length s = nat n" and "mset s \<subseteq># mset peers"
proof -
  from assms have n: "0 \<le> n" and s: "s = take (nat n) (partial_shuffle 0 (nat n) d peers)"
    by (auto simp: selectRandomPeers_def split: if_splits)
  have "mset s \<subseteq># mset (partial_shuffle 0 (nat n) d peers)"
    unfolding s by (metis append_take_drop_id mset_append mset_subset_eq_add_left)
  also have "\<dots> = mset peers"
    using assms n by (intro mset_partial_shuffle) simp
  finally show "mset s \<subseteq># mset peers" .
  show "0 \<le> n" and "length s = nat n" using s n assms by simp_all
qed

text \<open>
  \<open>selectRandomPeers\<close> returns \<open>n\<close> of the peers, never one of them twice, and every ordered
  choice of \<open>n\<close> peers is its result for some random numbers; there is no result, a panic,
  exactly for a negative \<open>n\<close>. (With at most \<open>n\<close> peers it returns all of them.)
\<close>

theorem selectRandomPeers_choices:
  assumes "n < int (length peers)"
  shows "(\<exists>d. selectRandomPeers d peers n = Some s) \<longleftrightarrow> 0 \<le> n \<and> length s = nat n \<and> mset s \<subseteq># mset peers"
proof
  assume "\<exists>d. selectRandomPeers d peers n = Some s"
  then show "0 \<le> n \<and> length s = nat n \<and> mset s \<subseteq># mset peers"
    using selectRandomPeers_sound [OF assms] by blast
next
  assume "0 \<le> n \<and> length s = nat n \<and> mset s \<subseteq># mset peers"
  then show "\<exists>d. selectRandomPeers d peers n = Some s"
    using partial_shuffle_reaches [of s 0 peers] assms by (auto simp: selectRandomPeers_def)
qed

theorem selectRandomPeers_choices_witness:
  "\<exists>d. selectRandomPeers d [''a'', ''b'', ''c'', ''d''] 2 = Some [''d'', ''b'']"
  using selectRandomPeers_choices [of 2 "[''a'', ''b'', ''c'', ''d'']" "[''d'', ''b'']"] by simp

section \<open>Cleanup keeps the newest entries\<close>

lemma max_index_max:
  assumes "m < i" and "i \<le> length xs" and "\<forall>j < i. snd (xs ! j) \<le> snd (xs ! m)"
  shows "max_index i m xs < length xs \<and> (\<forall>j < length xs. snd (xs ! j) \<le> snd (xs ! max_index i m xs))"
  using assms
proof (induction i m xs rule: max_index.induct)
  case (1 i m xs)
  show ?case
  proof (cases "i < length xs")
    case True
    let ?m = "if snd (xs ! m) < snd (xs ! i) then i else m"
    have "\<forall>j < i + 1. snd (xs ! j) \<le> snd (xs ! ?m)"
      using "1.prems"(3) by (auto simp: less_Suc_eq intro: order_trans less_imp_le)
    with "1.IH" [OF True] True "1.prems"(1) show ?thesis
      by (simp add: max_index.simps [of i])
  next
    case False
    then have "max_index i m xs = m" by (simp add: max_index.simps [of i])
    with "1.prems" False show ?thesis by auto
  qed
qed

text \<open>What the collection of the oldest entries maintains over the entries seen so far.\<close>

definition oldest_inv :: "nat \<Rightarrow> (string \<times> int) list \<Rightarrow> (string \<times> int) list \<Rightarrow> bool" where
  "oldest_inv excess seen old \<longleftrightarrow> set old \<subseteq> set seen \<and> distinct (map fst old) \<and>
     length old = min excess (length seen) \<and>
     (\<forall>e \<in> set old. \<forall>e' \<in> set seen - set old. snd e \<le> snd e')"

lemma distinct_replace:
  assumes "distinct (map fst old)" and "k < length old" and "fst e \<notin> fst ` set old"
  shows "distinct (map fst (old[k := e]))"
  using assms by (simp add: map_update distinct_list_update)

lemma set_replace:
  assumes "distinct (map fst old)" and "k < length old"
  shows "set (old[k := e]) = insert e (set old - {old ! k})"
  using assms by (intro set_update_distinct) (auto simp: distinct_map)

lemma oldest_inv_replace:
  assumes inv: "oldest_inv excess seen old" and full: "\<not> length old < excess" and pos: "0 < excess"
    and new: "fst e \<notin> fst ` set seen" and k: "k < length old" "\<forall>j < length old. snd (old ! j) \<le> snd (old ! k)"
    and less: "snd e < snd (old ! k)"
  shows "oldest_inv excess (seen @ [e]) (old[k := e])"
proof -
  have sub: "set old \<subseteq> set seen" and dk: "distinct (map fst old)"
    and len: "length old = min excess (length seen)"
    and le: "\<And>o1 e1. o1 \<in> set old \<Longrightarrow> e1 \<in> set seen - set old \<Longrightarrow> snd o1 \<le> snd e1"
    using inv by (auto simp: oldest_inv_def)
  have fresh: "fst e \<notin> fst ` set old" using sub new by auto
  have S: "set (old[k := e]) = insert e (set old - {old ! k})" using dk k(1) by (rule set_replace)
  have top: "snd x \<le> snd (old ! k)" if "x \<in> set old" for x
    using that k(2) by (metis in_set_conv_nth)
  have kin: "old ! k \<in> set old" using k(1) by simp
  have order: "snd x \<le> snd y" if "x \<in> set (old[k := e])" and "y \<in> set (seen @ [e]) - set (old[k := e])" for x y
  proof -
    from that(2) S have y: "y = old ! k \<or> y \<in> set seen - set old" by auto
    from that(1) S have x: "x = e \<or> x \<in> set old" by auto
    have "snd (old ! k) \<le> snd y" using y le [OF kin, of y] by blast
    moreover have "snd x \<le> snd (old ! k)" using x top [of x] less by (elim disjE) simp_all
    ultimately show ?thesis by linarith
  qed
  have "length old = min excess (Suc (length seen))" using len full by linarith
  then show ?thesis
    unfolding oldest_inv_def using order S sub distinct_replace [OF dk k(1) fresh] by auto
qed

lemma oldest_entries_inv:
  assumes "oldest_inv excess seen old" and "0 < excess" and "distinct (map fst (seen @ es))"
  shows "oldest_inv excess (seen @ es) (oldest_entries excess es old)"
  using assms
proof (induction es arbitrary: seen old)
  case (Cons e es)
  obtain i t where e: "e = (i, t)" by (cases e)
  have new: "fst e \<notin> fst ` set seen" using Cons.prems(3) by auto
  have step: "oldest_inv excess (seen @ [e]) old' \<Longrightarrow>
      oldest_inv excess (seen @ e # es) (oldest_entries excess es old')" for old'
    using Cons.IH [of "seen @ [e]" old'] Cons.prems(2,3) by simp
  show ?case
  proof (cases "length old < excess")
    case True
    then have l: "length old = length seen" using Cons.prems(1) by (auto simp: oldest_inv_def)
    have "card (set old) = card (set seen)"
      using l Cons.prems(1,3) by (simp add: oldest_inv_def distinct_map distinct_card)
    then have "set old = set seen"
      using Cons.prems(1) by (intro card_subset_eq) (simp_all add: oldest_inv_def)
    then have "oldest_inv excess (seen @ [e]) (old @ [e])"
      using Cons.prems(1) new True l by (auto simp: oldest_inv_def)
    with step True show ?thesis by (simp add: e)
  next
    case False
    let ?k = "max_index 1 0 old"
    have k: "?k < length old" "\<forall>j < length old. snd (old ! j) \<le> snd (old ! ?k)"
      using max_index_max [of 0 1 old] False Cons.prems(2) by auto
    show ?thesis
    proof (cases "t < snd (old ! ?k)")
      case True
      with oldest_inv_replace [OF Cons.prems(1) False Cons.prems(2) new k]
      show ?thesis using step False by (simp add: e Let_def)
    next
      case above: False
      then have "snd x \<le> t" if x: "x \<in> set old" for x
      proof -
        obtain j where "j < length old" and "x = old ! j" using x by (metis in_set_conv_nth)
        then have "snd x \<le> snd (old ! ?k)" using k(2) by simp
        with above show ?thesis by simp
      qed
      moreover have "length old = min excess (Suc (length seen))"
        using Cons.prems(1) False by (auto simp: oldest_inv_def)
      ultimately have "oldest_inv excess (seen @ [e]) old"
        using Cons.prems(1) by (auto simp: oldest_inv_def e)
      with step above False show ?thesis by (simp add: e Let_def)
    qed
  qed
qed simp

lemma mget_delete_all [simp]:
  "mget (delete_all es m) k = (if k \<in> fst ` set es then None else mget m k)"
  by (induction es m rule: delete_all.induct) auto

lemma golen_delete_all:
  "distinct (map fst es) \<Longrightarrow> (\<forall>e \<in> set es. mhas m (fst e)) \<Longrightarrow>
     golen (delete_all es m) = golen m - int (length es)"
proof (induction es arbitrary: m)
  case (Cons e es)
  then have "\<forall>x \<in> set es. mhas (fmdrop (fst e) m) (fst x)" by (auto simp: not_in_image)
  with Cons golen_drop [of "fst e" m] show ?case by simp
qed simp

lemma cap_entries_newest:
  assumes "enumerates es m"
  shows "golen (cap_entries limit es m) = min (golen m) (int limit)"
    and "mget (cap_entries limit es m) k = Some t \<Longrightarrow> mget m k = Some t"
    and "mget m k = Some t \<Longrightarrow> mget (cap_entries limit es m) k = None \<Longrightarrow>
      mget (cap_entries limit es m) k' = Some t' \<Longrightarrow> t \<le> t'"
proof -
  let ?x = "nat (golen m) - limit" and ?old = "oldest_entries (nat (golen m) - limit) es []"
  have d: "distinct (map fst es)" and lk: "\<And>k v. (k, v) \<in> set es \<longleftrightarrow> mget m k = Some v"
    using assms by (auto simp: enumerates_def)
  have inv: "oldest_inv ?x es ?old" if "golen m > int limit"
    using oldest_entries_inv [of ?x "[]" "[]" es] that d by (simp add: oldest_inv_def)
  have old: "mget m (fst e) = Some (snd e)" if "golen m > int limit" and "e \<in> set ?old" for e
    using inv [OF that(1)] that(2) lk [of "fst e" "snd e"] by (auto simp: oldest_inv_def)
  show "golen (cap_entries limit es m) = min (golen m) (int limit)"
  proof (cases "golen m > int limit")
    case True
    have "length es = nat (golen m)" using enumerates_length [OF assms] by linarith
    then have "length ?old = nat (golen m) - limit" using inv [OF True] by (simp add: oldest_inv_def)
    then have "int (length ?old) = golen m - int limit" using True by linarith
    moreover have "golen (delete_all ?old m) = golen m - int (length ?old)"
      using inv [OF True] old [OF True] by (intro golen_delete_all) (auto simp: oldest_inv_def fmlookup_dom_iff)
    ultimately show ?thesis using True by (simp add: cap_entries_def)
  qed (simp add: cap_entries_def)
  show "mget m k = Some t" if "mget (cap_entries limit es m) k = Some t"
    using that by (auto simp: cap_entries_def split: if_splits)
  assume k: "mget m k = Some t" and gone: "mget (cap_entries limit es m) k = None"
    and k': "mget (cap_entries limit es m) k' = Some t'"
  from k gone have big: "golen m > int limit" and "k \<in> fst ` set ?old"
    by (auto simp: cap_entries_def split: if_splits)
  then obtain e where e: "e \<in> set ?old" "fst e = k" by auto
  with old [OF big e(1)] k have "snd e = t" by simp
  moreover have "k' \<notin> fst ` set ?old" and "mget m k' = Some t'"
    using k' big by (auto simp: cap_entries_def split: if_splits)
  then have "(k', t') \<in> set es - set ?old" using lk [of k' t'] by (auto simp: not_in_image)
  ultimately show "t \<le> t'" using inv [OF big] e(1) by (force simp: oldest_inv_def)
qed

lemma mget_fresh_entries: "mget (fresh_entries c m) k = Some t \<longleftrightarrow> mget m k = Some t \<and> c \<le> t"
  by (auto simp: fresh_entries_def)

text \<open>
  Whatever the order in which the map is visited, a cleanup leaves in \<open>sentMessages\<close> only
  entries it held before that are at most \<open>SentMessagesTTL\<close> old, at most
  \<open>SentMessagesMaxSize\<close> of them and all of them when they fit; an entry that is dropped
  although it is not expired is not newer than any that stays.
\<close>

theorem cleanup_keeps_newest:
  assumes "\<And>m. enumerates (visit m) m"
    and "sent = g_sentMessages g" and "sent' = g_sentMessages (cleanupExpiredEntries visit now g)"
  shows "(\<forall>k t. mget sent' k = Some t \<longrightarrow> mget sent k = Some t \<and> now - SentMessagesTTL \<le> t) \<and>
    golen sent' = min (golen (fresh_entries (now - SentMessagesTTL) sent)) (int SentMessagesMaxSize) \<and>
    (\<forall>k t k' t'. mget sent k = Some t \<and> now - SentMessagesTTL \<le> t \<and> mget sent' k = None \<and>
       mget sent' k' = Some t' \<longrightarrow> t \<le> t')"
proof -
  let ?f = "fresh_entries (now - SentMessagesTTL) sent"
  have s': "sent' = cap_entries SentMessagesMaxSize (visit ?f) ?f"
    using assms(2,3) by (simp add: cleanupExpiredEntries_def Let_def)
  note cap = cap_entries_newest [OF assms(1), where limit = SentMessagesMaxSize and m = ?f]
  show ?thesis
    unfolding s' using cap mget_fresh_entries [of "now - SentMessagesTTL" sent] by blast
qed

definition example_engine :: "(string, int) gomap \<Rightarrow> (string, string list) GossipEngine" where
  "example_engine sent = (NewGossipEngine \<lparr>gc_NodeID = ''n'', gc_Fanout = 0\<rparr> [])\<lparr>g_sentMessages := sent\<rparr>"

theorem cleanup_keeps_newest_witness:
  "mget (g_sentMessages (cleanupExpiredEntries entries 700000000000
     (example_engine (fmupd ''a'' 5 (fmupd ''b'' 690000000000 fmempty))))) ''a'' = None"
proof -
  let ?g = "example_engine (fmupd ''a'' 5 (fmupd ''b'' 690000000000 fmempty))"
  let ?sent = "g_sentMessages (cleanupExpiredEntries entries 700000000000 ?g)"
  have "\<forall>t. mget ?sent ''a'' = Some t \<longrightarrow> mget (g_sentMessages ?g) ''a'' = Some t \<and> 100000000000 \<le> t"
    using cleanup_keeps_newest [OF enumerates_entries refl refl, of 700000000000 ?g]
    by (simp add: SentMessagesTTL_def)
  then show ?thesis by (cases "mget ?sent ''a''") (simp_all add: example_engine_def)
qed

section \<open>Deduplication\<close>

text \<open>
  The calls and the turns of the background loops, in any order. A call of \<open>ReceiveMessage\<close> may
  run in one piece or in its three steps, named by a number, with other events between them.
\<close>

datatype 'p gossip_event =
    Received bool Message
  | CheckStep nat Message
  | AddStep nat
  | HandleStep nat bool
  | Published int bool bytes
  | Disseminate bool "nat \<Rightarrow> nat" "'p list"
  | AntiEntropy nat "'p list"
  | AdjustFanout nat
  | Cleanup "(string, int) gomap \<Rightarrow> (string \<times> int) list" int
  | CloseEngine

text \<open>A call that is under way: it has passed the check, or has also inserted its message.\<close>

datatype call = Checked Message | Added Message

type_synonym calls = "(nat, call) gomap"

fun engine_after :: "('p, 'a) GossipEngine gossip_result \<Rightarrow> ('p, 'a) GossipEngine option" where
  "engine_after (Returned g) = Some g"
| "engine_after (ContextErr g) = Some g"
| "engine_after (Blocked g) = Some g"
| "engine_after Panicked = None"

fun gossip_step ::
  "'p gossip_event \<Rightarrow> ('p, 'a) GossipEngine \<times> calls \<Rightarrow> (('p, 'a) GossipEngine \<times> calls) option" where
  "gossip_step (Received b msg) (g, cs) = map_option (\<lambda>g'. (g', cs)) (engine_after (ReceiveMessage b msg g))"
| "gossip_step (CheckStep c msg) (g, cs) =
     map_option (\<lambda>found. (g, if found then cs else fmupd c (Checked msg) cs)) (receive_check msg g)"
| "gossip_step (AddStep c) (g, cs) =
     (case mget cs c of
        Some (Checked msg) \<Rightarrow> map_option (\<lambda>(msg', g'). (g', fmupd c (Added msg') cs)) (receive_add msg g)
      | _ \<Rightarrow> Some (g, cs))"
| "gossip_step (HandleStep c b) (g, cs) =
     (case mget cs c of
        Some (Added msg) \<Rightarrow> map_option (\<lambda>g'. (g', fmdrop c cs)) (engine_after (receive_handle b msg g))
      | _ \<Rightarrow> Some (g, cs))"
| "gossip_step (Published now b payload) (g, cs) = map_option (\<lambda>g'. (g', cs)) (engine_after (Publish now b payload g))"
| "gossip_step (Disseminate b draws peers) (g, cs) =
     map_option (\<lambda>g'. (g', cs)) (engine_after (processMessages_turn b draws peers g))"
| "gossip_step (AntiEntropy draw peers) (g, cs) = Some (performAntiEntropy draw peers g, cs)"
| "gossip_step (AdjustFanout n) (g, cs) = Some (adjustFanout n g, cs)"
| "gossip_step (Cleanup visit now) (g, cs) = Some (cleanupExpiredEntries visit now g, cs)"
| "gossip_step CloseEngine (g, cs) = Some (gossip_Close g, cs)"

fun gossip_run ::
  "'p gossip_event list \<Rightarrow> ('p, 'a) GossipEngine \<times> calls \<Rightarrow> (('p, 'a) GossipEngine \<times> calls) option" where
  "gossip_run [] st = Some st"
| "gossip_run (e # es) st = (case gossip_step e st of None \<Rightarrow> None | Some st' \<Rightarrow> gossip_run es st')"

text \<open>
  What the engine has to deliver, without a cache: the IDs seen so far are a set, and a call
  that finds its ID in it ends. \<open>spec_step\<close> returns the messages handed to the handlers.
\<close>

definition as_delivered :: "string \<Rightarrow> Message \<Rightarrow> Message" where
  "as_delivered node msg = msg\<lparr>m_SeenBy := m_SeenBy msg @ [node], m_TTL := int32 (m_TTL msg - 1)\<rparr>"

lemma as_delivered_ID [simp]: "m_ID (as_delivered node msg) = m_ID msg"
  by (simp add: as_delivered_def)

fun spec_step :: "string \<Rightarrow> 'p gossip_event \<Rightarrow> string set \<times> calls \<Rightarrow> Message list \<times> string set \<times> calls" where
  "spec_step node (Received b msg) (seen, cs) =
     (if m_ID msg \<in> seen then [] else [as_delivered node msg], insert (m_ID msg) seen, cs)"
| "spec_step node (CheckStep c msg) (seen, cs) =
     ([], seen, if m_ID msg \<in> seen then cs else fmupd c (Checked msg) cs)"
| "spec_step node (AddStep c) (seen, cs) =
     (case mget cs c of
        Some (Checked msg) \<Rightarrow> ([], insert (m_ID msg) seen, fmupd c (Added (as_delivered node msg)) cs)
      | _ \<Rightarrow> ([], seen, cs))"
| "spec_step node (HandleStep c b) (seen, cs) =
     (case mget cs c of Some (Added msg) \<Rightarrow> ([msg], seen, fmdrop c cs) | _ \<Rightarrow> ([], seen, cs))"
| "spec_step node (Published now b payload) (seen, cs) = ([], insert (generateMessageID payload) seen, cs)"
| "spec_step node _ st = ([], st)"

fun deliveries :: "string \<Rightarrow> 'p gossip_event list \<Rightarrow> string set \<times> calls \<Rightarrow> Message list" where
  "deliveries node [] st = []"
| "deliveries node (e # es) st = (case spec_step node e st of (ms, st') \<Rightarrow> ms @ deliveries node es st')"

text \<open>
  The receives of an ID that find it unseen: the calls that raced for it. And the messages
  among a list that carry the ID.
\<close>

fun receives :: "string \<Rightarrow> 'p gossip_event \<Rightarrow> bool" where
  "receives i (Received b msg) = (m_ID msg = i)"
| "receives i (CheckStep c msg) = (m_ID msg = i)"
| "receives i _ = False"

fun racing :: "string \<Rightarrow> string \<Rightarrow> 'p gossip_event list \<Rightarrow> string set \<times> calls \<Rightarrow> nat" where
  "racing node i [] st = 0"
| "racing node i (e # es) st =
     (if receives i e \<and> i \<notin> fst st then 1 else 0) + racing node i es (snd (spec_step node e st))"

definition copies :: "string \<Rightarrow> Message list \<Rightarrow> nat" where
  "copies i ms = length (filter (\<lambda>m. m_ID m = i) ms)"

lemma copies_simps [simp]:
  "copies i [] = 0" "copies i (m # ms) = (if m_ID m = i then 1 else 0) + copies i ms"
  "copies i (xs @ ys) = copies i xs + copies i ys"
  by (simp_all add: copies_def)

fun call_ID :: "call \<Rightarrow> string" where
  "call_ID (Checked msg) = m_ID msg"
| "call_ID (Added msg) = m_ID msg"

definition waiting_for :: "string \<Rightarrow> calls \<Rightarrow> nat" where
  "waiting_for i cs = card {c. \<exists>x. mget cs c = Some x \<and> call_ID x = i}"

lemma finite_calls: "finite {c. \<exists>x. mget cs c = Some x \<and> P x}"
  by (rule finite_subset [of _ "fset (fmdom cs)"]) (auto simp: fmlookup_dom_iff)

lemma waiting_for_upd:
  "waiting_for i (fmupd c x cs) \<le> waiting_for i cs + (if call_ID x = i then 1 else 0)"
proof -
  let ?A = "{c. \<exists>y. mget cs c = Some y \<and> call_ID y = i}"
  have "{d. \<exists>y. mget (fmupd c x cs) d = Some y \<and> call_ID y = i} \<subseteq> ?A \<union> (if call_ID x = i then {c} else {})"
    by (auto split: if_splits)
  then have "waiting_for i (fmupd c x cs) \<le> card (?A \<union> (if call_ID x = i then {c} else {}))"
    unfolding waiting_for_def by (intro card_mono) (auto simp: finite_calls)
  also have "\<dots> \<le> waiting_for i cs + (if call_ID x = i then 1 else 0)"
    unfolding waiting_for_def by (cases "call_ID x = i") (auto simp: finite_calls card_insert_if)
  finally show ?thesis .
qed

lemma waiting_for_same:
  assumes "mget cs c = Some x" and "call_ID y = call_ID x"
  shows "waiting_for i (fmupd c y cs) = waiting_for i cs"
  unfolding waiting_for_def using assms by (intro arg_cong [where f = card]) auto

lemma waiting_for_drop:
  assumes "mget cs c = Some x"
  shows "waiting_for i (fmdrop c cs) + (if call_ID x = i then 1 else 0) = waiting_for i cs"
proof -
  let ?A = "{c. \<exists>y. mget cs c = Some y \<and> call_ID y = i}"
  have "{d. \<exists>y. mget (fmdrop c cs) d = Some y \<and> call_ID y = i} = ?A - {c}" by (auto split: if_splits)
  then have w: "waiting_for i (fmdrop c cs) = card (?A - {c})" by (simp add: waiting_for_def)
  show ?thesis
  proof (cases "call_ID x = i")
    case True
    then have "c \<in> ?A" using assms by simp
    with finite_calls have "Suc (card (?A - {c})) = card ?A" by (intro card.remove [symmetric])
    with True w show ?thesis by (simp add: waiting_for_def)
  next
    case False
    then have "?A - {c} = ?A" using assms by auto
    with False w show ?thesis by (simp add: waiting_for_def)
  qed
qed

text \<open>Handlers run at most once for every call that raced for the ID.\<close>

lemma spec_step_potential:
  assumes "spec_step node e st = (ms, st')"
  shows "copies i ms + waiting_for i (snd st') \<le>
    waiting_for i (snd st) + (if receives i e \<and> i \<notin> fst st then 1 else 0)"
proof -
  obtain seen cs where st: "st = (seen, cs)" by force
  show ?thesis
  proof (cases e)
    case (Received b msg)
    with assms st show ?thesis by (auto split: if_splits)
  next
    case (CheckStep c msg)
    with assms st waiting_for_upd [of i c "Checked msg" cs] show ?thesis by (auto split: if_splits)
  next
    case (AddStep c)
    with assms st show ?thesis
      by (auto split: option.splits call.splits simp: waiting_for_same)
  next
    case (HandleStep c b)
    show ?thesis
    proof (cases "mget cs c")
      case (Some x)
      with HandleStep assms st waiting_for_drop [OF Some, of i] show ?thesis by (cases x) auto
    qed (use HandleStep assms st in auto)
  qed (use assms st in auto)
qed

lemma deliveries_bounded:
  "copies i (deliveries node es st) \<le> waiting_for i (snd st) + racing node i es st"
proof (induction es arbitrary: st)
  case (Cons e es)
  obtain ms st' where s: "spec_step node e st = (ms, st')" by (cases "spec_step node e st")
  from spec_step_potential [OF s, of i] Cons.IH [of st'] show ?case by (simp add: s)
qed simp

text \<open>Calls that are not interrupted: the first event with the ID decides.\<close>

fun uninterrupted :: "'p gossip_event \<Rightarrow> bool" where
  "uninterrupted (CheckStep c msg) = False"
| "uninterrupted (AddStep c) = False"
| "uninterrupted (HandleStep c b) = False"
| "uninterrupted _ = True"

fun event_IDs :: "'p gossip_event \<Rightarrow> string set" where
  "event_IDs (Received b msg) = {m_ID msg}"
| "event_IDs (CheckStep c msg) = {m_ID msg}"
| "event_IDs (Published now b payload) = {generateMessageID payload}"
| "event_IDs _ = {}"

definition received_first :: "string \<Rightarrow> 'p gossip_event list \<Rightarrow> bool" where
  "received_first i es = (case find (\<lambda>e. i \<in> event_IDs e) es of None \<Rightarrow> False | Some e \<Rightarrow> receives i e)"

lemma deliveries_seen:
  "\<forall>e \<in> set es. uninterrupted e \<Longrightarrow> i \<in> seen \<Longrightarrow> copies i (deliveries node es (seen, cs)) = 0"
proof (induction es arbitrary: seen)
  case (Cons e es)
  then show ?case by (cases e) auto
qed simp

lemma deliveries_uninterrupted:
  "\<forall>e \<in> set es. uninterrupted e \<Longrightarrow> i \<notin> seen \<Longrightarrow>
     copies i (deliveries node es (seen, cs)) = (if received_first i es then 1 else 0)"
proof (induction es arbitrary: seen)
  case (Cons e es)
  then show ?case
    by (cases e) (auto simp: received_first_def deliveries_seen)
qed (simp add: received_first_def)

definition engine_inv :: "string \<Rightarrow> 'a MessageHandler list \<Rightarrow> string set \<Rightarrow> ('p, 'a) GossipEngine \<Rightarrow> bool" where
  "engine_inv node hs seen g \<longleftrightarrow> mc_ok (g_cache g) \<and> mc_capacity (g_cache g) = MessageCacheSize \<and>
     fst ` set (recency (g_cache g)) = seen \<and> g_nodeID g = node \<and> g_handlers g = hs \<and> 0 \<le> g_fanout g"

lemma keys_touch: "fst ` set (touch k m xs) = insert k (fst ` set xs)"
  by (force simp: touch_def)

lemma finite_keys: "finite (fst ` set xs)" by simp

lemma cache_Add_keys:
  assumes "mc_ok mc" and "card (insert (m_ID msg) (fst ` set (recency mc))) \<le> mc_capacity mc"
  shows "\<exists>mc'. cache_Add msg mc = Some mc' \<and> mc_ok mc' \<and> mc_capacity mc' = mc_capacity mc \<and>
    fst ` set (recency mc') = insert (m_ID msg) (fst ` set (recency mc))"
proof -
  let ?t = "touch (m_ID msg) msg (recency mc)"
  have "length ?t = card (fst ` set ?t)"
    using distinct_touch [OF distinct_recency [OF assms(1)]] by (metis distinct_card length_map list.set_map)
  with assms(2) have "take (mc_capacity mc) ?t = ?t" by (simp add: keys_touch)
  with cache_Add_recency [OF assms(1), of msg] show ?thesis by (auto simp: keys_touch)
qed

lemma update_cached_ok:
  assumes "mc_ok mc"
  shows "mc_ok (update_cached msg mc) \<and> mc_capacity (update_cached msg mc) = mc_capacity mc \<and>
    fst ` set (recency (update_cached msg mc)) = fst ` set (recency mc)"
proof (cases "mget (mc_cache mc) (m_ID msg)")
  case (Some e)
  have k: "map ce_key (set_message e msg xs) = map ce_key xs"
    and l: "map ce_elem (set_message e msg xs) = map ce_elem xs" for xs
    by (auto simp: set_message_def)
  have "mc_ok (mc\<lparr>mc_lru := set_message e msg (mc_lru mc)\<rparr>)"
    using assms by (intro mc_ok_permuted [of mc _ "mc_lru mc"]) (simp_all add: k l mc_ok_def)
  moreover have "fst ` set (recency mc') = set (map ce_key (mc_lru mc'))" for mc'
    by (simp add: recency_def image_image)
  ultimately show ?thesis by (simp add: update_cached_def Some k del: set_map)
qed (simp add: update_cached_def assms)

lemma send_chan_after:
  obtains q where "engine_after (send_chan b msg g) = Some (g\<lparr>g_messageChan := q\<rparr>)"
  by (cases "g_cancelled g \<and> (\<not> length (g_messageChan g) < messageChan_capacity \<or> b)";
      cases "length (g_messageChan g) < messageChan_capacity")
    (auto simp: send_chan_def Let_def intro: that [of "g_messageChan g"] that)

lemma check_result:
  assumes "engine_inv node hs seen g"
  shows "receive_check msg g = Some (m_ID msg \<in> seen)"
  using assms Contains_iff [of "g_cache g" "m_ID msg"] by (simp add: engine_inv_def receive_check_def)

lemma add_result:
  assumes "engine_inv node hs seen g" and "card (insert (m_ID msg) seen) \<le> MessageCacheSize"
  shows "\<exists>g'. receive_add msg g = Some (as_delivered node msg, g') \<and>
    engine_inv node hs (insert (m_ID msg) seen) g' \<and> g_app g' = g_app g"
proof -
  obtain mc where mc: "cache_Add msg (g_cache g) = Some mc" "mc_ok mc" "mc_capacity mc = MessageCacheSize"
    "fst ` set (recency mc) = insert (m_ID msg) seen"
    using cache_Add_keys [of "g_cache g" msg] assms by (auto simp: engine_inv_def)
  with update_cached_ok [OF mc(2), of "as_delivered node msg"] assms(1) show ?thesis
    by (auto simp: receive_add_def as_delivered_def engine_inv_def Let_def)
qed

lemma handle_result:
  assumes "engine_inv node hs seen g"
  shows "\<exists>g'. engine_after (receive_handle b msg g) = Some g' \<and> engine_inv node hs seen g' \<and>
    g_app g' = gossip_handlers hs msg (g_app g)"
proof -
  let ?g = "g\<lparr>g_app := gossip_handlers hs msg (g_app g)\<rparr>"
  obtain q where "engine_after (send_chan b msg ?g) = Some (?g\<lparr>g_messageChan := q\<rparr>)" by (rule send_chan_after)
  with assms show ?thesis by (auto simp: receive_handle_def engine_inv_def Let_def)
qed

lemma Received_step:
  assumes "engine_inv node hs seen g" and "card (insert (m_ID msg) seen) \<le> MessageCacheSize"
  shows "\<exists>g'. engine_after (ReceiveMessage b msg g) = Some g' \<and>
    engine_inv node hs (insert (m_ID msg) seen) g' \<and>
    g_app g' = (if m_ID msg \<in> seen then g_app g else gossip_handlers hs (as_delivered node msg) (g_app g))"
proof (cases "m_ID msg \<in> seen")
  case True
  with check_result [OF assms(1), of msg] assms(1) show ?thesis by (simp add: ReceiveMessage_def insert_absorb)
next
  case False
  obtain g1 where g1: "receive_add msg g = Some (as_delivered node msg, g1)"
    "engine_inv node hs (insert (m_ID msg) seen) g1" "g_app g1 = g_app g"
    using add_result [OF assms] by blast
  with handle_result [OF g1(2), of b "as_delivered node msg"] check_result [OF assms(1), of msg] False
  show ?thesis by (simp add: ReceiveMessage_def)
qed

lemma Published_step:
  assumes "engine_inv node hs seen g"
    and "card (insert (generateMessageID payload) seen) \<le> MessageCacheSize"
  shows "\<exists>g'. engine_after (Publish now b payload g) = Some g' \<and>
    engine_inv node hs (insert (generateMessageID payload) seen) g' \<and> g_app g' = g_app g"
proof -
  let ?m = "\<lparr>m_ID = generateMessageID payload, m_Payload = payload, m_TTL = DefaultTTL,
    m_SeenBy = [g_nodeID g], m_Timestamp = now sdiv 1000000000\<rparr>"
  obtain mc where mc: "cache_Add ?m (g_cache g) = Some mc" "mc_ok mc" "mc_capacity mc = MessageCacheSize"
    "fst ` set (recency mc) = insert (generateMessageID payload) seen"
    using cache_Add_keys [of "g_cache g" ?m] assms by (auto simp: engine_inv_def)
  let ?g = "g\<lparr>g_cache := mc, g_sentMessages := fmupd (generateMessageID payload) now (g_sentMessages g)\<rparr>"
  obtain q where "engine_after (send_chan b ?m ?g) = Some (?g\<lparr>g_messageChan := q\<rparr>)"
    by (rule send_chan_after)
  then show ?thesis using assms(1) mc by (simp add: Publish_def Let_def engine_inv_def)
qed

lemma disseminate_sends:
  assumes "0 \<le> g_fanout g"
  shows "\<exists>sent. disseminateMessage draws peers msg g =
    Returned (g\<lparr>g_sends := g_sends g @ map (\<lambda>p. (p, m_Payload msg)) sent\<rparr>)"
proof (cases "peers = []")
  case True
  have "g = g\<lparr>g_sends := g_sends g @ map (\<lambda>p. (p, m_Payload msg)) []\<rparr>" by simp
  with True show ?thesis unfolding disseminateMessage_def by (metis list.size(3))
next
  case False
  then show ?thesis
    using assms by (auto simp: disseminateMessage_def selectRandomPeers_def serializeMessage_def Let_def)
qed

lemma Disseminate_step:
  assumes "engine_inv node hs seen g"
  shows "\<exists>g'. engine_after (processMessages_turn b draws peers g) = Some g' \<and> engine_inv node hs seen g' \<and>
    g_app g' = g_app g"
proof (cases "g_cancelled g \<and> (g_messageChan g = [] \<or> b) \<or> g_messageChan g = []")
  case False
  then obtain m q where "g_messageChan g = m # q" by (cases "g_messageChan g") auto
  moreover obtain sent where "disseminateMessage draws peers m (g\<lparr>g_messageChan := q\<rparr>) =
      Returned (g\<lparr>g_messageChan := q, g_sends := g_sends g @ map (\<lambda>p. (p, m_Payload m)) sent\<rparr>)"
    using disseminate_sends [of "g\<lparr>g_messageChan := q\<rparr>" draws peers m] assms by (auto simp: engine_inv_def)
  ultimately show ?thesis using False assms by (simp add: processMessages_turn_def engine_inv_def)
qed (use assms in \<open>auto simp: processMessages_turn_def\<close>)

definition call_IDs :: "calls \<Rightarrow> string set" where
  "call_IDs cs = {i. \<exists>c x. mget cs c = Some x \<and> call_ID x = i}"

lemma call_IDs_upd: "call_IDs (fmupd c x cs) \<subseteq> insert (call_ID x) (call_IDs cs)"
  by (auto simp: call_IDs_def split: if_splits)

lemma call_IDs_member: "mget cs c = Some x \<Longrightarrow> call_ID x \<in> call_IDs cs"
  by (auto simp: call_IDs_def)

lemma call_IDs_drop: "call_IDs (fmdrop c cs) \<subseteq> call_IDs cs"
  by (auto simp: call_IDs_def split: if_splits)

lemma gossip_step_inv:
  assumes "engine_inv node hs seen g" and "finite all" and "card all \<le> MessageCacheSize"
    and "seen \<union> call_IDs cs \<union> event_IDs e \<subseteq> all" and "spec_step node e (seen, cs) = (ms, seen', cs')"
  shows "\<exists>g'. gossip_step e (g, cs) = Some (g', cs') \<and> engine_inv node hs seen' g' \<and>
    seen' \<union> call_IDs cs' \<subseteq> all \<and> g_app g' = fold (gossip_handlers hs) ms (g_app g)"
proof -
  have small: "card (insert i seen) \<le> MessageCacheSize" if "i \<in> all" for i
    using assms(2-4) that by (meson card_mono insert_subset le_sup_iff order.trans)
  show ?thesis
  proof (cases e)
    case (Received b msg)
    with Received_step [OF assms(1) small, of msg b] assms(4,5) show ?thesis by auto
  next
    case (CheckStep c msg)
    with check_result [OF assms(1), of msg] assms(1,4,5) call_IDs_upd [of c "Checked msg" cs] show ?thesis by auto
  next
    case (AddStep c)
    show ?thesis
    proof (cases "\<exists>msg. mget cs c = Some (Checked msg)")
      case True
      then obtain msg where c: "mget cs c = Some (Checked msg)" by blast
      then have "m_ID msg \<in> all" using call_IDs_member [OF c] assms(4) by auto
      with add_result [OF assms(1) small, of msg] AddStep c assms(4,5)
        call_IDs_upd [of c "Added (as_delivered node msg)" cs] show ?thesis by auto
    next
      case False
      then have "gossip_step e (g, cs) = Some (g, cs)" and "spec_step node e (seen, cs) = ([], seen, cs)"
        using AddStep by (auto split: option.splits call.splits)
      with assms show ?thesis by simp
    qed
  next
    case (HandleStep c b)
    show ?thesis
    proof (cases "\<exists>msg. mget cs c = Some (Added msg)")
      case True
      then obtain msg where c: "mget cs c = Some (Added msg)" by blast
      with handle_result [OF assms(1), of b msg] HandleStep assms(4,5) call_IDs_drop [of c cs] show ?thesis by auto
    next
      case False
      then have "gossip_step e (g, cs) = Some (g, cs)" and "spec_step node e (seen, cs) = ([], seen, cs)"
        using HandleStep by (auto split: option.splits call.splits)
      with assms show ?thesis by simp
    qed
  next
    case (Published now b payload)
    with Published_step [OF assms(1) small, of payload now b] assms(4,5) show ?thesis by auto
  next
    case (Disseminate b draws peers)
    with Disseminate_step [OF assms(1)] assms(4,5) show ?thesis by auto
  qed (use assms in \<open>auto simp: engine_inv_def performAntiEntropy_def adjustFanout_def
    cleanupExpiredEntries_def gossip_Close_def Let_def\<close>)
qed

lemma gossip_run_inv:
  assumes "engine_inv node hs seen g" and "finite all" and "card all \<le> MessageCacheSize"
    and "seen \<union> call_IDs cs \<union> (\<Union>e \<in> set es. event_IDs e) \<subseteq> all"
  shows "\<exists>g' cs'. gossip_run es (g, cs) = Some (g', cs') \<and>
    g_app g' = fold (gossip_handlers hs) (deliveries node es (seen, cs)) (g_app g)"
  using assms(1,4)
proof (induction es arbitrary: seen cs g)
  case (Cons e es)
  obtain ms seen' cs' where s: "spec_step node e (seen, cs) = (ms, seen', cs')" using prod_cases3 by blast
  obtain g' where g': "gossip_step e (g, cs) = Some (g', cs')" "engine_inv node hs seen' g'"
    "seen' \<union> call_IDs cs' \<subseteq> all" "g_app g' = fold (gossip_handlers hs) ms (g_app g)"
    using gossip_step_inv [OF Cons.prems(1) assms(2,3) _ s] Cons.prems(2) by auto
  with Cons.IH [OF g'(2), of cs'] Cons.prems(2) s show ?case by auto
qed simp

lemma new_engine_inv:
  "0 \<le> gc_Fanout cfg \<Longrightarrow> engine_inv (gc_NodeID cfg) hs {} ((NewGossipEngine cfg a)\<lparr>g_handlers := hs\<rparr>)"
  by (simp add: engine_inv_def NewGossipEngine_def Let_def new_cache_ok MessageCacheSize_def recency_def)
    (simp add: NewMessageCache_def)

lemma new_engine_app [simp]: "g_app (NewGossipEngine cfg a) = a"
  by (simp add: NewGossipEngine_def Let_def)

lemma finite_event_IDs [simp]: "finite (event_IDs e)"
  by (cases e) auto

lemma no_calls [simp]: "call_IDs fmempty = {}" "waiting_for i fmempty = 0"
  by (simp_all add: call_IDs_def waiting_for_def)

text \<open>
  C20: what reaches the handlers of a new engine with any handlers and a fanout that is not
  negative, as long as at most \<open>MessageCacheSize\<close> different message IDs occur, for every
  interleaving of calls, the steps inside \<open>ReceiveMessage\<close> included. No operation panics, and
  the handlers run exactly on the messages \<open>ds\<close> of the specification without a cache, in their
  order, each with the node ID added and the TTL decremented. For every ID they run at most
  as often as calls found it unseen, that is, looked for it before the first call put it
  into the cache; so calls that overlap may each run them, and an ID that was published here
  before is not handled. If calls of \<open>ReceiveMessage\<close> do not overlap, the handlers run exactly
  once for an ID whose first event is a receive, and never for any other ID.
\<close>

theorem each_message_handled_once:
  assumes "0 \<le> gc_Fanout cfg" and "card (\<Union>e \<in> set es. event_IDs e) \<le> MessageCacheSize"
    and "ds = deliveries (gc_NodeID cfg) es ({}, fmempty)"
  shows "(\<exists>g' cs'. gossip_run es ((NewGossipEngine cfg a)\<lparr>g_handlers := hs\<rparr>, fmempty) = Some (g', cs') \<and>
      g_app g' = fold (gossip_handlers hs) ds a) \<and>
    (\<forall>i. copies i ds \<le> racing (gc_NodeID cfg) i es ({}, fmempty)) \<and>
    ((\<forall>e \<in> set es. uninterrupted e) \<longrightarrow> (\<forall>i. copies i ds = (if received_first i es then 1 else 0)))"
proof (intro conjI allI impI)
  show "\<exists>g' cs'. gossip_run es ((NewGossipEngine cfg a)\<lparr>g_handlers := hs\<rparr>, fmempty) = Some (g', cs') \<and>
      g_app g' = fold (gossip_handlers hs) ds a"
    unfolding assms(3) using gossip_run_inv [OF new_engine_inv [OF assms(1), of hs a] _ assms(2), of fmempty es] by simp
  show "copies i ds \<le> racing (gc_NodeID cfg) i es ({}, fmempty)" for i
    using deliveries_bounded [of i "gc_NodeID cfg" es "({}, fmempty)"] by (simp add: assms(3))
  show "copies i ds = (if received_first i es then 1 else 0)" if "\<forall>e \<in> set es. uninterrupted e" for i
    using deliveries_uninterrupted [OF that, of i "{}"] by (simp add: assms(3))
qed

definition logging_handler :: "string list MessageHandler" where
  "logging_handler m log = (None, m_ID m # log)"

definition logging_engine :: "(string, string list) GossipEngine" where
  "logging_engine = (NewGossipEngine \<lparr>gc_NodeID = ''n'', gc_Fanout = 0\<rparr> [])\<lparr>g_handlers := [logging_handler]\<rparr>"

definition sequential_events :: "string gossip_event list" where
  "sequential_events = [Received False (example_message ''a''), CloseEngine, Received True (example_message ''b''),
     AdjustFanout 9, Received False (example_message ''a'')]"

definition racing_events :: "string gossip_event list" where
  "racing_events = [CheckStep 1 (example_message ''a''), CheckStep 2 (example_message ''a''), AddStep 1, AddStep 2,
     HandleStep 2 False, HandleStep 1 False]"

lemma few_event_IDs:
  "card (\<Union>e \<in> set sequential_events. event_IDs e) \<le> MessageCacheSize"
  "card (\<Union>e \<in> set racing_events. event_IDs e) \<le> MessageCacheSize"
  by (simp_all add: sequential_events_def racing_events_def example_message_def MessageCacheSize_def card_insert_if)

theorem each_message_handled_once_witness:
  "\<exists>g' cs'. gossip_run sequential_events (logging_engine, fmempty) = Some (g', cs') \<and> g_app g' = [''b'', ''a'']"
proof -
  have "fold (gossip_handlers [logging_handler]) (deliveries ''n'' sequential_events ({}, fmempty)) [] = [''b'', ''a'']"
    by (simp add: sequential_events_def example_message_def logging_handler_def)
  then show ?thesis
    using each_message_handled_once [OF _ few_event_IDs(1) refl, where cfg = "\<lparr>gc_NodeID = ''n'', gc_Fanout = 0\<rparr>"
        and a = "[]" and hs = "[logging_handler]"]
    unfolding logging_engine_def by simp
qed

text \<open>
  The race is real: two calls that both look into the cache before either inserts its message
  run the handlers twice on one ID.
\<close>

theorem concurrent_receives_handled_twice:
  "\<exists>g' cs'. gossip_run racing_events (logging_engine, fmempty) = Some (g', cs') \<and> g_app g' = [''a'', ''a'']"
proof -
  have inv: "engine_inv ''n'' [logging_handler] {} logging_engine"
    using new_engine_inv [of "\<lparr>gc_NodeID = ''n'', gc_Fanout = 0\<rparr>" "[logging_handler]" "[]"]
    by (simp add: logging_engine_def)
  have "g_app logging_engine = []" by (simp add: logging_engine_def NewGossipEngine_def Let_def)
  moreover have "fold (gossip_handlers [logging_handler]) (deliveries ''n'' racing_events ({}, fmempty)) [] = [''a'', ''a'']"
    by (simp add: racing_events_def example_message_def logging_handler_def)
  ultimately show ?thesis
    using gossip_run_inv [OF inv _ few_event_IDs(2), of fmempty racing_events] by simp
qed

end
