(* ===== verification/Go_Strings.thy ===== *)
theory Go_Strings
  imports Prelude
begin

text \<open>
  The functions of Go's \<open>strings\<close> and \<open>path/filepath\<close> packages that the servers use, on byte
  strings. White space and letter case are those of ASCII: \<open>TrimSpace\<close> and \<open>EqualFold\<close> treat
  other code points differently from Go, and are applied to addresses, origins and keys,
  which are ASCII.
\<close>

section \<open>Definitions\<close>

fun Split :: "char \<Rightarrow> string \<Rightarrow> string list" where
  "Split sep [] = [[]]"
| "Split sep (c # s) = (if c = sep then [] # Split sep s
     else case Split sep s of [] \<Rightarrow> [[c]] | w # ws \<Rightarrow> (c # w) # ws)"

fun Join :: "char \<Rightarrow> string list \<Rightarrow> string" where
  "Join sep [] = []"
| "Join sep [w] = w"
| "Join sep (w # ws) = w @ sep # Join sep ws"

definition is_space :: "char \<Rightarrow> bool" where
  "is_space c \<longleftrightarrow> of_char c \<in> {9, 10, 11, 12, 13, 32 :: nat}"

definition TrimSpace :: "string \<Rightarrow> string" where
  "TrimSpace s = rev (dropWhile is_space (rev (dropWhile is_space s)))"

definition HasPrefix :: "string \<Rightarrow> string \<Rightarrow> bool" where
  "HasPrefix s p \<longleftrightarrow> take (length p) s = p"

definition Contains :: "string \<Rightarrow> string \<Rightarrow> bool" where
  "Contains s sub \<longleftrightarrow> list_ex (\<lambda>i. take (length sub) (drop i s) = sub) [0..<Suc (length s)]"

definition TrimPrefix :: "string \<Rightarrow> string \<Rightarrow> string" where
  "TrimPrefix s p = (if HasPrefix s p then drop (length p) s else s)"

definition TrimSuffix :: "string \<Rightarrow> string \<Rightarrow> string" where
  "TrimSuffix s suf = (if drop (length s - length suf) s = suf then take (length s - length suf) s else s)"

definition fold_char :: "char \<Rightarrow> char" where
  "fold_char c = (let n = of_char c :: nat in if 65 \<le> n \<and> n \<le> 90 then char_of (n + 32) else c)"

definition EqualFold :: "string \<Rightarrow> string \<Rightarrow> bool" where
  "EqualFold s t \<longleftrightarrow> map fold_char s = map fold_char t"

text \<open>\<open>filepath.Clean\<close> on the elements of a path; the stack is reversed.\<close>

fun clean_elems :: "bool \<Rightarrow> string list \<Rightarrow> string list \<Rightarrow> string list" where
  "clean_elems rooted [] st = rev st"
| "clean_elems rooted (e # es) st =
     (if e = '''' \<or> e = ''.'' then clean_elems rooted es st
      else if e = ''..'' then
        (case st of
           [] \<Rightarrow> clean_elems rooted es (if rooted then [] else [''..''])
         | x # xs \<Rightarrow> if x = ''..'' then clean_elems rooted es (''..'' # st) else clean_elems rooted es xs)
      else clean_elems rooted es (e # st))"

definition Clean :: "string \<Rightarrow> string" where
  "Clean path =
     (let rooted = HasPrefix path ''/'';
          s = (if rooted then ''/'' else []) @ Join (CHR ''/'') (clean_elems rooted (Split (CHR ''/'') path) [])
      in if s = [] then ''.'' else s)"

definition path_Join :: "string list \<Rightarrow> string" where
  "path_Join elems =
     (case filter (\<lambda>e. e \<noteq> '''') elems of [] \<Rightarrow> '''' | es \<Rightarrow> Clean (Join (CHR ''/'') es))"

section \<open>Lemmas\<close>

lemma Split_nonempty [simp]: "Split sep s \<noteq> []"
  by (induction s) (auto split: list.splits)

lemma Join_Cons: "ws \<noteq> [] \<Longrightarrow> Join sep (w # ws) = w @ sep # Join sep ws"
  by (cases ws) simp_all

lemma Join_Split [simp]: "Join sep (Split sep s) = s"
proof (induction s)
  case (Cons c s)
  obtain w ws where "Split sep s = w # ws" by (cases "Split sep s") auto
  with Cons show ?case by (cases ws) auto
qed simp

lemma Split_no_sep: "w \<in> set (Split sep s) \<Longrightarrow> sep \<notin> set w"
proof (induction s arbitrary: w)
  case (Cons c s)
  obtain v ws where "Split sep s = v # ws" by (cases "Split sep s") auto
  with Cons show ?case by (auto split: if_splits)
qed simp

lemma HasPrefix_append [simp]: "HasPrefix (p @ s) p"
  by (simp add: HasPrefix_def)

lemma TrimPrefix_append [simp]: "TrimPrefix (p @ s) p = s"
  by (simp add: TrimPrefix_def)

lemma HasPrefix_iff: "HasPrefix s p \<longleftrightarrow> (\<exists>r. s = p @ r)"
  by (metis HasPrefix_append HasPrefix_def append_take_drop_id)

lemma Contains_at: "Contains s sub \<longleftrightarrow> (\<exists>i \<le> length s. take (length sub) (drop i s) = sub)"
  unfolding Contains_def list_ex_iff set_upt by (metis atLeastLessThan_iff less_Suc_eq_le zero_le)

lemma Contains_mid: "Contains s sub \<Longrightarrow> Contains (p @ s @ q) sub"
proof -
  assume "Contains s sub"
  then obtain i where i: "i \<le> length s" "take (length sub) (drop i s) = sub"
    unfolding Contains_at by blast
  have "length (take (length sub) (drop i s)) = length sub" using i(2) by simp
  then have len: "length sub \<le> length (drop i s)" by simp
  have "drop (length p + i) (p @ s @ q) = drop i s @ q" using i(1) by simp
  then have "take (length sub) (drop (length p + i) (p @ s @ q)) = sub" using i(2) len by simp
  moreover have "length p + i \<le> length (p @ s @ q)" using i(1) by simp
  ultimately show ?thesis unfolding Contains_at by blast
qed

lemma EqualFold_refl [simp]: "EqualFold s s"
  by (simp add: EqualFold_def)

end
