(* ===== verification/Api.thy ===== *)
theory Api
  imports Go_Strings Go_Text
begin

text \<open>
  \<open>pkg/api/server.go\<close> and \<open>peers.go\<close>: the HTTP interface of a node. The validator behind it
  is the record \<open>ValidatorInterface\<close> of operations on a state \<open>'v\<close>, as the Go interface of
  that name; \<open>'d\<close> is the type of the values it hands out as JSON. The matching of requests to
  routes is done by the router library and is the parameter \<open>match\<close>, which gets the routes the
  server registered; decoding a JSON body and parsing a URL are parameters too.

  A handler that broadcasts an event waits while the channel of events is full; its result
  is then \<open>None\<close>, and no response was sent.
\<close>

section \<open>Model\<close>

record ('v, 'd) ValidatorInterface =
  vi_ValidateTicket :: "string \<Rightarrow> bytes \<Rightarrow> 'v \<Rightarrow> string option \<times> 'v"
  vi_ConsumeTicket :: "string \<Rightarrow> 'v \<Rightarrow> string option \<times> 'v"
  vi_DisputeTicket :: "string \<Rightarrow> 'v \<Rightarrow> string option \<times> 'v"
  vi_SeedTickets :: "'v \<Rightarrow> (string + int) \<times> 'v"
  vi_GetTicket :: "string \<Rightarrow> 'v \<Rightarrow> string + 'd"
  vi_GetAllTickets :: "'v \<Rightarrow> string + 'd list"
  vi_GetStats :: "'v \<Rightarrow> 'd"
  vi_GetPeers :: "'v \<Rightarrow> string + 'd list"
  vi_GetConfig :: "'v \<Rightarrow> string + 'd"
  vi_GetConsensusLogs :: "'v \<Rightarrow> string + 'd list"
  vi_GetNodeCryptoInfo :: "'v \<Rightarrow> 'd"
  vi_GetStorageEntries :: "'v \<Rightarrow> 'd"

datatype ws_event =
    TicketEvent string string int
  | SeedEvent int int

type_synonym conn = nat

record 'v Server =
  sv_validator :: 'v
  sv_wsClients :: "(conn, unit) gomap"
  sv_broadcast :: "ws_event list"
  sv_cancelled :: bool
  sv_apiKey :: string

datatype 'd resp_data =
    NoData
  | Single 'd
  | Listing "'d list"
  | SeededCount int
  | StatusInfo int int
  | Healthy

record 'd Response =
  rs_Status :: int
  rs_Success :: bool
  rs_Message :: string
  rs_Data :: "'d resp_data"
  rs_Error :: string

record HttpRequest =
  rq_Method :: string
  rq_Path :: string
  rq_Host :: string
  rq_Header :: "string \<Rightarrow> string"
  rq_Body :: bytes

record Decoders =
  dc_validate :: "bytes \<Rightarrow> (string \<times> bytes) option"
  dc_ticket :: "bytes \<Rightarrow> string option"

definition maxRequestBodySize :: nat where "maxRequestBodySize = 2 ^ 20"

definition NewServer :: "string \<Rightarrow> 'v \<Rightarrow> 'v Server" where
  "NewServer apiKey validator =
     \<lparr>sv_validator = validator, sv_wsClients = fmempty, sv_broadcast = [], sv_cancelled = False, sv_apiKey = apiKey\<rparr>"

subsection \<open>Responses\<close>

definition sendSuccess :: "string \<Rightarrow> 'd resp_data \<Rightarrow> 'd Response" where
  "sendSuccess message data =
     \<lparr>rs_Status = 200, rs_Success = True, rs_Message = message, rs_Data = data, rs_Error = ''''\<rparr>"

definition sendError :: "int \<Rightarrow> string \<Rightarrow> 'd Response" where
  "sendError statusCode error =
     \<lparr>rs_Status = statusCode, rs_Success = False, rs_Message = '''', rs_Data = NoData, rs_Error = error\<rparr>"

text \<open>The channel of events holds 100; \<open>Broadcast\<close> drops an event where a handler waits.\<close>

definition broadcast_capacity :: nat where "broadcast_capacity = 100"

definition push_event :: "ws_event \<Rightarrow> 'v Server \<Rightarrow> 'v Server option" where
  "push_event ev s =
     (if length (sv_broadcast s) < broadcast_capacity
      then Some (s\<lparr>sv_broadcast := sv_broadcast s @ [ev]\<rparr>) else None)"

definition api_Broadcast :: "ws_event \<Rightarrow> 'v Server \<Rightarrow> 'v Server" where
  "api_Broadcast ev s = (case push_event ev s of None \<Rightarrow> s | Some s' \<Rightarrow> s')"

definition respond_after :: "ws_event \<Rightarrow> 'd Response \<Rightarrow> 'v Server \<Rightarrow> 'd Response option \<times> 'v Server" where
  "respond_after ev r s = (case push_event ev s of None \<Rightarrow> (None, s) | Some s' \<Rightarrow> (Some r, s'))"

subsection \<open>Handlers\<close>

definition handleValidateTicket ::
  "('v, 'd) ValidatorInterface \<Rightarrow> Decoders \<Rightarrow> int \<Rightarrow> HttpRequest \<Rightarrow> 'v Server \<Rightarrow> 'd Response option \<times> 'v Server" where
  "handleValidateTicket VI DC now r s =
     (case dc_validate DC (take maxRequestBodySize (rq_Body r)) of
        None \<Rightarrow> (Some (sendError 400 ''Invalid request body''), s)
      | Some (ticketID, data) \<Rightarrow>
          if ticketID = '''' then (Some (sendError 400 ''ticket_id is required''), s)
          else case vi_ValidateTicket VI ticketID data (sv_validator s) of
            (Some err, v) \<Rightarrow> (Some (sendError 500 (''Failed to validate ticket: '' @ err)), s\<lparr>sv_validator := v\<rparr>)
          | (None, v) \<Rightarrow>
              respond_after (TicketEvent ''ticket_validated'' ticketID now)
                (sendSuccess ''Ticket validated successfully'' NoData) (s\<lparr>sv_validator := v\<rparr>))"

definition handleConsumeTicket ::
  "('v, 'd) ValidatorInterface \<Rightarrow> Decoders \<Rightarrow> int \<Rightarrow> HttpRequest \<Rightarrow> 'v Server \<Rightarrow> 'd Response option \<times> 'v Server" where
  "handleConsumeTicket VI DC now r s =
     (case dc_ticket DC (take maxRequestBodySize (rq_Body r)) of
        None \<Rightarrow> (Some (sendError 400 ''Invalid request body''), s)
      | Some ticketID \<Rightarrow>
          if ticketID = '''' then (Some (sendError 400 ''ticket_id is required''), s)
          else case vi_ConsumeTicket VI ticketID (sv_validator s) of
            (Some err, v) \<Rightarrow> (Some (sendError 500 (''Failed to consume ticket: '' @ err)), s\<lparr>sv_validator := v\<rparr>)
          | (None, v) \<Rightarrow>
              respond_after (TicketEvent ''ticket_consumed'' ticketID now)
                (sendSuccess ''Ticket consumed successfully'' NoData) (s\<lparr>sv_validator := v\<rparr>))"

definition handleDisputeTicket ::
  "('v, 'd) ValidatorInterface \<Rightarrow> Decoders \<Rightarrow> int \<Rightarrow> HttpRequest \<Rightarrow> 'v Server \<Rightarrow> 'd Response option \<times> 'v Server" where
  "handleDisputeTicket VI DC now r s =
     (case dc_ticket DC (take maxRequestBodySize (rq_Body r)) of
        None \<Rightarrow> (Some (sendError 400 ''Invalid request body''), s)
      | Some ticketID \<Rightarrow>
          if ticketID = '''' then (Some (sendError 400 ''ticket_id is required''), s)
          else case vi_DisputeTicket VI ticketID (sv_validator s) of
            (Some err, v) \<Rightarrow> (Some (sendError 500 (''Failed to dispute ticket: '' @ err)), s\<lparr>sv_validator := v\<rparr>)
          | (None, v) \<Rightarrow>
              respond_after (TicketEvent ''ticket_disputed'' ticketID now)
                (sendSuccess ''Ticket disputed successfully'' NoData) (s\<lparr>sv_validator := v\<rparr>))"

definition handleSeedTickets ::
  "('v, 'd) ValidatorInterface \<Rightarrow> int \<Rightarrow> 'v Server \<Rightarrow> 'd Response option \<times> 'v Server" where
  "handleSeedTickets VI now s =
     (case vi_SeedTickets VI (sv_validator s) of
        (Inl err, v) \<Rightarrow> (Some (sendError 500 (''Failed to seed tickets: '' @ err)), s\<lparr>sv_validator := v\<rparr>)
      | (Inr seeded, v) \<Rightarrow>
          respond_after (SeedEvent seeded now)
            (sendSuccess (''Seeded '' @ FormatInt seeded @ '' tickets'') (SeededCount seeded)) (s\<lparr>sv_validator := v\<rparr>))"

definition handleGetTicket :: "('v, 'd) ValidatorInterface \<Rightarrow> string \<Rightarrow> 'v Server \<Rightarrow> 'd Response" where
  "handleGetTicket VI ticketID s =
     (case vi_GetTicket VI ticketID (sv_validator s) of
        Inl err \<Rightarrow> sendError 404 (''Ticket not found: '' @ err)
      | Inr ticket \<Rightarrow> sendSuccess ''Ticket retrieved successfully'' (Single ticket))"

definition handleGetAllTickets :: "('v, 'd) ValidatorInterface \<Rightarrow> 'v Server \<Rightarrow> 'd Response" where
  "handleGetAllTickets VI s =
     (case vi_GetAllTickets VI (sv_validator s) of
        Inl err \<Rightarrow> sendError 500 (''Failed to retrieve tickets: '' @ err)
      | Inr tickets \<Rightarrow> sendSuccess ''Tickets retrieved successfully'' (Listing tickets))"

definition handleGetStatus :: "int \<Rightarrow> 'v Server \<Rightarrow> 'd Response" where
  "handleGetStatus now s = sendSuccess ''Status retrieved successfully'' (StatusInfo now (golen (sv_wsClients s)))"

definition handleGetStats :: "('v, 'd) ValidatorInterface \<Rightarrow> 'v Server \<Rightarrow> 'd Response" where
  "handleGetStats VI s = sendSuccess ''Stats retrieved successfully'' (Single (vi_GetStats VI (sv_validator s)))"

definition handleGetPeers :: "('v, 'd) ValidatorInterface \<Rightarrow> 'v Server \<Rightarrow> 'd Response" where
  "handleGetPeers VI s =
     (case vi_GetPeers VI (sv_validator s) of
        Inl err \<Rightarrow> sendError 500 (''Failed to get peers: '' @ err)
      | Inr peers \<Rightarrow> sendSuccess ''Peers retrieved successfully'' (Listing peers))"

definition handleGetConfig :: "('v, 'd) ValidatorInterface \<Rightarrow> 'v Server \<Rightarrow> 'd Response" where
  "handleGetConfig VI s =
     (case vi_GetConfig VI (sv_validator s) of
        Inl err \<Rightarrow> sendError 500 (''Failed to get config: '' @ err)
      | Inr config \<Rightarrow> sendSuccess ''Config retrieved successfully'' (Single config))"

definition handleGetConsensusLogs :: "('v, 'd) ValidatorInterface \<Rightarrow> 'v Server \<Rightarrow> 'd Response" where
  "handleGetConsensusLogs VI s =
     (case vi_GetConsensusLogs VI (sv_validator s) of
        Inl err \<Rightarrow> sendError 500 (''Failed to retrieve consensus logs: '' @ err)
      | Inr logs \<Rightarrow> sendSuccess ''Consensus logs retrieved successfully'' (Listing logs))"

definition handleGetNodeCrypto :: "('v, 'd) ValidatorInterface \<Rightarrow> 'v Server \<Rightarrow> 'd Response" where
  "handleGetNodeCrypto VI s =
     sendSuccess ''Node crypto info retrieved successfully'' (Single (vi_GetNodeCryptoInfo VI (sv_validator s)))"

definition handleGetStorageEntries :: "('v, 'd) ValidatorInterface \<Rightarrow> 'v Server \<Rightarrow> 'd Response" where
  "handleGetStorageEntries VI s =
     sendSuccess ''Storage entries retrieved successfully'' (Single (vi_GetStorageEntries VI (sv_validator s)))"

text \<open>The health check writes \<open>{"status": "healthy"}\<close> instead of a \<open>Response\<close>.\<close>

definition handleHealthCheck :: "'d Response" where
  "handleHealthCheck = sendSuccess '''' Healthy"

subsection \<open>Routes\<close>

datatype endpoint =
    EValidate | EConsume | EDispute | ESeed | EGetTicket | EGetAllTickets | EStatus | EStats | EPeers
  | EConfig | EConsensusLogs | ENodeCrypto | EStorageEntries | EHealth | EWebSocket | EStatic

text \<open>
  The routes in the order of registration, with their method (none for all methods) and path
  template; the static files are registered, as a prefix, when their directory exists.
\<close>

definition setupRoutes :: "bool \<Rightarrow> (string option \<times> string \<times> endpoint) list" where
  "setupRoutes staticDir =
     [(Some ''POST'', ''/api/v1/tickets/validate'', EValidate),
      (Some ''POST'', ''/api/v1/tickets/consume'', EConsume),
      (Some ''POST'', ''/api/v1/tickets/dispute'', EDispute),
      (Some ''POST'', ''/api/v1/tickets/seed'', ESeed),
      (Some ''GET'', ''/api/v1/tickets/{id}'', EGetTicket),
      (Some ''GET'', ''/api/v1/tickets'', EGetAllTickets),
      (Some ''GET'', ''/api/v1/status'', EStatus),
      (Some ''GET'', ''/api/v1/stats'', EStats),
      (Some ''GET'', ''/api/v1/peers'', EPeers),
      (Some ''GET'', ''/api/v1/config'', EConfig),
      (Some ''GET'', ''/api/v1/consensus/logs'', EConsensusLogs),
      (Some ''GET'', ''/api/v1/node/crypto'', ENodeCrypto),
      (Some ''GET'', ''/api/v1/storage/entries'', EStorageEntries),
      (Some ''GET'', ''/health'', EHealth),
      (None, ''/ws'', EWebSocket)] @ (if staticDir then [(None, ''/'', EStatic)] else [])"

text \<open>
  \<open>other\<close> answers for the file server and for the upgrader; \<open>upgrade\<close> is the connection of a
  request that the upgrader, which checks the origin, lets through.
\<close>

definition ws_connect :: "conn \<Rightarrow> 'v Server \<Rightarrow> 'v Server" where
  "ws_connect c s = s\<lparr>sv_wsClients := fmupd c () (sv_wsClients s)\<rparr>"

definition handleWebSocket ::
  "(HttpRequest \<Rightarrow> conn option) \<Rightarrow> (HttpRequest \<Rightarrow> 'd Response) \<Rightarrow> HttpRequest \<Rightarrow> 'v Server \<Rightarrow> 'd Response option \<times> 'v Server" where
  "handleWebSocket upgrade other r s =
     (Some (other r), case upgrade r of None \<Rightarrow> s | Some c \<Rightarrow> ws_connect c s)"

definition dispatch ::
  "('v, 'd) ValidatorInterface \<Rightarrow> Decoders \<Rightarrow> int \<Rightarrow> (HttpRequest \<Rightarrow> conn option) \<Rightarrow> (HttpRequest \<Rightarrow> 'd Response) \<Rightarrow> endpoint \<Rightarrow> string \<Rightarrow>
   HttpRequest \<Rightarrow> 'v Server \<Rightarrow> 'd Response option \<times> 'v Server" where
  "dispatch VI DC now upgrade other ep var r s =
     (case ep of
        EValidate \<Rightarrow> handleValidateTicket VI DC now r s
      | EConsume \<Rightarrow> handleConsumeTicket VI DC now r s
      | EDispute \<Rightarrow> handleDisputeTicket VI DC now r s
      | ESeed \<Rightarrow> handleSeedTickets VI now s
      | EGetTicket \<Rightarrow> (Some (handleGetTicket VI var s), s)
      | EGetAllTickets \<Rightarrow> (Some (handleGetAllTickets VI s), s)
      | EStatus \<Rightarrow> (Some (handleGetStatus now s), s)
      | EStats \<Rightarrow> (Some (handleGetStats VI s), s)
      | EPeers \<Rightarrow> (Some (handleGetPeers VI s), s)
      | EConfig \<Rightarrow> (Some (handleGetConfig VI s), s)
      | EConsensusLogs \<Rightarrow> (Some (handleGetConsensusLogs VI s), s)
      | ENodeCrypto \<Rightarrow> (Some (handleGetNodeCrypto VI s), s)
      | EStorageEntries \<Rightarrow> (Some (handleGetStorageEntries VI s), s)
      | EHealth \<Rightarrow> (Some handleHealthCheck, s)
      | EWebSocket \<Rightarrow> handleWebSocket upgrade other r s
      | EStatic \<Rightarrow> (Some (other r), s))"

subsection \<open>Middleware\<close>

definition presented_key :: "HttpRequest \<Rightarrow> string" where
  "presented_key r =
     (let key = rq_Header r ''X-API-Key''
      in if key = '''' then
           let auth = rq_Header r ''Authorization''
           in if HasPrefix auth ''Bearer '' then TrimPrefix auth ''Bearer '' else key
         else key)"

definition api_exempt :: "string \<Rightarrow> bool" where
  "api_exempt path \<longleftrightarrow> path = ''/health'' \<or> path = ''/ws'' \<or> \<not> HasPrefix path ''/api/''"

definition apiKeyMiddleware ::
  "(HttpRequest \<Rightarrow> 'v Server \<Rightarrow> 'd Response option \<times> 'v Server) \<Rightarrow>
   HttpRequest \<Rightarrow> 'v Server \<Rightarrow> 'd Response option \<times> 'v Server" where
  "apiKeyMiddleware next r s =
     (if api_exempt (rq_Path r) then next r s
      else if presented_key r \<noteq> sv_apiKey s then (Some (sendError 401 ''Invalid or missing API key''), s)
      else next r s)"

definition corsMiddleware ::
  "(HttpRequest \<Rightarrow> 'v Server \<Rightarrow> 'd Response option \<times> 'v Server) \<Rightarrow>
   HttpRequest \<Rightarrow> 'v Server \<Rightarrow> 'd Response option \<times> 'v Server" where
  "corsMiddleware next r s =
     (if rq_Method r = ''OPTIONS'' then (Some (sendSuccess '''' NoData), s) else next r s)"

text \<open>
  The router calls the middleware only for a request that matches a route, in the order it
  was added; the API key middleware is added when a key is configured. \<open>match\<close> gives the
  endpoint and the value of the path variable, or \<open>None\<close> for a request without a route.
\<close>

definition ServeHTTP ::
  "((string option \<times> string \<times> endpoint) list \<Rightarrow> string \<Rightarrow> string \<Rightarrow> (endpoint \<times> string) option) \<Rightarrow>
   ('v, 'd) ValidatorInterface \<Rightarrow> Decoders \<Rightarrow> int \<Rightarrow> (HttpRequest \<Rightarrow> conn option) \<Rightarrow> (HttpRequest \<Rightarrow> 'd Response) \<Rightarrow> bool \<Rightarrow>
   HttpRequest \<Rightarrow> 'v Server \<Rightarrow> 'd Response option \<times> 'v Server" where
  "ServeHTTP match VI DC now upgrade other staticDir r s =
     (case match (setupRoutes staticDir) (rq_Method r) (rq_Path r) of
        None \<Rightarrow> (Some (other r), s)
      | Some (ep, var) \<Rightarrow>
          let handler = dispatch VI DC now upgrade other ep var;
              guarded = (if sv_apiKey s \<noteq> '''' then apiKeyMiddleware handler else handler)
          in corsMiddleware guarded r s)"

subsection \<open>WebSocket clients\<close>

text \<open>\<open>parse\<close> gives the host, with port, and the host name of a URL.\<close>

definition checkWSOrigin ::
  "(string \<Rightarrow> (string \<times> string) option) \<Rightarrow> string \<Rightarrow> HttpRequest \<Rightarrow> bool" where
  "checkWSOrigin parse allowed r =
     (let origin = rq_Header r ''Origin''
      in if origin = '''' then True
         else case parse origin of
           None \<Rightarrow> False
         | Some (host, originHost) \<Rightarrow>
             EqualFold host (rq_Host r) \<or>
             originHost = ''localhost'' \<or> originHost = ''127.0.0.1'' \<or> originHost = ''::1'' \<or>
             (allowed \<noteq> '''' \<and>
              list_ex (\<lambda>a. a \<noteq> '''' \<and> EqualFold origin a) (map TrimSpace (Split (CHR '','') allowed))))"

definition ws_disconnect :: "conn \<Rightarrow> 'v Server \<Rightarrow> 'v Server" where
  "ws_disconnect c s = s\<lparr>sv_wsClients := fmdrop c (sv_wsClients s)\<rparr>"

fun write_clients :: "(conn \<Rightarrow> bool) \<Rightarrow> conn list \<Rightarrow> 'v Server \<Rightarrow> conn list \<times> 'v Server" where
  "write_clients fails [] s = ([], s)"
| "write_clients fails (c # cs) s =
     (if fails c then write_clients fails cs (ws_disconnect c s)
      else case write_clients fails cs s of (got, s') \<Rightarrow> (c # got, s'))"

text \<open>
  One turn of \<open>broadcastLoop\<close>: the event taken, the clients it was written to, and the server
  afterwards; \<open>fails\<close> says for which clients the write fails.
\<close>

definition broadcast_turn :: "bool \<Rightarrow> (conn \<Rightarrow> bool) \<Rightarrow> 'v Server \<Rightarrow> (ws_event \<times> conn list) option \<times> 'v Server" where
  "broadcast_turn takeDone fails s =
     (if sv_cancelled s \<and> (sv_broadcast s = [] \<or> takeDone) then (None, s)
      else case sv_broadcast s of
        [] \<Rightarrow> (None, s)
      | msg # q \<Rightarrow>
          (case write_clients fails (keys (sv_wsClients s)) (s\<lparr>sv_broadcast := q\<rparr>) of
             (got, s') \<Rightarrow> (Some (msg, got), s')))"

definition api_Close :: "'v Server \<Rightarrow> 'v Server" where
  "api_Close s = s\<lparr>sv_cancelled := True\<rparr>"

section \<open>Access\<close>

text \<open>
  What the router documents about its matches: the endpoint is that of a registered route whose
  method fits, and a template without a variable matches only itself, prefixes apart.
\<close>

definition router_ok ::
  "((string option \<times> string \<times> endpoint) list \<Rightarrow> string \<Rightarrow> string \<Rightarrow> (endpoint \<times> string) option) \<Rightarrow> bool" where
  "router_ok match \<longleftrightarrow> (\<forall>rs meth path ep var. match rs meth path = Some (ep, var) \<longrightarrow>
     (\<exists>mo t. (mo, t, ep) \<in> set rs \<and> (mo = None \<or> mo = Some meth) \<and>
        (CHR ''{'' \<notin> set t \<longrightarrow> ep \<noteq> EStatic \<longrightarrow> path = t)))"

definition changes_state :: "endpoint \<Rightarrow> bool" where
  "changes_state ep \<longleftrightarrow> ep \<in> {EValidate, EConsume, EDispute, ESeed}"

lemma dispatch_reads: "\<not> changes_state ep \<Longrightarrow> ep \<noteq> EWebSocket \<Longrightarrow> snd (dispatch VI DC now upgrade other ep var r s) = s"
  by (cases ep) (simp_all add: dispatch_def changes_state_def)

lemma changing_route:
  assumes "router_ok match" and "match (setupRoutes st) meth path = Some (ep, var)" and "changes_state ep"
  shows "HasPrefix path ''/api/v1/tickets/'' \<and> \<not> api_exempt path"
proof -
  obtain mo t where t: "(mo, t, ep) \<in> set (setupRoutes st)" and p: "CHR ''{'' \<notin> set t \<longrightarrow> ep \<noteq> EStatic \<longrightarrow> path = t"
    using assms(1,2) unfolding router_ok_def by blast
  have "t \<in> {''/api/v1/tickets/validate'', ''/api/v1/tickets/consume'', ''/api/v1/tickets/dispute'', ''/api/v1/tickets/seed''}"
    using t assms(3) by (auto simp: setupRoutes_def changes_state_def split: if_splits)
  moreover from this have "path = t" using p assms(3) by (auto simp: changes_state_def)
  ultimately show ?thesis by (auto simp: api_exempt_def HasPrefix_def)
qed

lemma websocket_route:
  assumes "router_ok match" and "match (setupRoutes st) meth path = Some (EWebSocket, var)"
  shows "path = ''/ws''"
proof -
  obtain mo t where t: "(mo, t, EWebSocket) \<in> set (setupRoutes st)" and p: "CHR ''{'' \<notin> set t \<longrightarrow> EWebSocket \<noteq> EStatic \<longrightarrow> path = t"
    using assms unfolding router_ok_def by blast
  have "t = ''/ws''" using t by (auto simp: setupRoutes_def split: if_splits)
  with p show ?thesis by simp
qed

lemma websocket_only_clients:
  "handleWebSocket upgrade other r s = (resp, s') \<Longrightarrow> s' = s\<lparr>sv_wsClients := sv_wsClients s'\<rparr>"
  by (auto simp: handleWebSocket_def ws_connect_def split: option.splits)

text \<open>
  C28: with an API key configured, only a request that presents exactly this key, in \<open>X-API-Key\<close>
  or as a bearer token, can change the validator or the event channel: every other request, on
  any path and with any method, leaves them as they are, and it registers a client at most
  where it is for the WebSocket path; where such a request is for a route under \<open>/api/\<close> and
  not a CORS preflight, the answer is 401.
\<close>

theorem api_key_guards_state:
  assumes "router_ok match" and "sv_apiKey s \<noteq> ''''" and "presented_key r \<noteq> sv_apiKey s"
    and "ServeHTTP match VI DC now upgrade other st r s = (resp, s')"
  shows "s' = s\<lparr>sv_wsClients := sv_wsClients s'\<rparr> \<and> (rq_Path r \<noteq> ''/ws'' \<longrightarrow> s' = s) \<and>
    (HasPrefix (rq_Path r) ''/api/'' \<and> rq_Method r \<noteq> ''OPTIONS'' \<and>
       match (setupRoutes st) (rq_Method r) (rq_Path r) \<noteq> None \<longrightarrow>
     resp = Some (sendError 401 ''Invalid or missing API key''))"
proof (cases "match (setupRoutes st) (rq_Method r) (rq_Path r)")
  case None
  with assms(4) show ?thesis by (simp add: ServeHTTP_def)
next
  case (Some ev)
  obtain ep var where ev: "ev = (ep, var)" by (cases ev)
  have serve: "ServeHTTP match VI DC now upgrade other st r s =
      corsMiddleware (apiKeyMiddleware (dispatch VI DC now upgrade other ep var)) r s"
    using Some ev assms(2) by (simp add: ServeHTTP_def)
  have api: "\<not> api_exempt (rq_Path r)" if "HasPrefix (rq_Path r) ''/api/''"
    using that by (auto simp: api_exempt_def HasPrefix_def)
  have ws: "rq_Path r = ''/ws''" if "ep = EWebSocket" using websocket_route [OF assms(1)] Some ev that by blast
  have "\<not> api_exempt (rq_Path r) \<or> \<not> changes_state ep" using changing_route [OF assms(1)] Some ev by blast
  then show ?thesis
    using assms(3,4) dispatch_reads [of ep VI DC now upgrade other var r s] ws api websocket_only_clients [of upgrade other r s] unfolding serve
    by (cases "ep = EWebSocket")
       (auto simp: corsMiddleware_def apiKeyMiddleware_def dispatch_def split: if_splits)
qed

definition literal_match ::
  "(string option \<times> string \<times> endpoint) list \<Rightarrow> string \<Rightarrow> string \<Rightarrow> (endpoint \<times> string) option" where
  "literal_match rs meth path =
     map_option (\<lambda>(mo, t, ep). (ep, '''')) (find (\<lambda>(mo, t, ep). (mo = None \<or> mo = Some meth) \<and> t = path) rs)"

lemma literal_match_ok: "router_ok literal_match"
  unfolding router_ok_def literal_match_def by (auto simp: find_Some_iff dest!: nth_mem; blast)

definition plain_request :: HttpRequest where
  "plain_request = \<lparr>rq_Method = ''POST'', rq_Path = ''/api/v1/tickets/seed'', rq_Host = ''localhost'',
     rq_Header = (\<lambda>h. ''''), rq_Body = ''''\<rparr>"

theorem api_key_guards_state_witness:
  "\<forall>(VI :: (nat, nat) ValidatorInterface) DC other.
     ServeHTTP literal_match VI DC 0 (\<lambda>r. None) other False plain_request (NewServer ''secret'' (7::nat)) =
       (Some (sendError 401 ''Invalid or missing API key''), NewServer ''secret'' 7)"
proof (intro allI)
  fix VI :: "(nat, nat) ValidatorInterface" and DC other
  let ?s = "NewServer ''secret'' (7::nat)"
  obtain resp s' where r: "ServeHTTP literal_match VI DC 0 (\<lambda>r. None) other False plain_request ?s = (resp, s')" by fastforce
  have key: "presented_key plain_request \<noteq> sv_apiKey ?s"
    by (simp add: presented_key_def plain_request_def HasPrefix_def NewServer_def)
  have "literal_match (setupRoutes False) (rq_Method plain_request) (rq_Path plain_request) \<noteq> None"
    by (simp add: literal_match_def setupRoutes_def plain_request_def)
  then show "ServeHTTP literal_match VI DC 0 (\<lambda>r. None) other False plain_request ?s =
      (Some (sendError 401 ''Invalid or missing API key''), ?s)"
    using api_key_guards_state [OF literal_match_ok _ key r] r
    by (simp add: plain_request_def HasPrefix_def NewServer_def)
qed

section \<open>What clients may rely on\<close>

text \<open>
  What happens to a server over time, as far as consuming is concerned: consume requests, each
  with the time it is handled, and in between any other operation of the validator behind it.
  The run returns every consume request with its answer.
\<close>

datatype 'o api_step =
    Consume int HttpRequest
  | Other 'o

fun api_run ::
  "('v, 'd) ValidatorInterface \<Rightarrow> Decoders \<Rightarrow> ('o \<Rightarrow> 'v \<Rightarrow> 'v) \<Rightarrow> 'o api_step list \<Rightarrow> 'v Server \<Rightarrow>
   (HttpRequest \<times> 'd Response option) list \<times> 'v Server" where
  "api_run VI DC act [] s = ([], s)"
| "api_run VI DC act (Consume now r # xs) s =
     (case handleConsumeTicket VI DC now r s of
        (resp, s1) \<Rightarrow> (case api_run VI DC act xs s1 of (resps, s2) \<Rightarrow> ((r, resp) # resps, s2)))"
| "api_run VI DC act (Other x # xs) s = api_run VI DC act xs (s\<lparr>sv_validator := act x (sv_validator s)\<rparr>)"

definition answered_ok :: "Decoders \<Rightarrow> string \<Rightarrow> HttpRequest \<Rightarrow> 'd Response option \<Rightarrow> bool" where
  "answered_ok DC i r resp \<longleftrightarrow> dc_ticket DC (take maxRequestBodySize (rq_Body r)) = Some i \<and>
     (\<exists>x. resp = Some x \<and> rs_Status x = 200)"

definition successes_for :: "Decoders \<Rightarrow> string \<Rightarrow> (HttpRequest \<times> 'd Response option) list \<Rightarrow> nat" where
  "successes_for DC i resps = length (filter (\<lambda>(r, resp). answered_ok DC i r resp) resps)"

lemma successes_for_simps [simp]:
  "successes_for DC i [] = 0"
  "successes_for DC i ((r, resp) # xs) = (if answered_ok DC i r resp then 1 else 0) + successes_for DC i xs"
  by (simp_all add: successes_for_def)

text \<open>
  The contract between the server and the validator behind it: \<open>ok\<close> is the validator's
  invariant, \<open>spent\<close> says that a ticket was consumed and cannot be consumed again, and
  \<open>harmless\<close> are the other operations that never take this back.
\<close>

locale ticket_service =
  fixes VI :: "('v, 'd) ValidatorInterface" and ok :: "'v \<Rightarrow> bool" and spent :: "string \<Rightarrow> 'v \<Rightarrow> bool"
    and act :: "'o \<Rightarrow> 'v \<Rightarrow> 'v" and harmless :: "'o \<Rightarrow> bool"
  assumes consume_keeps: "ok v \<Longrightarrow> vi_ConsumeTicket VI i v = (err, v') \<Longrightarrow> ok v' \<and> (spent j v \<longrightarrow> spent j v')"
    and consume_spends: "ok v \<Longrightarrow> vi_ConsumeTicket VI i v = (None, v') \<Longrightarrow> \<not> spent i v \<and> spent i v'"
    and act_keeps: "ok v \<Longrightarrow> harmless x \<Longrightarrow> ok (act x v) \<and> (spent j v \<longrightarrow> spent j (act x v))"
begin

lemma consume_request:
  assumes "ok (sv_validator s)" and "handleConsumeTicket VI DC now r s = (resp, s')"
  shows "ok (sv_validator s') \<and> (spent i (sv_validator s) \<longrightarrow> spent i (sv_validator s')) \<and>
    (answered_ok DC i r resp \<longrightarrow> \<not> spent i (sv_validator s) \<and> spent i (sv_validator s'))"
proof (cases "dc_ticket DC (take maxRequestBodySize (rq_Body r))")
  case None
  with assms show ?thesis by (auto simp: handleConsumeTicket_def answered_ok_def)
next
  case (Some j)
  obtain err v where v: "vi_ConsumeTicket VI j (sv_validator s) = (err, v)" by fastforce
  note keeps = consume_keeps [OF assms(1) v, of i]
  show ?thesis
  proof (cases "j = '''' \<or> err \<noteq> None")
    case True
    with Some v assms keeps show ?thesis
      by (auto simp: handleConsumeTicket_def answered_ok_def sendError_def split: if_splits)
  next
    case False
    then have none: "err = None" by simp
    have "sv_validator s' = v"
      using False Some v assms(2)
      by (auto simp: handleConsumeTicket_def respond_after_def push_event_def split: option.splits if_splits)
    moreover have "i = j" if "answered_ok DC i r resp" using that Some by (simp add: answered_ok_def)
    moreover note consume_spends [OF assms(1) v [unfolded none]]
    ultimately show ?thesis using keeps by blast
  qed
qed

lemma spent_refused:
  assumes "ok (sv_validator s)" and "\<forall>x. Other x \<in> set xs \<longrightarrow> harmless x"
    and "api_run VI DC act xs s = (resps, s')"
  shows "ok (sv_validator s') \<and> successes_for DC i resps + (if spent i (sv_validator s) then 1 else 0) \<le>
    (if spent i (sv_validator s') then 1 else 0)"
  using assms
proof (induction xs arbitrary: s resps)
  case (Cons x xs)
  show ?case
  proof (cases x)
    case (Consume now r)
    obtain resp s1 where h: "handleConsumeTicket VI DC now r s = (resp, s1)" by fastforce
    obtain rest where rest: "api_run VI DC act xs s1 = (rest, s')" "resps = (r, resp) # rest"
      using Cons.prems(3) Consume h by (auto split: prod.splits)
    note r = consume_request [OF Cons.prems(1) h, of i]
    from Cons.IH [OF _ _ rest(1)] r Cons.prems(2) rest(2) show ?thesis by (auto split: if_splits)
  next
    case (Other y)
    then have "harmless y" using Cons.prems(2) by simp
    from act_keeps [OF Cons.prems(1) this, of i]
      Cons.IH [of "s\<lparr>sv_validator := act y (sv_validator s)\<rparr>" resps] Cons.prems Other
    show ?thesis by (auto split: if_splits)
  qed
qed simp

end

end
