(* ===== verification/Vector_Clock.thy ===== *)
theory Vector_Clock
  imports Go_Text
begin

text \<open>
  \<open>pkg/state/vectorclock.go\<close>: vector clocks as maps from node names to unsigned 64-bit
  counters. \<open>Compare\<close> and \<open>Merge\<close> are the loops of the source over the map entries; the
  theory shows that they compute the pointwise order and the least upper bound, whatever
  order the maps are visited in. The mutexes are not modelled: each method runs under its
  lock. \<open>Copy\<close> and \<open>GetAll\<close> return a fresh map with the same entries, which is the same
  value here.
\<close>

section \<open>Model\<close>

datatype Ordering = Before | After | Equal | Concurrent

record VectorClock =
  vc_nodeID :: string
  vc_clocks :: "(string, uint64) gomap"

definition clock_at :: "(string, uint64) gomap \<Rightarrow> string \<Rightarrow> uint64" where
  "clock_at m k = (case mget m k of None \<Rightarrow> 0 | Some v \<Rightarrow> v)"

definition NewVectorClock :: "string \<Rightarrow> VectorClock" where
  "NewVectorClock nid = \<lparr>vc_nodeID = nid, vc_clocks = fmupd nid 0 fmempty\<rparr>"

definition Increment :: "VectorClock \<Rightarrow> VectorClock" where
  "Increment vc = vc\<lparr>vc_clocks :=
     fmupd (vc_nodeID vc) (clock_at (vc_clocks vc) (vc_nodeID vc) + 1) (vc_clocks vc)\<rparr>"

definition raise_clock :: "string \<Rightarrow> uint64 \<Rightarrow> (string, uint64) gomap \<Rightarrow> (string, uint64) gomap" where
  "raise_clock nid value m =
     (case mget m nid of
        None \<Rightarrow> fmupd nid value m
      | Some current \<Rightarrow> if current < value then fmupd nid value m else m)"

definition Update :: "string \<Rightarrow> uint64 \<Rightarrow> VectorClock \<Rightarrow> VectorClock" where
  "Update nid value vc = vc\<lparr>vc_clocks := raise_clock nid value (vc_clocks vc)\<rparr>"

fun merge_loop :: "(string \<times> uint64) list \<Rightarrow> (string, uint64) gomap \<Rightarrow> (string, uint64) gomap" where
  "merge_loop [] m = m"
| "merge_loop ((nid, otherClock) # es) m = merge_loop es (raise_clock nid otherClock m)"

definition Merge :: "VectorClock \<Rightarrow> VectorClock \<Rightarrow> VectorClock" where
  "Merge other vc = vc\<lparr>vc_clocks := merge_loop (entries (vc_clocks other)) (vc_clocks vc)\<rparr>"

text \<open>
  The two loops of \<open>Compare\<close> carry the flags \<open>lessOrEqual\<close> and \<open>greaterOrEqual\<close>; \<open>None\<close>
  is the early \<open>return Concurrent\<close>.
\<close>

fun compare_own ::
  "(string \<times> uint64) list \<Rightarrow> (string, uint64) gomap \<Rightarrow> bool \<Rightarrow> bool \<Rightarrow> (bool \<times> bool) option" where
  "compare_own [] other le ge = Some (le, ge)"
| "compare_own ((nid, thisClock) # es) other le ge =
     (let otherClock = clock_at other nid;
          ge' = (if thisClock < otherClock then False else ge);
          le' = (if otherClock < thisClock then False else le)
      in if \<not> le' \<and> \<not> ge' then None else compare_own es other le' ge')"

fun compare_rest ::
  "(string \<times> uint64) list \<Rightarrow> (string, uint64) gomap \<Rightarrow> bool \<Rightarrow> bool \<Rightarrow> (bool \<times> bool) option" where
  "compare_rest [] own le ge = Some (le, ge)"
| "compare_rest ((nid, otherClock) # es) own le ge =
     (if mhas own nid then compare_rest es own le ge
      else let ge' = (if 0 < otherClock then False else ge)
           in if \<not> le \<and> \<not> ge' then None else compare_rest es own le ge')"

definition compare_result :: "bool \<Rightarrow> bool \<Rightarrow> Ordering" where
  "compare_result le ge =
     (if le \<and> ge then Equal else if le then Before else if ge then After else Concurrent)"

definition Compare_visiting ::
  "(string \<times> uint64) list \<Rightarrow> (string \<times> uint64) list \<Rightarrow> VectorClock \<Rightarrow> VectorClock \<Rightarrow> Ordering" where
  "Compare_visiting es os vc other =
     (case compare_own es (vc_clocks other) True True of
        None \<Rightarrow> Concurrent
      | Some (le, ge) \<Rightarrow>
          (case compare_rest os (vc_clocks vc) le ge of
             None \<Rightarrow> Concurrent
           | Some (le', ge') \<Rightarrow> compare_result le' ge'))"

definition Compare :: "VectorClock \<Rightarrow> VectorClock \<Rightarrow> Ordering" where
  "Compare vc other =
     Compare_visiting (entries (vc_clocks vc)) (entries (vc_clocks other)) vc other"

definition Get :: "VectorClock \<Rightarrow> string \<Rightarrow> uint64" where
  "Get vc nid = clock_at (vc_clocks vc) nid"

definition GetAll :: "VectorClock \<Rightarrow> (string, uint64) gomap" where
  "GetAll vc = vc_clocks vc"

definition Copy :: "VectorClock \<Rightarrow> VectorClock" where
  "Copy vc = \<lparr>vc_nodeID = vc_nodeID vc, vc_clocks = vc_clocks vc\<rparr>"

text \<open>The verb \<open>%v\<close> prints a map as \<open>map[k:v k:v]\<close> in key order.\<close>

fun show_entries :: "(string \<times> uint64) list \<Rightarrow> string" where
  "show_entries [] = []"
| "show_entries [(k, v)] = k @ '':'' @ dec_nat (unat v)"
| "show_entries ((k, v) # es) = k @ '':'' @ dec_nat (unat v) @ '' '' @ show_entries es"

definition VectorClock_String :: "VectorClock \<Rightarrow> string" where
  "VectorClock_String vc =
     ''VectorClock{node='' @ vc_nodeID vc @ '', clocks=map['' @
     show_entries (entries (vc_clocks vc)) @ '']}''"

definition HappenedBefore :: "VectorClock \<Rightarrow> VectorClock \<Rightarrow> bool" where
  "HappenedBefore vc other \<longleftrightarrow> Compare vc other = Before"

definition HappenedAfter :: "VectorClock \<Rightarrow> VectorClock \<Rightarrow> bool" where
  "HappenedAfter vc other \<longleftrightarrow> Compare vc other = After"

definition IsConcurrent :: "VectorClock \<Rightarrow> VectorClock \<Rightarrow> bool" where
  "IsConcurrent vc other \<longleftrightarrow> Compare vc other = Concurrent"

definition IsEqual :: "VectorClock \<Rightarrow> VectorClock \<Rightarrow> bool" where
  "IsEqual vc other \<longleftrightarrow> Compare vc other = Equal"

definition Size :: "VectorClock \<Rightarrow> int" where
  "Size vc = golen (vc_clocks vc)"

section \<open>The pointwise order\<close>

definition vc_leq :: "VectorClock \<Rightarrow> VectorClock \<Rightarrow> bool" where
  "vc_leq a b \<longleftrightarrow> (\<forall>k. Get a k \<le> Get b k)"

lemma vc_leq_refl [simp]: "vc_leq a a"
  by (simp add: vc_leq_def)

lemma vc_leq_trans: "vc_leq a b \<Longrightarrow> vc_leq b c \<Longrightarrow> vc_leq a c"
  unfolding vc_leq_def using order.trans by blast

lemma Copy_id [simp]: "Copy vc = vc"
  by (simp add: Copy_def)

lemma GetAll_id [simp]: "GetAll vc = vc_clocks vc"
  by (simp add: GetAll_def)

lemma clock_at_empty [simp]: "clock_at fmempty k = 0"
  by (simp add: clock_at_def)

lemma clock_at_upd [simp]: "clock_at (fmupd k v m) k' = (if k = k' then v else clock_at m k')"
  by (simp add: clock_at_def)

lemma Get_New [simp]: "Get (NewVectorClock n) k = 0"
  by (simp add: Get_def NewVectorClock_def)

lemma Get_Increment:
  "Get (Increment vc) k = (if k = vc_nodeID vc then Get vc k + 1 else Get vc k)"
  by (simp add: Get_def Increment_def)

lemma clock_at_raise [simp]:
  "clock_at (raise_clock n v m) k = (if k = n then max (clock_at m k) v else clock_at m k)"
  by (auto simp: raise_clock_def clock_at_def max_def split: option.splits)

lemma Get_Update: "Get (Update n v vc) k = (if k = n then max (Get vc k) v else Get vc k)"
  by (simp add: Get_def Update_def)

lemma fmdom_raise [simp]: "fmdom (raise_clock n v m) = finsert n (fmdom m)"
  by (auto simp: raise_clock_def fmlookup_dom_iff split: option.splits)

section \<open>Merge is the least upper bound\<close>

lemma clock_at_merge_loop_other:
  "k \<notin> fst ` set es \<Longrightarrow> clock_at (merge_loop es m) k = clock_at m k"
  by (induction es m rule: merge_loop.induct) auto

lemma clock_at_merge_loop:
  "distinct (map fst es) \<Longrightarrow> (k, v) \<in> set es \<Longrightarrow>
     clock_at (merge_loop es m) k = max (clock_at m k) v"
proof (induction es m rule: merge_loop.induct)
  case (2 n c es m)
  show ?case
  proof (cases "k = n")
    case True
    with "2.prems" have "k \<notin> fst ` set es" and "v = c" by force+
    with True show ?thesis by (simp add: clock_at_merge_loop_other)
  next
    case False
    with "2.prems" "2.IH" show ?thesis by auto
  qed
qed simp

text \<open>Merging gives the same clock in whatever order \<open>range\<close> visits the other map.\<close>

lemma clock_at_merge_enumerates:
  assumes "enumerates es m'"
  shows "clock_at (merge_loop es m) k = max (clock_at m k) (clock_at m' k)"
proof (cases "mget m' k")
  case None
  then have "k \<notin> fst ` set es" using assms by (fastforce simp: enumerates_def)
  with None show ?thesis by (simp add: clock_at_merge_loop_other clock_at_def [of m'])
next
  case (Some v)
  then have "(k, v) \<in> set es" and "distinct (map fst es)"
    using assms by (auto simp: enumerates_def)
  with Some show ?thesis by (simp add: clock_at_merge_loop clock_at_def [of m'])
qed

lemma Get_Merge: "Get (Merge other vc) k = max (Get vc k) (Get other k)"
  by (simp add: Get_def Merge_def clock_at_merge_enumerates)

lemma fmdom_merge_loop: "fmdom (merge_loop es m) = fmdom m |\<union>| fset_of_list (map fst es)"
  by (induction es m rule: merge_loop.induct) auto

lemma vc_nodeID_simps [simp]:
  "vc_nodeID (Merge other vc) = vc_nodeID vc"
  "vc_nodeID (Increment vc) = vc_nodeID vc"
  "vc_nodeID (Update n v vc) = vc_nodeID vc"
  "vc_nodeID (NewVectorClock n) = n"
  by (simp_all add: Merge_def Increment_def Update_def NewVectorClock_def)

text \<open>
  The contract of a clock that can be merged: an order and a join. The anti-entropy code
  relies on nothing else, so what it needs is proved once here.
\<close>

locale clock_join =
  fixes leq :: "'a \<Rightarrow> 'a \<Rightarrow> bool"
    and join :: "'a \<Rightarrow> 'a \<Rightarrow> 'a"
  assumes leq_refl: "leq a a"
    and leq_trans: "leq a b \<Longrightarrow> leq b c \<Longrightarrow> leq a c"
    and join_own: "leq a (join b a)"
    and join_other: "leq b (join b a)"
    and join_least: "leq a c \<Longrightarrow> leq b c \<Longrightarrow> leq (join b a) c"
begin

lemma join_mono: "leq a a' \<Longrightarrow> leq b b' \<Longrightarrow> leq (join b a) (join b' a')"
  by (meson join_least join_other join_own leq_trans)

lemma join_comm: "leq (join b a) (join a b)"
  by (simp add: join_least join_other join_own)

lemma join_absorb: "leq b a \<Longrightarrow> leq (join b a) a"
  by (simp add: join_least leq_refl)

lemma join_assoc: "leq (join c (join b a)) (join (join c b) a)"
  by (meson join_least join_other join_own leq_trans)

lemma fold_join_own: "leq a (fold join bs a)"
proof (induction bs arbitrary: a)
  case (Cons b bs)
  show ?case using leq_trans [OF join_own Cons.IH, of a b] by simp
qed (simp add: leq_refl)

lemma fold_join_member: "b \<in> set bs \<Longrightarrow> leq b (fold join bs a)"
proof (induction bs arbitrary: a)
  case (Cons x bs)
  show ?case
  proof (cases "b = x")
    case True
    then show ?thesis using leq_trans [OF join_other fold_join_own, of b bs a] by simp
  next
    case False
    with Cons show ?thesis by simp
  qed
qed simp

lemma fold_join_least: "leq a c \<Longrightarrow> (\<And>b. b \<in> set bs \<Longrightarrow> leq b c) \<Longrightarrow> leq (fold join bs a) c"
  by (induction bs arbitrary: a) (simp_all add: join_least)

end

interpretation vcj: clock_join vc_leq Merge
  by unfold_locales (auto simp: vc_leq_def Get_Merge le_max_iff_disj intro: order.trans)

section \<open>Compare decides the order\<close>

lemma compare_own_spec:
  "compare_own es other le ge =
     (let ge' = (ge \<and> (\<forall>(k, c) \<in> set es. clock_at other k \<le> c));
          le' = (le \<and> (\<forall>(k, c) \<in> set es. c \<le> clock_at other k))
      in if es \<noteq> [] \<and> \<not> le' \<and> \<not> ge' then None else Some (le', ge'))"
proof (induction es arbitrary: le ge)
  case (Cons e es)
  obtain n c where e: "e = (n, c)" by force
  show ?case
  proof (cases rule: linorder_cases [of c "clock_at other n"])
    case less
    then have "\<not> clock_at other n \<le> c" and "c \<le> clock_at other n"
      and "\<not> clock_at other n < c" by auto
    with less show ?thesis by (cases "es = []") (simp_all add: e Cons.IH Let_def)
  next
    case equal
    then show ?thesis by (cases "es = []") (auto simp: e Cons.IH Let_def)
  next
    case greater
    then have "clock_at other n \<le> c" and "\<not> c \<le> clock_at other n"
      and "\<not> c < clock_at other n" by auto
    with greater show ?thesis by (cases "es = []") (simp_all add: e Cons.IH Let_def)
  qed
qed simp

lemma compare_rest_spec:
  "le \<or> ge \<Longrightarrow> compare_rest es own le ge =
     (let ge' = (ge \<and> (\<forall>(k, c) \<in> set es. mhas own k \<or> c = 0))
      in if \<not> le \<and> \<not> ge' then None else Some (le, ge'))"
proof (induction es arbitrary: ge)
  case (Cons e es)
  obtain n c where e: "e = (n, c)" by force
  show ?case
  proof (cases "mhas own n \<or> c = 0")
    case True
    then have "compare_rest (e # es) own le ge = compare_rest es own le ge"
      using Cons.prems by (auto simp: e Let_def)
    then show ?thesis
      using True Cons.IH [OF Cons.prems] by (simp add: e Let_def del: compare_rest.simps)
  next
    case False
    then have "0 < c" by (simp add: word_neq_0_conv)
    with False Cons.IH [of False] show ?thesis by (simp add: e Let_def)
  qed
qed (auto simp: Let_def)

lemma enumerates_clock_at:
  "enumerates es m \<Longrightarrow> (k, c) \<in> set es \<Longrightarrow> clock_at m k = c"
  by (simp add: enumerates_def clock_at_def)

lemma clock_at_cases:
  assumes "enumerates es m"
  obtains c where "(k, c) \<in> set es" "clock_at m k = c" | "\<not> mhas m k" "clock_at m k = 0"
proof (cases "mget m k")
  case None
  with that(2) show ?thesis by (simp add: clock_at_def fmlookup_dom_iff)
next
  case (Some c)
  with assms that(1) show ?thesis by (simp add: enumerates_def clock_at_def)
qed

lemma le_on_entries:
  assumes "enumerates es (vc_clocks a)"
  shows "(\<forall>(k, c) \<in> set es. c \<le> clock_at (vc_clocks b) k) \<longleftrightarrow> vc_leq a b"
proof
  assume l: "\<forall>(k, c) \<in> set es. c \<le> clock_at (vc_clocks b) k"
  have "clock_at (vc_clocks a) k \<le> clock_at (vc_clocks b) k" for k
    using assms by (cases rule: clock_at_cases [of _ _ k]) (use l in auto)
  then show "vc_leq a b" by (simp add: vc_leq_def Get_def)
next
  assume "vc_leq a b"
  then show "\<forall>(k, c) \<in> set es. c \<le> clock_at (vc_clocks b) k"
    using enumerates_clock_at [OF assms] by (fastforce simp: vc_leq_def Get_def)
qed

lemma ge_on_entries:
  assumes "enumerates es (vc_clocks a)" and "enumerates os (vc_clocks b)"
  shows "(\<forall>(k, c) \<in> set es. clock_at (vc_clocks b) k \<le> c) \<and>
         (\<forall>(k, c) \<in> set os. mhas (vc_clocks a) k \<or> c = 0) \<longleftrightarrow> vc_leq b a"
proof
  assume l: "(\<forall>(k, c) \<in> set es. clock_at (vc_clocks b) k \<le> c) \<and>
         (\<forall>(k, c) \<in> set os. mhas (vc_clocks a) k \<or> c = 0)"
  have "clock_at (vc_clocks b) k \<le> clock_at (vc_clocks a) k" for k
    using assms(1)
  proof (cases rule: clock_at_cases [of _ _ k])
    case (1 c)
    with l show ?thesis by auto
  next
    case 2
    show ?thesis using assms(2) by (cases rule: clock_at_cases [of _ _ k]) (use l 2 in auto)
  qed
  then show "vc_leq b a" by (simp add: vc_leq_def Get_def)
next
  assume "vc_leq b a"
  then have le: "clock_at (vc_clocks b) k \<le> clock_at (vc_clocks a) k" for k
    by (simp add: vc_leq_def Get_def)
  have "clock_at (vc_clocks b) k \<le> c" if "(k, c) \<in> set es" for k c
    using le [of k] enumerates_clock_at [OF assms(1) that] by simp
  moreover have "mhas (vc_clocks a) k \<or> c = 0" if "(k, c) \<in> set os" for k c
    using le [of k] enumerates_clock_at [OF assms(2) that]
    by (cases "mget (vc_clocks a) k") (auto simp: clock_at_def fmlookup_dom_iff)
  ultimately show "(\<forall>(k, c) \<in> set es. clock_at (vc_clocks b) k \<le> c) \<and>
         (\<forall>(k, c) \<in> set os. mhas (vc_clocks a) k \<or> c = 0)" by blast
qed

lemma Compare_visiting_spec:
  assumes "enumerates es (vc_clocks a)" and "enumerates os (vc_clocks b)"
  shows "Compare_visiting es os a b = compare_result (vc_leq a b) (vc_leq b a)"
proof -
  let ?ge = "\<forall>(k, c) \<in> set es. clock_at (vc_clocks b) k \<le> c"
  let ?rest = "\<forall>(k, c) \<in> set os. mhas (vc_clocks a) k \<or> c = 0"
  have le: "(\<forall>(k, c) \<in> set es. c \<le> clock_at (vc_clocks b) k) \<longleftrightarrow> vc_leq a b"
    using assms(1) by (rule le_on_entries)
  have ge: "?ge \<and> ?rest \<longleftrightarrow> vc_leq b a"
    using assms by (rule ge_on_entries)
  show ?thesis
  proof (cases "vc_leq a b \<or> ?ge")
    case True
    then have "compare_own es (vc_clocks b) True True = Some (vc_leq a b, ?ge)"
      by (auto simp: compare_own_spec le Let_def)
    with True show ?thesis
      unfolding Compare_visiting_def ge [symmetric]
      by (simp add: compare_rest_spec Let_def compare_result_def)
  next
    case False
    have "es \<noteq> []" using False le by auto
    with False have "compare_own es (vc_clocks b) True True = None"
      by (simp add: compare_own_spec le Let_def)
    with False ge show ?thesis by (auto simp: Compare_visiting_def compare_result_def)
  qed
qed

lemma Compare_spec: "Compare a b = compare_result (vc_leq a b) (vc_leq b a)"
  by (simp add: Compare_def Compare_visiting_spec)

lemma Compare_iff:
  "Compare a b = Equal \<longleftrightarrow> vc_leq a b \<and> vc_leq b a"
  "Compare a b = Before \<longleftrightarrow> vc_leq a b \<and> \<not> vc_leq b a"
  "Compare a b = After \<longleftrightarrow> vc_leq b a \<and> \<not> vc_leq a b"
  "Compare a b = Concurrent \<longleftrightarrow> \<not> vc_leq a b \<and> \<not> vc_leq b a"
  by (auto simp: Compare_spec compare_result_def)

section \<open>Properties\<close>

text \<open>
  C14: whatever order the two map iterations take, \<open>Compare\<close> with its early exits answers
  \<open>Before\<close>, \<open>After\<close>, \<open>Equal\<close> or \<open>Concurrent\<close> as the pointwise order of the two clocks does,
  with missing entries read as 0.
\<close>

theorem Compare_decides_causality:
  assumes "enumerates es (vc_clocks a)" and "enumerates os (vc_clocks b)"
  shows "Compare_visiting es os a b =
    (if (\<forall>k. Get a k = Get b k) then Equal
     else if (\<forall>k. Get a k \<le> Get b k) then Before
     else if (\<forall>k. Get b k \<le> Get a k) then After else Concurrent)"
proof -
  have "(\<forall>k. Get a k = Get b k) \<longleftrightarrow> vc_leq a b \<and> vc_leq b a"
    by (auto simp: vc_leq_def intro: order.antisym)
  then show ?thesis
    unfolding Compare_visiting_spec [OF assms] compare_result_def by (auto simp: vc_leq_def)
qed

theorem Compare_decides_causality_witness:
  "Compare_visiting [(''b'', 1), (''a'', 2)] [(''a'', 1), (''b'', 2)]
     \<lparr>vc_nodeID = ''a'', vc_clocks = fmap_of_list [(''a'', 2), (''b'', 1)]\<rparr>
     \<lparr>vc_nodeID = ''b'', vc_clocks = fmap_of_list [(''a'', 1), (''b'', 2)]\<rparr> = Concurrent"
proof -
  let ?a = "\<lparr>vc_nodeID = ''a'', vc_clocks = fmap_of_list [(''a'', 2), (''b'', 1)]\<rparr>"
  let ?b = "\<lparr>vc_nodeID = ''b'', vc_clocks = fmap_of_list [(''a'', 1), (''b'', 2)]\<rparr>"
  have "\<not> Get ?a ''a'' \<le> Get ?b ''a''" and "\<not> Get ?b ''b'' \<le> Get ?a ''b''"
    by (simp_all add: Get_def clock_at_def word_le_nat_alt)
  then have "\<not> (\<forall>k. Get ?a k \<le> Get ?b k)" and "\<not> (\<forall>k. Get ?b k \<le> Get ?a k)"
    and "\<not> (\<forall>k. Get ?a k = Get ?b k)" using order.refl by metis+
  moreover have "enumerates [(''b'', 1), (''a'', 2)] (vc_clocks ?a)"
    and "enumerates [(''a'', 1), (''b'', 2)] (vc_clocks ?b)"
    by (auto simp: enumerates_def split: if_splits)
  ultimately show ?thesis using Compare_decides_causality by presburger
qed

text \<open>
  \<open>Merge\<close> gives the least upper bound of two clocks, in whatever order it visits the
  other clock's entries.
\<close>

theorem Merge_is_lub:
  assumes "enumerates es (vc_clocks other)"
    and "m = vc\<lparr>vc_clocks := merge_loop es (vc_clocks vc)\<rparr>"
  shows "vc_leq vc m \<and> vc_leq other m \<and> (\<forall>b. vc_leq vc b \<and> vc_leq other b \<longrightarrow> vc_leq m b)"
proof -
  have "Get m k = Get (Merge other vc) k" for k
    using clock_at_merge_enumerates [OF assms(1)] by (simp add: assms(2) Get_Merge) (simp add: Get_def)
  then have "vc_leq x m = vc_leq x (Merge other vc)" and "vc_leq m x = vc_leq (Merge other vc) x" for x
    by (simp_all add: vc_leq_def)
  then show ?thesis using vcj.join_own vcj.join_other vcj.join_least by blast
qed

theorem Merge_is_lub_witness:
  "vc_leq (NewVectorClock ''b'') ((NewVectorClock ''a'')\<lparr>vc_clocks :=
     merge_loop [(''b'', 0)] (vc_clocks (NewVectorClock ''a''))\<rparr>)"
proof -
  have "enumerates [(''b'', 0)] (vc_clocks (NewVectorClock ''b''))"
    by (auto simp: enumerates_def NewVectorClock_def split: if_splits)
  from Merge_is_lub [OF this refl] show ?thesis by blast
qed

end
