(* ===== verification/Ticket_State.thy ===== *)
theory Ticket_State
  imports Vector_Clock
begin

text \<open>
  \<open>pkg/state/machine.go\<close>: the ticket state machine of one node and the state notifier.
  The operations run under the machine's mutex, so each is one step on the record
  \<open>StateMachine\<close>. Registered handlers and the gossip publisher are functions on an
  environment \<open>'e\<close> kept in \<open>sm_env\<close>: they may fail, and they may change the environment but
  not the machine, whose lock is held. \<open>time.Now().Unix()\<close> is the argument \<open>now\<close>. A ticket's
  vector clock is an option because the source keeps a pointer; using a nil clock panics,
  which is \<open>None\<close> in the operations that can do so.
\<close>

section \<open>Model\<close>

type_synonym TicketState = string

definition StateIssued :: TicketState where "StateIssued = ''ISSUED''"
definition StatePending :: TicketState where "StatePending = ''PENDING''"
definition StateValidated :: TicketState where "StateValidated = ''VALIDATED''"
definition StateConsumed :: TicketState where "StateConsumed = ''CONSUMED''"
definition StateDisputed :: TicketState where "StateDisputed = ''DISPUTED''"

record Ticket =
  t_ID :: string
  t_State :: TicketState
  t_Data :: bytes
  t_ValidatorID :: string
  t_Timestamp :: int
  t_VectorClock :: "VectorClock option"
  t_Metadata :: "(string, string) gomap"

record StateTransition =
  tr_TicketID :: string
  tr_FromState :: TicketState
  tr_ToState :: TicketState
  tr_ValidatorID :: string
  tr_Timestamp :: int
  tr_VectorClock :: "VectorClock option"

type_synonym 'e StateChangeHandler =
  "Ticket \<Rightarrow> TicketState \<Rightarrow> TicketState \<Rightarrow> 'e \<Rightarrow> string option \<times> 'e"

type_synonym 'e Publisher = "string \<Rightarrow> TicketState \<Rightarrow> string \<Rightarrow> int \<Rightarrow> 'e \<Rightarrow> string option \<times> 'e"

record 'e StateMachine =
  sm_nodeID :: string
  sm_currentState :: "(string, Ticket) gomap"
  sm_transitions :: "StateTransition list"
  sm_vectorClock :: VectorClock
  sm_handlers :: "'e StateChangeHandler list"
  sm_publishUpdate :: "'e Publisher option"
  sm_env :: 'e

datatype sm_error =
    TicketExists string
  | TicketNotFound string
  | AlreadyValidated string
  | AlreadyConsumed string
  | TicketDisputed string
  | CannotValidate string TicketState
  | NotValidated string TicketState
  | HandlerError string

definition NewStateMachine :: "string \<Rightarrow> 'e \<Rightarrow> 'e StateMachine" where
  "NewStateMachine nodeID env =
     \<lparr>sm_nodeID = nodeID, sm_currentState = fmempty, sm_transitions = [],
      sm_vectorClock = NewVectorClock nodeID, sm_handlers = [], sm_publishUpdate = None,
      sm_env = env\<rparr>"

fun copy_loop :: "(string \<times> string) list \<Rightarrow> (string, string) gomap \<Rightarrow> (string, string) gomap" where
  "copy_loop [] c = c"
| "copy_loop ((k, v) # es) c = copy_loop es (fmupd k v c)"

definition copyMetadata :: "(string, string) gomap \<Rightarrow> (string, string) gomap" where
  "copyMetadata metadata = copy_loop (entries metadata) fmempty"

text \<open>The loop over \<open>sm.handlers\<close>, which stops at the first error.\<close>

fun call_handlers ::
  "'e StateChangeHandler list \<Rightarrow> Ticket \<Rightarrow> TicketState \<Rightarrow> TicketState \<Rightarrow> 'e \<Rightarrow> string option \<times> 'e" where
  "call_handlers [] t old new e = (None, e)"
| "call_handlers (h # hs) t old new e =
     (case h t old new e of
        (Some err, e') \<Rightarrow> (Some err, e')
      | (None, e') \<Rightarrow> call_handlers hs t old new e')"

text \<open>The call of \<open>sm.publishUpdate\<close>: its error is only logged.\<close>

definition publish ::
  "'e Publisher option \<Rightarrow> string \<Rightarrow> TicketState \<Rightarrow> string \<Rightarrow> int \<Rightarrow> 'e \<Rightarrow> 'e" where
  "publish p ticketID state validatorID ts e =
     (case p of None \<Rightarrow> e | Some f \<Rightarrow> snd (f ticketID state validatorID ts e))"

text \<open>
  The common tail of \<open>ValidateTicket\<close>, \<open>ConsumeTicket\<close> and \<open>DisputeTicket\<close>: the handlers,
  then the publisher. The machine keeps its changes when a handler fails.
\<close>

definition notify_and_publish ::
  "string \<Rightarrow> Ticket \<Rightarrow> TicketState \<Rightarrow> TicketState \<Rightarrow> string \<Rightarrow> 'e StateMachine \<Rightarrow>
     sm_error option \<times> 'e StateMachine" where
  "notify_and_publish ticketID ticket oldState newState validatorID sm =
     (case call_handlers (sm_handlers sm) ticket oldState newState (sm_env sm) of
        (Some err, e) \<Rightarrow> (Some (HandlerError err), sm\<lparr>sm_env := e\<rparr>)
      | (None, e) \<Rightarrow>
          (None, sm\<lparr>sm_env := publish (sm_publishUpdate sm) ticketID newState validatorID
                                (t_Timestamp ticket) e\<rparr>))"

definition IssueTicket ::
  "int \<Rightarrow> string \<Rightarrow> bytes \<Rightarrow> 'e StateMachine \<Rightarrow> sm_error option \<times> 'e StateMachine" where
  "IssueTicket now ticketID data sm =
     (if mhas (sm_currentState sm) ticketID then (Some (TicketExists ticketID), sm)
      else let ticket = \<lparr>t_ID = ticketID, t_State = StateIssued, t_Data = data, t_ValidatorID = '''',
                         t_Timestamp = now, t_VectorClock = Some (Copy (sm_vectorClock sm)),
                         t_Metadata = fmempty\<rparr>
           in (None, sm\<lparr>sm_currentState := fmupd ticketID ticket (sm_currentState sm)\<rparr>))"

fun seed_loop :: "Ticket list \<Rightarrow> int \<Rightarrow> 'e StateMachine \<Rightarrow> int \<times> 'e StateMachine" where
  "seed_loop [] seeded sm = (seeded, sm)"
| "seed_loop (t # ts) seeded sm =
     (if mhas (sm_currentState sm) (t_ID t) then seed_loop ts seeded sm
      else seed_loop ts (seeded + 1)
             (sm\<lparr>sm_currentState := fmupd (t_ID t)
                  \<lparr>t_ID = t_ID t, t_State = StateIssued, t_Data = t_Data t, t_ValidatorID = '''',
                   t_Timestamp = t_Timestamp t, t_VectorClock = Some (Copy (sm_vectorClock sm)),
                   t_Metadata = copyMetadata (t_Metadata t)\<rparr> (sm_currentState sm)\<rparr>))"

definition SeedTickets :: "Ticket list \<Rightarrow> 'e StateMachine \<Rightarrow> int \<times> 'e StateMachine" where
  "SeedTickets tickets sm = seed_loop tickets 0 sm"

definition ValidateTicket ::
  "int \<Rightarrow> string \<Rightarrow> string \<Rightarrow> bytes \<Rightarrow> 'e StateMachine \<Rightarrow> sm_error option \<times> 'e StateMachine" where
  "ValidateTicket now ticketID validatorID data sm =
     (case mget (sm_currentState sm) ticketID of
        None \<Rightarrow> (Some (TicketNotFound ticketID), sm)
      | Some ticket \<Rightarrow>
          if t_State ticket = StateIssued then
            let oldState = t_State ticket;
                vc = Increment (sm_vectorClock sm);
                ticket' = ticket\<lparr>t_State := StateValidated, t_ValidatorID := validatorID,
                                 t_Timestamp := now, t_VectorClock := Some (Copy vc)\<rparr>;
                transition = \<lparr>tr_TicketID = ticketID, tr_FromState = oldState,
                              tr_ToState = StateValidated, tr_ValidatorID = validatorID,
                              tr_Timestamp = t_Timestamp ticket', tr_VectorClock = Some (Copy vc)\<rparr>;
                sm' = sm\<lparr>sm_currentState := fmupd ticketID ticket' (sm_currentState sm),
                         sm_vectorClock := vc,
                         sm_transitions := sm_transitions sm @ [transition]\<rparr>
            in notify_and_publish ticketID ticket' oldState StateValidated validatorID sm'
          else if t_State ticket = StateValidated then (Some (AlreadyValidated ticketID), sm)
          else if t_State ticket = StateConsumed then (Some (AlreadyConsumed ticketID), sm)
          else if t_State ticket = StateDisputed then (Some (TicketDisputed ticketID), sm)
          else (Some (CannotValidate ticketID (t_State ticket)), sm))"

definition ConsumeTicket ::
  "int \<Rightarrow> string \<Rightarrow> string \<Rightarrow> 'e StateMachine \<Rightarrow> sm_error option \<times> 'e StateMachine" where
  "ConsumeTicket now ticketID validatorID sm =
     (case mget (sm_currentState sm) ticketID of
        None \<Rightarrow> (Some (TicketNotFound ticketID), sm)
      | Some ticket \<Rightarrow>
          if t_State ticket \<noteq> StateValidated
          then (Some (NotValidated ticketID (t_State ticket)), sm)
          else
            let oldState = t_State ticket;
                vc = Increment (sm_vectorClock sm);
                ticket' = ticket\<lparr>t_State := StateConsumed, t_Timestamp := now,
                                 t_VectorClock := Some (Copy vc)\<rparr>;
                transition = \<lparr>tr_TicketID = ticketID, tr_FromState = oldState,
                              tr_ToState = StateConsumed, tr_ValidatorID = validatorID,
                              tr_Timestamp = t_Timestamp ticket', tr_VectorClock = Some (Copy vc)\<rparr>;
                sm' = sm\<lparr>sm_currentState := fmupd ticketID ticket' (sm_currentState sm),
                         sm_vectorClock := vc,
                         sm_transitions := sm_transitions sm @ [transition]\<rparr>
            in notify_and_publish ticketID ticket' oldState StateConsumed validatorID sm')"

definition DisputeTicket ::
  "int \<Rightarrow> string \<Rightarrow> string \<Rightarrow> 'e StateMachine \<Rightarrow> sm_error option \<times> 'e StateMachine" where
  "DisputeTicket now ticketID validatorID sm =
     (case mget (sm_currentState sm) ticketID of
        None \<Rightarrow> (Some (TicketNotFound ticketID), sm)
      | Some ticket \<Rightarrow>
          let oldState = t_State ticket;
              vc = Increment (sm_vectorClock sm);
              ticket' = ticket\<lparr>t_State := StateDisputed, t_Timestamp := now,
                               t_VectorClock := Some (Copy vc)\<rparr>;
              transition = \<lparr>tr_TicketID = ticketID, tr_FromState = oldState,
                            tr_ToState = StateDisputed, tr_ValidatorID = validatorID,
                            tr_Timestamp = t_Timestamp ticket', tr_VectorClock = Some (Copy vc)\<rparr>;
              sm' = sm\<lparr>sm_currentState := fmupd ticketID ticket' (sm_currentState sm),
                       sm_vectorClock := vc,
                       sm_transitions := sm_transitions sm @ [transition]\<rparr>
          in notify_and_publish ticketID ticket' oldState StateDisputed validatorID sm')"

text \<open>\<open>GetTicket\<close> and \<open>GetAllTickets\<close> copy the clock, which panics on a nil clock.\<close>

definition copy_ticket :: "Ticket \<Rightarrow> Ticket option" where
  "copy_ticket ticket =
     (case t_VectorClock ticket of
        None \<Rightarrow> None
      | Some vc \<Rightarrow> Some \<lparr>t_ID = t_ID ticket, t_State = t_State ticket, t_Data = t_Data ticket,
                        t_ValidatorID = t_ValidatorID ticket, t_Timestamp = t_Timestamp ticket,
                        t_VectorClock = Some (Copy vc), t_Metadata = copyMetadata (t_Metadata ticket)\<rparr>)"

definition GetTicket :: "string \<Rightarrow> 'e StateMachine \<Rightarrow> (sm_error + Ticket) option" where
  "GetTicket ticketID sm =
     (case mget (sm_currentState sm) ticketID of
        None \<Rightarrow> Some (Inl (TicketNotFound ticketID))
      | Some ticket \<Rightarrow> map_option Inr (copy_ticket ticket))"

fun copy_tickets :: "(string \<times> Ticket) list \<Rightarrow> Ticket list option" where
  "copy_tickets [] = Some []"
| "copy_tickets ((k, t) # es) =
     (case copy_ticket t of
        None \<Rightarrow> None
      | Some c \<Rightarrow> map_option ((#) c) (copy_tickets es))"

definition GetAllTickets :: "'e StateMachine \<Rightarrow> Ticket list option" where
  "GetAllTickets sm = copy_tickets (entries (sm_currentState sm))"

definition GetTransitions :: "'e StateMachine \<Rightarrow> StateTransition list" where
  "GetTransitions sm = sm_transitions sm"

text \<open>
  The body of the first loop of \<open>MergeState\<close> for a ticket that is present, and the loop.
\<close>

definition adopt :: "Ticket \<Rightarrow> VectorClock \<Rightarrow> Ticket \<Rightarrow> Ticket" where
  "adopt remoteTicket rvc localTicket =
     localTicket\<lparr>t_State := t_State remoteTicket, t_ValidatorID := t_ValidatorID remoteTicket,
                 t_Timestamp := t_Timestamp remoteTicket, t_VectorClock := Some (Copy rvc)\<rparr>"

definition resolve :: "Ticket \<Rightarrow> Ticket \<Rightarrow> Ticket option" where
  "resolve remoteTicket localTicket =
     (case (t_VectorClock localTicket, t_VectorClock remoteTicket) of
        (Some lvc, Some rvc) \<Rightarrow>
          Some (case Compare lvc rvc of
                  Concurrent \<Rightarrow>
                    if t_Timestamp localTicket < t_Timestamp remoteTicket
                    then adopt remoteTicket rvc localTicket else localTicket
                | Before \<Rightarrow> adopt remoteTicket rvc localTicket
                | After \<Rightarrow> localTicket
                | Equal \<Rightarrow> localTicket)
      | _ \<Rightarrow> None)"

definition merge_ticket :: "Ticket \<Rightarrow> (string, Ticket) gomap \<Rightarrow> (string, Ticket) gomap option" where
  "merge_ticket remoteTicket m =
     (case mget m (t_ID remoteTicket) of
        None \<Rightarrow> map_option (\<lambda>t. fmupd (t_ID remoteTicket) t m) (copy_ticket remoteTicket)
      | Some localTicket \<Rightarrow>
          map_option (\<lambda>t. fmupd (t_ID remoteTicket) t m) (resolve remoteTicket localTicket))"

fun merge_tickets :: "Ticket list \<Rightarrow> (string, Ticket) gomap \<Rightarrow> (string, Ticket) gomap option" where
  "merge_tickets [] m = Some m"
| "merge_tickets (t # ts) m =
     (case merge_ticket t m of None \<Rightarrow> None | Some m' \<Rightarrow> merge_tickets ts m')"

fun merge_clocks :: "Ticket list \<Rightarrow> VectorClock \<Rightarrow> VectorClock option" where
  "merge_clocks [] vc = Some vc"
| "merge_clocks (t # ts) vc =
     (case t_VectorClock t of None \<Rightarrow> None | Some rvc \<Rightarrow> merge_clocks ts (Merge rvc vc))"

definition MergeState :: "Ticket list \<Rightarrow> 'e StateMachine \<Rightarrow> 'e StateMachine option" where
  "MergeState tickets sm =
     (case merge_tickets tickets (sm_currentState sm) of
        None \<Rightarrow> None
      | Some m \<Rightarrow>
          (case merge_clocks tickets (sm_vectorClock sm) of
             None \<Rightarrow> None
           | Some vc \<Rightarrow> Some (sm\<lparr>sm_currentState := m, sm_vectorClock := vc\<rparr>)))"

definition RegisterHandler :: "'e StateChangeHandler \<Rightarrow> 'e StateMachine \<Rightarrow> 'e StateMachine" where
  "RegisterHandler handler sm = sm\<lparr>sm_handlers := sm_handlers sm @ [handler]\<rparr>"

definition RegisterPublisher :: "'e Publisher option \<Rightarrow> 'e StateMachine \<Rightarrow> 'e StateMachine" where
  "RegisterPublisher publisher sm = sm\<lparr>sm_publishUpdate := publisher\<rparr>"

definition GetVectorClock :: "'e StateMachine \<Rightarrow> VectorClock" where
  "GetVectorClock sm = Copy (sm_vectorClock sm)"

definition HasTicket :: "string \<Rightarrow> 'e StateMachine \<Rightarrow> bool" where
  "HasTicket ticketID sm \<longleftrightarrow> mhas (sm_currentState sm) ticketID"

definition SyncTicket ::
  "int \<Rightarrow> string \<Rightarrow> string \<Rightarrow> bytes \<Rightarrow> 'e StateMachine \<Rightarrow> sm_error option \<times> 'e StateMachine" where
  "SyncTicket now ticketID validatorID data sm =
     (if mhas (sm_currentState sm) ticketID then (Some (TicketExists ticketID), sm)
      else
        let ticket = \<lparr>t_ID = ticketID, t_State = StateValidated, t_Data = data,
                      t_ValidatorID = validatorID, t_Timestamp = now,
                      t_VectorClock = Some (Copy (sm_vectorClock sm)),
                      t_Metadata = fmupd ''synced_from'' validatorID (fmupd ''synced'' ''true'' fmempty)\<rparr>;
            transition = \<lparr>tr_TicketID = ticketID, tr_FromState = StateIssued,
                          tr_ToState = StateValidated, tr_ValidatorID = validatorID,
                          tr_Timestamp = t_Timestamp ticket, tr_VectorClock = None\<rparr>;
            sm' = sm\<lparr>sm_currentState := fmupd ticketID ticket (sm_currentState sm),
                     sm_transitions := sm_transitions sm @ [transition]\<rparr>
        in case call_handlers (sm_handlers sm') ticket StateIssued StateValidated (sm_env sm') of
             (Some err, e) \<Rightarrow> (Some (HandlerError err), sm'\<lparr>sm_env := e\<rparr>)
           | (None, e) \<Rightarrow> (None, sm'\<lparr>sm_env := e\<rparr>))"

subsection \<open>The state notifier\<close>

text \<open>
  Channels have identity, so they are numbers into a store of buffers of capacity 1.
\<close>

record StateNotifier =
  sn_subscribers :: "(string, nat list) gomap"
  sn_chans :: "(nat, TicketState list) gomap"
  sn_next :: nat

definition NewStateNotifier :: StateNotifier where
  "NewStateNotifier = \<lparr>sn_subscribers = fmempty, sn_chans = fmempty, sn_next = 0\<rparr>"

definition subs_of :: "string \<Rightarrow> StateNotifier \<Rightarrow> nat list" where
  "subs_of ticketID sn = (case mget (sn_subscribers sn) ticketID of None \<Rightarrow> [] | Some cs \<Rightarrow> cs)"

definition Subscribe :: "string \<Rightarrow> StateNotifier \<Rightarrow> nat \<times> StateNotifier" where
  "Subscribe ticketID sn =
     (let ch = sn_next sn
      in (ch, sn\<lparr>sn_chans := fmupd ch [] (sn_chans sn), sn_next := ch + 1,
                sn_subscribers := fmupd ticketID (subs_of ticketID sn @ [ch]) (sn_subscribers sn)\<rparr>))"

definition Unsubscribe :: "string \<Rightarrow> nat \<Rightarrow> StateNotifier \<Rightarrow> StateNotifier" where
  "Unsubscribe ticketID ch sn =
     (let subs = subs_of ticketID sn;
          sn' = (if ch \<in> set subs
                 then sn\<lparr>sn_subscribers := fmupd ticketID (remove1 ch subs) (sn_subscribers sn)\<rparr>
                 else sn)
      in if subs_of ticketID sn' = []
         then sn'\<lparr>sn_subscribers := fmdrop ticketID (sn_subscribers sn')\<rparr> else sn')"

fun send_all :: "nat list \<Rightarrow> TicketState \<Rightarrow> (nat, TicketState list) gomap \<Rightarrow> (nat, TicketState list) gomap" where
  "send_all [] st chans = chans"
| "send_all (ch # chs) st chans =
     send_all chs st (case mget chans ch of Some [] \<Rightarrow> fmupd ch [st] chans | _ \<Rightarrow> chans)"

definition Notify :: "string \<Rightarrow> TicketState \<Rightarrow> StateNotifier \<Rightarrow> StateNotifier" where
  "Notify ticketID newState sn =
     sn\<lparr>sn_chans := send_all (subs_of ticketID sn) newState (sn_chans sn)\<rparr>"

lemmas state_names = StateIssued_def StatePending_def StateValidated_def StateConsumed_def
  StateDisputed_def

section \<open>Traces of operations\<close>

datatype sm_op =
    OIssue int string bytes
  | OSeed "Ticket list"
  | OValidate int string string bytes
  | OConsume int string string
  | ODispute int string string
  | OSync int string string bytes
  | OMerge "Ticket list"

fun run_op :: "sm_op \<Rightarrow> 'e StateMachine \<Rightarrow> 'e StateMachine option" where
  "run_op (OIssue now i d) sm = Some (snd (IssueTicket now i d sm))"
| "run_op (OSeed ts) sm = Some (snd (SeedTickets ts sm))"
| "run_op (OValidate now i v d) sm = Some (snd (ValidateTicket now i v d sm))"
| "run_op (OConsume now i v) sm = Some (snd (ConsumeTicket now i v sm))"
| "run_op (ODispute now i v) sm = Some (snd (DisputeTicket now i v sm))"
| "run_op (OSync now i v d) sm = Some (snd (SyncTicket now i v d sm))"
| "run_op (OMerge ts) sm = MergeState ts sm"

fun run_ops :: "sm_op list \<Rightarrow> 'e StateMachine \<Rightarrow> 'e StateMachine option" where
  "run_ops [] sm = Some sm"
| "run_ops (x # xs) sm = (case run_op x sm of None \<Rightarrow> None | Some sm' \<Rightarrow> run_ops xs sm')"

fun is_merge :: "sm_op \<Rightarrow> bool" where
  "is_merge (OMerge ts) = True"
| "is_merge _ = False"

definition state_of :: "'e StateMachine \<Rightarrow> string \<Rightarrow> TicketState option" where
  "state_of sm i = map_option t_State (mget (sm_currentState sm) i)"

definition history :: "'e StateMachine \<Rightarrow> string \<Rightarrow> StateTransition list" where
  "history sm i = filter (\<lambda>tr. tr_TicketID tr = i) (sm_transitions sm)"

text \<open>Replaying a log of transitions from a state; \<open>None\<close> if one of them is not allowed there.\<close>

definition allowed :: "TicketState \<Rightarrow> TicketState \<Rightarrow> bool" where
  "allowed s s' \<longleftrightarrow> s = StateIssued \<and> s' = StateValidated \<or>
     s = StateValidated \<and> s' = StateConsumed \<or> s' = StateDisputed"

fun replay :: "TicketState \<Rightarrow> StateTransition list \<Rightarrow> TicketState option" where
  "replay s [] = Some s"
| "replay s (tr # trs) =
     (if tr_FromState tr = s \<and> allowed s (tr_ToState tr) then replay (tr_ToState tr) trs else None)"

lemma state_distinct [simp]:
  "StateIssued \<noteq> StateValidated" "StateValidated \<noteq> StateIssued"
  "StateIssued \<noteq> StateConsumed" "StateConsumed \<noteq> StateIssued"
  "StateIssued \<noteq> StateDisputed" "StateDisputed \<noteq> StateIssued"
  "StateValidated \<noteq> StateConsumed" "StateConsumed \<noteq> StateValidated"
  "StateValidated \<noteq> StateDisputed" "StateDisputed \<noteq> StateValidated"
  "StateConsumed \<noteq> StateDisputed" "StateDisputed \<noteq> StateConsumed"
  by (simp_all add: state_names)

lemma notify_fields [simp]:
  "sm_currentState (snd (notify_and_publish i t old new v sm)) = sm_currentState sm"
  "sm_transitions (snd (notify_and_publish i t old new v sm)) = sm_transitions sm"
  "sm_vectorClock (snd (notify_and_publish i t old new v sm)) = sm_vectorClock sm"
  "sm_nodeID (snd (notify_and_publish i t old new v sm)) = sm_nodeID sm"
  by (simp_all add: notify_and_publish_def split: prod.splits option.splits)

lemma notify_error [simp]:
  "fst (notify_and_publish i t old new v sm) =
     map_option HandlerError (fst (call_handlers (sm_handlers sm) t old new (sm_env sm)))"
  by (simp add: notify_and_publish_def split: prod.splits option.splits)

text \<open>
  What \<open>ValidateTicket\<close>, \<open>ConsumeTicket\<close> and \<open>DisputeTicket\<close> do to the machine when their
  guards hold, in one definition over the target state and the recorded validator.
\<close>

definition moved ::
  "int \<Rightarrow> string \<Rightarrow> string \<Rightarrow> TicketState \<Rightarrow> string \<Rightarrow> Ticket \<Rightarrow> 'e StateMachine \<Rightarrow> 'e StateMachine \<Rightarrow> bool" where
  "moved now i v s' keep t sm sm' \<longleftrightarrow>
     sm_currentState sm' = fmupd i
       (t\<lparr>t_State := s', t_ValidatorID := keep, t_Timestamp := now,
          t_VectorClock := Some (Increment (sm_vectorClock sm))\<rparr>) (sm_currentState sm) \<and>
     sm_vectorClock sm' = Increment (sm_vectorClock sm) \<and>
     sm_transitions sm' = sm_transitions sm @
       [\<lparr>tr_TicketID = i, tr_FromState = t_State t, tr_ToState = s', tr_ValidatorID = v,
         tr_Timestamp = now, tr_VectorClock = Some (Increment (sm_vectorClock sm))\<rparr>]"

lemma ValidateTicket_cases:
  obtains (moved) t where "mget (sm_currentState sm) i = Some t" and "t_State t = StateIssued"
      and "moved now i v StateValidated v t sm (snd (ValidateTicket now i v d sm))"
    | (refused) "snd (ValidateTicket now i v d sm) = sm"
      and "\<exists>err. fst (ValidateTicket now i v d sm) = Some err \<and> (\<forall>e. err \<noteq> HandlerError e)"
      and "state_of sm i \<noteq> Some StateIssued"
proof (cases "mget (sm_currentState sm) i")
  case None
  then show ?thesis by (intro refused) (simp_all add: ValidateTicket_def state_of_def)
next
  case (Some t)
  show ?thesis
  proof (cases "t_State t = StateIssued")
    case True
    with Some show ?thesis by (intro moved [of t]) (simp_all add: ValidateTicket_def moved_def Let_def)
  next
    case False
    with Some show ?thesis by (intro refused) (simp_all add: ValidateTicket_def state_of_def)
  qed
qed

lemma ConsumeTicket_cases:
  obtains (moved) t where "mget (sm_currentState sm) i = Some t" and "t_State t = StateValidated"
      and "moved now i v StateConsumed (t_ValidatorID t) t sm (snd (ConsumeTicket now i v sm))"
    | (refused) "snd (ConsumeTicket now i v sm) = sm"
      and "\<exists>err. fst (ConsumeTicket now i v sm) = Some err \<and> (\<forall>e. err \<noteq> HandlerError e)"
      and "state_of sm i \<noteq> Some StateValidated"
proof (cases "mget (sm_currentState sm) i")
  case None
  then show ?thesis by (intro refused) (simp_all add: ConsumeTicket_def state_of_def)
next
  case (Some t)
  show ?thesis
  proof (cases "t_State t = StateValidated")
    case True
    with Some show ?thesis by (intro moved [of t]) (simp_all add: ConsumeTicket_def moved_def Let_def)
  next
    case False
    with Some show ?thesis by (intro refused) (simp_all add: ConsumeTicket_def state_of_def)
  qed
qed

lemma DisputeTicket_cases:
  obtains (moved) t where "mget (sm_currentState sm) i = Some t"
      and "moved now i v StateDisputed (t_ValidatorID t) t sm (snd (DisputeTicket now i v sm))"
    | (refused) "DisputeTicket now i v sm = (Some (TicketNotFound i), sm)" and "state_of sm i = None"
proof (cases "mget (sm_currentState sm) i")
  case None
  then show ?thesis by (intro refused) (simp_all add: DisputeTicket_def state_of_def)
next
  case (Some t)
  then show ?thesis by (intro moved [of t]) (simp_all add: DisputeTicket_def moved_def Let_def)
qed

lemma SyncTicket_fields:
  "sm_currentState (snd (SyncTicket now i v d sm)) =
     (if mhas (sm_currentState sm) i then sm_currentState sm
      else fmupd i \<lparr>t_ID = i, t_State = StateValidated, t_Data = d, t_ValidatorID = v,
             t_Timestamp = now, t_VectorClock = Some (sm_vectorClock sm),
             t_Metadata = fmupd ''synced_from'' v (fmupd ''synced'' ''true'' fmempty)\<rparr>
             (sm_currentState sm))"
  "sm_transitions (snd (SyncTicket now i v d sm)) =
     (if mhas (sm_currentState sm) i then sm_transitions sm
      else sm_transitions sm @
        [\<lparr>tr_TicketID = i, tr_FromState = StateIssued, tr_ToState = StateValidated,
          tr_ValidatorID = v, tr_Timestamp = now, tr_VectorClock = None\<rparr>])"
  "sm_vectorClock (snd (SyncTicket now i v d sm)) = sm_vectorClock sm"
  by (simp_all add: SyncTicket_def Let_def split: prod.splits option.splits)

lemma IssueTicket_fields:
  "sm_currentState (snd (IssueTicket now i d sm)) =
     (if mhas (sm_currentState sm) i then sm_currentState sm
      else fmupd i \<lparr>t_ID = i, t_State = StateIssued, t_Data = d, t_ValidatorID = '''',
             t_Timestamp = now, t_VectorClock = Some (sm_vectorClock sm), t_Metadata = fmempty\<rparr>
             (sm_currentState sm))"
  "sm_transitions (snd (IssueTicket now i d sm)) = sm_transitions sm"
  "sm_vectorClock (snd (IssueTicket now i d sm)) = sm_vectorClock sm"
  by (simp_all add: IssueTicket_def Let_def)

lemma seed_fields [simp]:
  "sm_transitions (snd (seed_loop ts n sm)) = sm_transitions sm"
  "sm_vectorClock (snd (seed_loop ts n sm)) = sm_vectorClock sm"
  by (induction ts n sm rule: seed_loop.induct) simp_all

lemma seed_keeps:
  "mget (sm_currentState sm) i = Some t \<Longrightarrow> mget (sm_currentState (snd (seed_loop ts n sm))) i = Some t"
proof (induction ts n sm rule: seed_loop.induct)
  case (2 x xs n sm)
  then show ?case by (cases "t_ID x = i") (auto dest: fmdomI)
qed simp

lemma seed_adds:
  assumes "mget (sm_currentState (snd (seed_loop ts n sm))) i = Some t"
    and "mget (sm_currentState sm) i = None"
  shows "t_ID t = i \<and> t_State t = StateIssued \<and> t_VectorClock t = Some (sm_vectorClock sm)"
  using assms
proof (induction ts n sm rule: seed_loop.induct)
  case (2 x xs n sm)
  show ?case
  proof (cases "mhas (sm_currentState sm) (t_ID x)")
    case True
    with 2 show ?thesis by simp
  next
    case new: False
    show ?thesis
    proof (cases "t_ID x = i")
      case True
      with new "2.prems" show ?thesis
        by (auto simp: seed_keeps [of _ i])
    next
      case False
      with new "2.prems" "2.IH"(2) show ?thesis by simp
    qed
  qed
qed simp

lemma seed_count:
  "fst (seed_loop ts n sm) - n =
     golen (sm_currentState (snd (seed_loop ts n sm))) - golen (sm_currentState sm)"
  by (induction ts n sm rule: seed_loop.induct) (auto simp: golen_upd)

section \<open>The transition log replays to the current state\<close>

definition trail_ok :: "'e StateMachine \<Rightarrow> string \<Rightarrow> bool" where
  "trail_ok sm i \<longleftrightarrow>
     (case state_of sm i of
        None \<Rightarrow> history sm i = []
      | Some s \<Rightarrow> replay StateIssued (history sm i) = Some s)"

lemma replay_append: "replay s (xs @ ys) = (case replay s xs of None \<Rightarrow> None | Some s' \<Rightarrow> replay s' ys)"
  by (induction s xs rule: replay.induct) simp_all

lemma moved_trail:
  assumes "moved now j v s' keep t sm sm'" and "mget (sm_currentState sm) j = Some t"
    and "allowed (t_State t) s'" and "trail_ok sm i"
  shows "trail_ok sm' i"
  using assms
  by (cases "i = j")
    (simp_all add: moved_def trail_ok_def state_of_def history_def replay_append split: option.splits)

lemma same_trail:
  "state_of sm' i = state_of sm i \<Longrightarrow> sm_transitions sm' = sm_transitions sm \<Longrightarrow>
     trail_ok sm i \<Longrightarrow> trail_ok sm' i"
  by (simp only: trail_ok_def history_def)

lemma issued_trail:
  "state_of sm i = None \<Longrightarrow> state_of sm' i = Some StateIssued \<Longrightarrow>
     sm_transitions sm' = sm_transitions sm \<Longrightarrow> trail_ok sm i \<Longrightarrow> trail_ok sm' i"
  by (simp add: trail_ok_def history_def)

lemma seed_trail:
  assumes "trail_ok sm i"
  shows "trail_ok (snd (seed_loop ts n sm)) i"
proof (cases "mget (sm_currentState sm) i")
  case (Some t)
  then show ?thesis
    using assms seed_keeps [OF Some, of ts n] by (intro same_trail [OF _ _ assms]) (simp_all add: state_of_def)
next
  case None
  show ?thesis
  proof (cases "mget (sm_currentState (snd (seed_loop ts n sm))) i")
    case (Some t)
    then show ?thesis using None seed_adds [OF Some None]
      by (intro issued_trail [OF _ _ _ assms]) (simp_all add: state_of_def)
  qed (use None in \<open>auto intro!: same_trail [OF _ _ assms] simp: state_of_def\<close>)
qed

lemma run_op_trail:
  assumes "run_op x sm = Some sm'" and "\<not> is_merge x" and "trail_ok sm i"
  shows "trail_ok sm' i"
proof (cases x)
  case (OIssue now j d)
  show ?thesis
  proof (cases "j = i \<and> \<not> mhas (sm_currentState sm) i")
    case True
    with OIssue assms show ?thesis
      by (auto intro!: issued_trail [OF _ _ _ assms(3)] simp: IssueTicket_fields state_of_def
          fmdom_notD)
  next
    case False
    with OIssue assms show ?thesis
      by (auto intro!: same_trail [OF _ _ assms(3)] simp: IssueTicket_fields state_of_def)
  qed
next
  case (OSeed ts)
  with assms show ?thesis by (auto simp: SeedTickets_def intro: seed_trail)
next
  case (OValidate now j v d)
  with assms show ?thesis
    by (cases rule: ValidateTicket_cases [of sm j now v d])
      (auto intro: moved_trail simp: allowed_def)
next
  case (OConsume now j v)
  with assms show ?thesis
    by (cases rule: ConsumeTicket_cases [of sm j now v])
      (auto intro: moved_trail simp: allowed_def)
next
  case (ODispute now j v)
  with assms show ?thesis
    by (cases rule: DisputeTicket_cases [of sm j now v])
      (auto intro: moved_trail simp: allowed_def)
next
  case (OSync now j v d)
  with assms show ?thesis
    by (auto simp: trail_ok_def SyncTicket_fields state_of_def history_def allowed_def
        fmlookup_dom_iff split: option.splits)
qed (use assms in simp)

lemma run_ops_trail:
  "run_ops xs sm = Some sm' \<Longrightarrow> \<forall>x \<in> set xs. \<not> is_merge x \<Longrightarrow> trail_ok sm i \<Longrightarrow> trail_ok sm' i"
proof (induction xs sm rule: run_ops.induct)
  case (2 x xs sm)
  then show ?case by (auto split: option.splits dest: run_op_trail)
qed simp

text \<open>Without merging, a ticket that was consumed or disputed stays so.\<close>

definition used :: "'e StateMachine \<Rightarrow> string \<Rightarrow> bool" where
  "used sm i \<longleftrightarrow> state_of sm i = Some StateConsumed \<or> state_of sm i = Some StateDisputed"

lemma moved_used:
  assumes "moved now j v s' keep t sm sm'" and "mget (sm_currentState sm) j = Some t"
    and "s' = StateDisputed \<or> t_State t \<noteq> StateConsumed \<and> t_State t \<noteq> StateDisputed" and "used sm i"
  shows "used sm' i"
  using assms by (auto simp: moved_def used_def state_of_def)

lemma used_kept:
  "used sm i \<Longrightarrow> (\<And>t. mget (sm_currentState sm) i = Some t \<Longrightarrow> mget (sm_currentState sm') i = Some t) \<Longrightarrow> used sm' i"
  by (cases "mget (sm_currentState sm) i") (simp_all add: used_def state_of_def)

lemma run_op_used:
  assumes "run_op x sm = Some sm'" and "\<not> is_merge x" and "used sm i"
  shows "used sm' i"
proof (cases x)
  case (OIssue now j d)
  with assms show ?thesis by (auto intro!: used_kept [OF assms(3)] simp: IssueTicket_fields dest: fmdomI)
next
  case (OSeed ts)
  with assms show ?thesis by (auto intro!: used_kept [OF assms(3)] simp: SeedTickets_def seed_keeps)
next
  case (OValidate now j v d)
  with assms show ?thesis
    by (cases rule: ValidateTicket_cases [of sm j now v d]) (auto intro: moved_used)
next
  case (OConsume now j v)
  with assms show ?thesis
    by (cases rule: ConsumeTicket_cases [of sm j now v]) (auto intro: moved_used)
next
  case (ODispute now j v)
  with assms show ?thesis
    by (cases rule: DisputeTicket_cases [of sm j now v]) (auto intro: moved_used)
next
  case (OSync now j v d)
  with assms show ?thesis by (auto intro!: used_kept [OF assms(3)] simp: SyncTicket_fields dest: fmdomI)
qed (use assms in simp)

text \<open>A state once left is not entered again, except \<open>DISPUTED\<close>.\<close>

definition entries_into :: "TicketState \<Rightarrow> StateTransition list \<Rightarrow> nat" where
  "entries_into s trs = length (filter (\<lambda>tr. tr_ToState tr = s) trs)"

lemma no_validation_later:
  "replay s trs = Some s' \<Longrightarrow> s \<noteq> StateIssued \<Longrightarrow> entries_into StateValidated trs = 0"
  by (induction s trs rule: replay.induct)
    (auto simp: entries_into_def allowed_def split: if_splits)

lemma no_consumption_later:
  "replay s trs = Some s' \<Longrightarrow> s \<noteq> StateIssued \<Longrightarrow> s \<noteq> StateValidated \<Longrightarrow>
     entries_into StateConsumed trs = 0"
  by (induction s trs rule: replay.induct)
    (auto simp: entries_into_def allowed_def split: if_splits)

lemma replay_validated_once:
  "replay s trs = Some s' \<Longrightarrow> entries_into StateValidated trs \<le> 1"
proof (induction s trs rule: replay.induct)
  case (2 s tr trs)
  show ?case
  proof (cases "tr_ToState tr = StateValidated")
    case True
    with 2 show ?thesis
      using no_validation_later [of StateValidated trs s']
      by (auto simp: entries_into_def split: if_splits)
  qed (use 2 in \<open>auto simp: entries_into_def split: if_splits\<close>)
qed (simp add: entries_into_def)

lemma replay_consumed_after_validated:
  "replay StateIssued trs = Some s' \<Longrightarrow> entries_into StateConsumed trs \<le> entries_into StateValidated trs"
proof (induction trs)
  case (Cons tr trs)
  consider "tr_ToState tr = StateValidated" | "tr_ToState tr = StateDisputed"
    using Cons.prems by (auto simp: allowed_def split: if_splits)
  then show ?case
  proof cases
    case 1
    have "entries_into StateConsumed trs \<le> 1"
    proof (cases trs)
      case (Cons tr' trs')
      then show ?thesis
        using Cons.prems 1 no_consumption_later [of "tr_ToState tr'" trs' s']
        by (auto simp: entries_into_def allowed_def split: if_splits)
    qed (simp add: entries_into_def)
    with 1 show ?thesis by (simp add: entries_into_def)
  next
    case 2
    then show ?thesis
      using Cons.prems no_consumption_later [of StateDisputed trs s']
      by (auto simp: entries_into_def split: if_splits)
  qed
qed (simp add: entries_into_def)

section \<open>Well-formed machines, and when merging panics\<close>

definition ticket_ok :: "string \<Rightarrow> Ticket \<Rightarrow> bool" where
  "ticket_ok i t \<longleftrightarrow> t_ID t = i \<and> t_VectorClock t \<noteq> None"

definition sm_ok :: "'e StateMachine \<Rightarrow> bool" where
  "sm_ok sm \<longleftrightarrow> fmpred ticket_ok (sm_currentState sm)"

definition has_clock :: "Ticket \<Rightarrow> bool" where
  "has_clock t \<longleftrightarrow> t_VectorClock t \<noteq> None"

lemma copy_loop_lookup:
  "distinct (map fst es) \<Longrightarrow>
     mget (copy_loop es c) k = (case map_of es k of None \<Rightarrow> mget c k | Some v \<Rightarrow> Some v)"
proof (induction es c rule: copy_loop.induct)
  case (2 j v es c)
  then have "map_of es j = None" by (simp add: map_of_eq_None_iff)
  with 2 show ?case by (cases "k = j") (simp_all split: option.splits)
qed simp

lemma copyMetadata_id [simp]: "copyMetadata m = m"
proof (rule fmap_ext)
  fix k
  have e: "enumerates (entries m) m" by simp
  have "map_of (entries m) k = mget m k"
  proof (cases "mget m k")
    case None
    with e show ?thesis by (fastforce simp: enumerates_def map_of_eq_None_iff)
  qed (use e in \<open>simp add: enumerates_def\<close>)
  with e show "mget (copyMetadata m) k = mget m k"
    by (simp add: copyMetadata_def copy_loop_lookup enumerates_def split: option.splits)
qed

lemma copy_ticket_eq: "copy_ticket t = (if has_clock t then Some t else None)"
  by (auto simp: copy_ticket_def has_clock_def split: option.splits)

lemma copy_tickets_eq:
  "copy_tickets es = (if \<forall>(k, t) \<in> set es. has_clock t then Some (map snd es) else None)"
  by (induction es rule: copy_tickets.induct) (auto simp: copy_ticket_eq)

lemma resolve_None_iff: "has_clock l \<Longrightarrow> resolve r l = None \<longleftrightarrow> \<not> has_clock r"
  by (auto simp: resolve_def has_clock_def split: option.splits)

lemma resolve_ok: "resolve r l = Some t \<Longrightarrow> ticket_ok i l \<Longrightarrow> ticket_ok i t"
  by (auto simp: resolve_def ticket_ok_def adopt_def split: option.splits Ordering.splits if_splits)

lemma merge_ticket_ok:
  "merge_ticket r m = Some m' \<Longrightarrow> fmpred ticket_ok m \<Longrightarrow> fmpred ticket_ok m'"
proof (cases "mget m (t_ID r)")
  case None
  assume "merge_ticket r m = Some m'" and "fmpred ticket_ok m"
  with None show ?thesis
    by (auto simp: merge_ticket_def copy_ticket_eq has_clock_def ticket_ok_def split: if_splits
        intro!: fmpred_upd)
next
  case (Some l)
  assume "merge_ticket r m = Some m'" and m: "fmpred ticket_ok m"
  with Some obtain t where "resolve r l = Some t" and "m' = fmupd (t_ID r) t m"
    by (auto simp: merge_ticket_def)
  moreover have "ticket_ok (t_ID r) l" using m Some by (auto dest: fmpredD)
  ultimately show ?thesis using m by (auto intro!: fmpred_upd dest: resolve_ok)
qed

lemma merge_ticket_None_iff:
  assumes "fmpred ticket_ok m"
  shows "merge_ticket r m = None \<longleftrightarrow> \<not> has_clock r"
proof (cases "mget m (t_ID r)")
  case (Some l)
  then have "has_clock l" using assms by (auto dest: fmpredD simp: ticket_ok_def has_clock_def)
  with Some show ?thesis by (simp add: merge_ticket_def resolve_None_iff)
qed (simp add: merge_ticket_def copy_ticket_eq)

lemma merge_tickets_None_iff:
  "fmpred ticket_ok m \<Longrightarrow> merge_tickets ts m = None \<longleftrightarrow> (\<exists>t \<in> set ts. \<not> has_clock t)"
proof (induction ts m rule: merge_tickets.induct)
  case (2 t ts m)
  show ?case
  proof (cases "merge_ticket t m")
    case None
    then show ?thesis using merge_ticket_None_iff [OF "2.prems", of t] by auto
  next
    case (Some m')
    then have "has_clock t" using merge_ticket_None_iff [OF "2.prems", of t] by auto
    with Some 2 show ?thesis by (simp add: merge_ticket_ok [OF Some])
  qed
qed simp

lemma merge_tickets_ok:
  "merge_tickets ts m = Some m' \<Longrightarrow> fmpred ticket_ok m \<Longrightarrow> fmpred ticket_ok m'"
  by (induction ts m rule: merge_tickets.induct) (auto split: option.splits dest: merge_ticket_ok)

lemma merge_clocks_fold:
  "merge_clocks ts vc =
     (if \<forall>t \<in> set ts. has_clock t then Some (fold Merge (map (\<lambda>t. the (t_VectorClock t)) ts) vc) else None)"
  by (induction ts vc rule: merge_clocks.induct) (auto simp: has_clock_def split: option.splits)

lemma MergeState_None_iff:
  "sm_ok sm \<Longrightarrow> MergeState ts sm = None \<longleftrightarrow> (\<exists>t \<in> set ts. \<not> has_clock t)"
  by (auto simp: MergeState_def sm_ok_def merge_tickets_None_iff merge_clocks_fold split: option.splits)

lemma MergeState_SomeD:
  assumes "MergeState ts sm = Some sm'"
  shows "merge_tickets ts (sm_currentState sm) = Some (sm_currentState sm')"
    and "sm_vectorClock sm' = fold Merge (map (\<lambda>t. the (t_VectorClock t)) ts) (sm_vectorClock sm)"
    and "\<forall>t \<in> set ts. has_clock t"
    and "sm_transitions sm' = sm_transitions sm"
  using assms by (auto simp: MergeState_def merge_clocks_fold split: option.splits if_splits)

lemma moved_ok:
  assumes "moved now i v s keep t sm sm'" and "mget (sm_currentState sm) i = Some t" and "sm_ok sm"
  shows "sm_ok sm'"
proof -
  have "t_ID t = i" using assms by (auto simp: sm_ok_def ticket_ok_def dest: fmpredD)
  with assms show ?thesis by (auto simp: moved_def sm_ok_def ticket_ok_def intro!: fmpred_upd)
qed

lemma seed_ok: "sm_ok sm \<Longrightarrow> sm_ok (snd (seed_loop ts n sm))"
proof -
  assume ok: "sm_ok sm"
  have "ticket_ok i t" if "mget (sm_currentState (snd (seed_loop ts n sm))) i = Some t" for i t
  proof (cases "mget (sm_currentState sm) i")
    case None
    with seed_adds [OF that] show ?thesis by (simp add: ticket_ok_def)
  next
    case (Some u)
    with that ok seed_keeps [OF Some, of ts n] show ?thesis by (auto simp: sm_ok_def dest: fmpredD)
  qed
  then show ?thesis by (simp add: sm_ok_def fmpred_iff)
qed

lemma run_op_ok: "run_op x sm = Some sm' \<Longrightarrow> sm_ok sm \<Longrightarrow> sm_ok sm'"
proof (cases x)
  case (OValidate now i v d)
  assume "run_op x sm = Some sm'" and "sm_ok sm"
  with OValidate show ?thesis
    by (cases rule: ValidateTicket_cases [of sm i now v d]) (auto intro: moved_ok)
next
  case (OConsume now i v)
  assume "run_op x sm = Some sm'" and "sm_ok sm"
  with OConsume show ?thesis
    by (cases rule: ConsumeTicket_cases [of sm i now v]) (auto intro: moved_ok)
next
  case (ODispute now i v)
  assume "run_op x sm = Some sm'" and "sm_ok sm"
  with ODispute show ?thesis
    by (cases rule: DisputeTicket_cases [of sm i now v]) (auto intro: moved_ok)
qed (auto simp: sm_ok_def IssueTicket_fields SyncTicket_fields SeedTickets_def ticket_ok_def
    intro!: fmpred_upd seed_ok [unfolded sm_ok_def] dest: MergeState_SomeD merge_tickets_ok)

fun op_tickets :: "sm_op \<Rightarrow> Ticket list" where
  "op_tickets (OMerge ts) = ts"
| "op_tickets _ = []"

lemma run_op_defined: "sm_ok sm \<Longrightarrow> run_op x sm = None \<longleftrightarrow> (\<exists>t \<in> set (op_tickets x). \<not> has_clock t)"
  by (cases x) (simp_all add: MergeState_None_iff)

section \<open>Clocks of transitions\<close>

definition clocked :: "'e StateMachine \<Rightarrow> bool" where
  "clocked sm \<longleftrightarrow>
     (\<forall>i t c. mget (sm_currentState sm) i = Some t \<and> t_VectorClock t = Some c \<longrightarrow> vc_leq c (sm_vectorClock sm))"

definition can_count :: "VectorClock \<Rightarrow> bool" where
  "can_count vc \<longleftrightarrow> Get vc (vc_nodeID vc) \<noteq> - 1"

lemma Increment_newer:
  assumes "can_count vc"
  shows "vc_leq vc (Increment vc)" and "\<not> vc_leq (Increment vc) vc"
proof -
  have l: "Get vc (vc_nodeID vc) < Get vc (vc_nodeID vc) + 1"
    using assms by (intro word_less_succ) (simp add: can_count_def)
  then show "vc_leq vc (Increment vc)" by (simp add: vc_leq_def Get_Increment less_imp_le)
  show "\<not> vc_leq (Increment vc) vc"
    using l by (auto simp: vc_leq_def Get_Increment not_le intro!: exI [of _ "vc_nodeID vc"])
qed

lemma Increment_Before:
  assumes "vc_leq c vc" and "can_count vc"
  shows "Compare c (Increment vc) = Before"
proof -
  have "vc_leq c (Increment vc)"
    using assms(1) Increment_newer(1) [OF assms(2)] by (rule vc_leq_trans)
  moreover have "\<not> vc_leq (Increment vc) c"
    using assms Increment_newer(2) vc_leq_trans by blast
  ultimately show ?thesis by (simp add: Compare_iff)
qed

lemma moved_clocked:
  assumes "moved now i v s keep t sm sm'" and "clocked sm" and "can_count (sm_vectorClock sm)"
  shows "clocked sm'"
  unfolding clocked_def
proof (intro allI impI)
  fix j u c
  assume u: "mget (sm_currentState sm') j = Some u \<and> t_VectorClock u = Some c"
  show "vc_leq c (sm_vectorClock sm')"
  proof (cases "j = i")
    case True
    with u assms(1) show ?thesis by (auto simp: moved_def)
  next
    case False
    with u assms(1,2) have "vc_leq c (sm_vectorClock sm)" by (auto simp: moved_def clocked_def)
    with Increment_newer(1) [OF assms(3)] assms(1) show ?thesis
      by (auto simp: moved_def intro: vc_leq_trans)
  qed
qed

section \<open>Resolution of conflicting tickets\<close>

definition core :: "Ticket \<Rightarrow> TicketState \<times> string \<times> int" where
  "core t = (t_State t, t_ValidatorID t, t_Timestamp t)"

lemma core_adopt [simp]: "core (adopt r c l) = core r"
  by (simp add: core_def adopt_def)

lemma Compare_dual:
  "Compare b a = (case Compare a b of Before \<Rightarrow> After | After \<Rightarrow> Before | x \<Rightarrow> x)"
  by (auto simp: Compare_spec compare_result_def)

lemma Compare_refl [simp]: "Compare a a = Equal"
  by (simp add: Compare_iff)

lemma MergeState_single:
  assumes "MergeState [r] sm = Some sm'" and "mget (sm_currentState sm) i = Some l" and "t_ID r = i"
  shows "\<exists>t. resolve r l = Some t \<and> sm_currentState sm' = fmupd i t (sm_currentState sm)"
  using MergeState_SomeD(1) [OF assms(1)] assms(2,3)
  by (auto simp: merge_ticket_def split: option.splits)

lemma resolve_idem: "resolve r l = Some t \<Longrightarrow> resolve r t = Some t"
  by (auto simp: resolve_def adopt_def split: option.splits Ordering.splits if_splits)

lemma merge_ticket_idem: "merge_ticket r m = Some m' \<Longrightarrow> merge_ticket r m' = Some m'"
proof (cases "mget m (t_ID r)")
  case None
  assume "merge_ticket r m = Some m'"
  with None have m': "m' = fmupd (t_ID r) r m" and "has_clock r"
    by (auto simp: merge_ticket_def copy_ticket_eq split: if_splits)
  then have "resolve r r = Some r" by (auto simp: resolve_def has_clock_def)
  with m' show ?thesis by (simp add: merge_ticket_def)
next
  case (Some l)
  assume "merge_ticket r m = Some m'"
  with Some obtain t where "resolve r l = Some t" and m': "m' = fmupd (t_ID r) t m"
    by (auto simp: merge_ticket_def)
  then have "resolve r t = Some t" by (simp add: resolve_idem)
  with m' show ?thesis by (simp add: merge_ticket_def)
qed

lemma merge_ticket_local:
  "merge_ticket r m = Some m' \<Longrightarrow> j \<noteq> t_ID r \<Longrightarrow> mget m' j = mget m j"
  by (auto simp: merge_ticket_def split: option.splits)

lemma merge_ticket_stable:
  assumes "merge_ticket r m = Some m" and "mget m' (t_ID r) = mget m (t_ID r)"
  shows "merge_ticket r m' = Some m'"
proof -
  have "\<exists>l. mget m (t_ID r) = Some l \<and> resolve r l = Some l"
  proof (cases "mget m (t_ID r)")
    case None
    with assms(1) have "mget m (t_ID r) \<noteq> None"
      by (auto simp: merge_ticket_def copy_ticket_eq split: if_splits)
        (metis fmupd_lookup option.distinct(1))
    with None show ?thesis by simp
  next
    case (Some l)
    with assms(1) show ?thesis
      by (auto simp: merge_ticket_def) (metis fmupd_lookup option.inject)
  qed
  with assms(2) show ?thesis
    by (auto simp: merge_ticket_def intro!: fmap_ext)
qed

lemma merge_tickets_local:
  "merge_tickets ts m = Some m' \<Longrightarrow> j \<notin> t_ID ` set ts \<Longrightarrow> mget m' j = mget m j"
  by (induction ts m rule: merge_tickets.induct) (auto split: option.splits simp: merge_ticket_local)

lemma merge_tickets_stable:
  "merge_tickets ts m = Some m' \<Longrightarrow> distinct (map t_ID ts) \<Longrightarrow> r \<in> set ts \<Longrightarrow>
     merge_ticket r m' = Some m'"
proof (induction ts m rule: merge_tickets.induct)
  case (2 t ts m)
  from "2.prems"(1) obtain m1 where m1: "merge_ticket t m = Some m1" "merge_tickets ts m1 = Some m'"
    by (auto split: option.splits)
  show ?case
  proof (cases "r = t")
    case True
    with "2.prems" m1 have "mget m' (t_ID t) = mget m1 (t_ID t)" by (auto intro: merge_tickets_local)
    with True merge_ticket_idem [OF m1(1)] show ?thesis by (auto intro: merge_ticket_stable)
  qed (use "2.IH" [OF m1] "2.prems" in auto)
qed simp

lemma merge_tickets_fixed:
  "(\<And>r. r \<in> set ts \<Longrightarrow> merge_ticket r m = Some m) \<Longrightarrow> merge_tickets ts m = Some m"
  by (induction ts) simp_all

section \<open>Properties\<close>

text \<open>
  C7: for a machine that starts empty and as long as no remote state is merged (\<open>MergeState\<close>
  overwrites tickets without logging it), the transition log is a faithful audit trail:
  replaying a ticket's entries of the log from \<open>ISSUED\<close> follows only allowed transitions
  and ends in the ticket's current state; a ticket that is not there has no entries.
\<close>

theorem transition_log_replays:
  assumes "run_ops xs sm = Some sm'" and "\<forall>x \<in> set xs. \<not> is_merge x"
    and "sm_currentState sm = fmempty" and "sm_transitions sm = []"
  shows "case state_of sm' i of
      None \<Rightarrow> history sm' i = []
    | Some s \<Rightarrow> replay StateIssued (history sm' i) = Some s"
proof -
  have "trail_ok sm i" using assms(3,4) by (simp add: trail_ok_def state_of_def history_def)
  from run_ops_trail [OF assms(1,2) this] show ?thesis by (simp add: trail_ok_def)
qed

definition example_ops :: "sm_op list" where
  "example_ops = [OIssue 1 ''T'' [], OValidate 2 ''T'' ''v'' [], OValidate 3 ''T'' ''w'' [],
     OConsume 4 ''T'' ''v'']"

definition after_ops :: "sm_op list \<Rightarrow> unit StateMachine" where
  "after_ops xs = the (run_ops xs (NewStateMachine ''node0'' ()))"

lemma example_run: "run_ops example_ops (NewStateMachine ''node0'' ()) = Some (after_ops example_ops)"
  by (simp add: example_ops_def after_ops_def)

lemma example_state: "state_of (after_ops example_ops) ''T'' = Some StateConsumed"
  by code_simp

lemma new_machine_empty [simp]:
  "sm_currentState (NewStateMachine n e) = fmempty" "sm_transitions (NewStateMachine n e) = []"
  by (simp_all add: NewStateMachine_def)

theorem transition_log_replays_witness:
  "replay StateIssued (history (after_ops example_ops) ''T'') = Some StateConsumed"
  using transition_log_replays [OF example_run, of "''T''"]
  by (simp add: example_state) (simp add: example_ops_def)

text \<open>
  C6: no double spending within one machine: without merging, the log of a ticket has at
  most one transition into \<open>VALIDATED\<close>, and at most as many into \<open>CONSUMED\<close>, for every
  sequence of operations, whatever the handlers and the publisher do.
\<close>

theorem validated_at_most_once:
  assumes "run_ops xs sm = Some sm'" and "\<forall>x \<in> set xs. \<not> is_merge x"
    and "sm_currentState sm = fmempty" and "sm_transitions sm = []"
  shows "entries_into StateConsumed (history sm' i) \<le> entries_into StateValidated (history sm' i) \<and>
    entries_into StateValidated (history sm' i) \<le> 1"
proof -
  have "trail_ok sm i" using assms(3,4) by (simp add: trail_ok_def state_of_def history_def)
  from run_ops_trail [OF assms(1,2) this] obtain s where "replay StateIssued (history sm' i) = Some s"
    by (auto simp: trail_ok_def split: option.splits)
  then show ?thesis using replay_validated_once replay_consumed_after_validated by blast
qed

theorem validated_at_most_once_witness:
  "entries_into StateConsumed (history (after_ops example_ops) ''T'')
     \<le> entries_into StateValidated (history (after_ops example_ops) ''T'') \<and>
   entries_into StateValidated (history (after_ops example_ops) ''T'') \<le> 1"
  by (rule validated_at_most_once [OF example_run]) (simp_all add: example_ops_def)

definition stale_copy :: Ticket where
  "stale_copy = \<lparr>t_ID = ''T'', t_State = StateIssued, t_Data = [], t_ValidatorID = [],
     t_Timestamp = 9, t_VectorClock = Some (Increment (NewVectorClock ''node1'')),
     t_Metadata = fmempty\<rparr>"

text \<open>
  Merging breaks that bound: a remote copy with a concurrent clock and a later
  timestamp takes a validated ticket back to \<open>ISSUED\<close>, and it is validated a second time.
\<close>

theorem merge_allows_second_validation:
  "entries_into StateValidated (history (after_ops
     [OIssue 1 ''T'' [], OValidate 2 ''T'' ''v'' [], OMerge [stale_copy],
      OValidate 10 ''T'' ''w'' []]) ''T'') = 2"
  by code_simp

text \<open>
  Merging also leaves the log behind the state: after the same merge the ticket is \<open>ISSUED\<close>,
  while its log still replays to \<open>VALIDATED\<close>.
\<close>

theorem merge_is_not_logged:
  "state_of (after_ops [OIssue 1 ''T'' [], OValidate 2 ''T'' ''v'' [], OMerge [stale_copy]]) ''T'' = Some StateIssued \<and>
   replay StateIssued (history (after_ops [OIssue 1 ''T'' [], OValidate 2 ''T'' ''v'' [], OMerge [stale_copy]]) ''T'') =
     Some StateValidated"
  by code_simp

text \<open>
  A handler that fails during \<open>ValidateTicket\<close> does not undo the validation: the
  ticket is \<open>VALIDATED\<close> whatever the handlers return, and every retry is refused with
  \<open>already validated\<close> and changes nothing.
\<close>

theorem validation_is_final:
  assumes "state_of sm i = Some StateIssued" and "sm' = snd (ValidateTicket now i v d sm)"
  shows "state_of sm' i = Some StateValidated \<and>
    ValidateTicket now' i v' d' sm' = (Some (AlreadyValidated i), sm')"
proof -
  obtain t where "moved now i v StateValidated v t sm sm'"
    using assms by (cases rule: ValidateTicket_cases [of sm i now v d]) auto
  then show ?thesis by (simp add: moved_def state_of_def ValidateTicket_def)
qed

definition failing_machine :: "unit StateMachine" where
  "failing_machine = snd (IssueTicket 1 ''T'' []
     (RegisterHandler (\<lambda>t old new e. (Some ''disk full'', e)) (NewStateMachine ''node0'' ())))"

theorem validation_is_final_witness:
  "fst (ValidateTicket 2 ''T'' ''v'' [] failing_machine) = Some (HandlerError ''disk full'') \<and>
   state_of (snd (ValidateTicket 2 ''T'' ''v'' [] failing_machine)) ''T'' = Some StateValidated"
proof
  show "fst (ValidateTicket 2 ''T'' ''v'' [] failing_machine) = Some (HandlerError ''disk full'')"
    by (simp add: ValidateTicket_def failing_machine_def IssueTicket_def RegisterHandler_def
        NewStateMachine_def Let_def)
  have "state_of failing_machine ''T'' = Some StateIssued"
    by (simp add: failing_machine_def state_of_def IssueTicket_fields RegisterHandler_def
        NewStateMachine_def)
  from validation_is_final [OF this refl]
  show "state_of (snd (ValidateTicket 2 ''T'' ''v'' [] failing_machine)) ''T'' = Some StateValidated"
    by blast
qed

text \<open>
  C16: after any sequence of operations on a new machine, every stored ticket is filed under
  its own ID and has a clock, and a following \<open>MergeState\<close> panics exactly when one of the
  received tickets has no clock.
\<close>

theorem MergeState_panics_iff:
  assumes "run_ops xs (NewStateMachine nodeID env) = Some sm"
  shows "fmpred ticket_ok (sm_currentState sm) \<and>
    (MergeState ts sm = None \<longleftrightarrow> (\<exists>t \<in> set ts. t_VectorClock t = None))"
proof -
  have "run_ops xs sm0 = Some sm \<Longrightarrow> sm_ok sm0 \<Longrightarrow> sm_ok sm" for sm0
    by (induction xs sm0 rule: run_ops.induct) (auto split: option.splits dest: run_op_ok)
  moreover have "sm_ok (NewStateMachine nodeID env)" by (simp add: sm_ok_def)
  ultimately have "sm_ok sm" using assms by blast
  then show ?thesis by (simp add: MergeState_None_iff has_clock_def) (simp add: sm_ok_def)
qed

theorem MergeState_panics_iff_witness:
  "MergeState [stale_copy\<lparr>t_VectorClock := None\<rparr>] (after_ops example_ops) = None"
  using MergeState_panics_iff [OF example_run, of "[stale_copy\<lparr>t_VectorClock := None\<rparr>]"] by simp

text \<open>
  A successful transition is causally after everything the machine holds: its ticket
  carries a clock that every clock stored before compares \<open>Before\<close>, so \<open>MergeState\<close> at a
  replica with an older copy adopts it. This needs the node's counter not to be at its
  maximum, where \<open>Increment\<close> wraps around to 0.
\<close>

theorem transition_is_causally_last:
  assumes "clocked sm" and "can_count (sm_vectorClock sm)"
    and "state_of sm i = Some StateIssued" and "sm' = snd (ValidateTicket now i v d sm)"
    and "mget (sm_currentState sm) j = Some u" and "t_VectorClock u = Some c"
  shows "clocked sm' \<and> (\<exists>t c'. mget (sm_currentState sm') i = Some t \<and> t_State t = StateValidated \<and>
    t_VectorClock t = Some c' \<and> Compare c c' = Before)"
proof -
  obtain t where m: "moved now i v StateValidated v t sm sm'"
    using assms(3,4) by (cases rule: ValidateTicket_cases [of sm i now v d]) auto
  have "vc_leq c (sm_vectorClock sm)" using assms(1,5,6) by (auto simp: clocked_def)
  then have "Compare c (Increment (sm_vectorClock sm)) = Before"
    using assms(2) by (rule Increment_Before)
  with m moved_clocked [OF m assms(1,2)] show ?thesis by (simp add: moved_def)
qed

definition one_issued :: "unit StateMachine" where
  "one_issued = snd (IssueTicket 1 ''T'' [] (NewStateMachine ''node0'' ()))"

theorem transition_is_causally_last_witness:
  "\<exists>t c'. mget (sm_currentState (snd (ValidateTicket 2 ''T'' ''v'' [] one_issued))) ''T'' = Some t \<and>
     t_VectorClock t = Some c' \<and> Compare (NewVectorClock ''node0'') c' = Before"
proof -
  have u: "mget (sm_currentState one_issued) ''T'' = Some \<lparr>t_ID = ''T'', t_State = StateIssued,
      t_Data = [], t_ValidatorID = [], t_Timestamp = 1,
      t_VectorClock = Some (NewVectorClock ''node0''), t_Metadata = fmempty\<rparr>"
    and vc: "sm_vectorClock one_issued = NewVectorClock ''node0''"
    by (simp_all add: one_issued_def IssueTicket_fields) (simp add: NewStateMachine_def)+
  have "clocked one_issued"
    by (auto simp: clocked_def one_issued_def IssueTicket_fields NewStateMachine_def split: if_splits)
  moreover have "can_count (sm_vectorClock one_issued)" by (simp add: can_count_def vc)
  moreover have "state_of one_issued ''T'' = Some StateIssued" by (simp add: state_of_def u)
  ultimately show ?thesis
    using transition_is_causally_last [of one_issued "''T''" _ 2 "''v''" "[]", OF _ _ _ refl u] by auto
qed

text \<open>
  After \<open>MergeState\<close> the machine's clock is the least upper bound of its own clock and
  the clocks of the received tickets.
\<close>

theorem MergeState_clock_is_lub:
  assumes "MergeState ts sm = Some sm'"
  shows "vc_leq (sm_vectorClock sm) (sm_vectorClock sm') \<and>
    (\<forall>t c. t \<in> set ts \<and> t_VectorClock t = Some c \<longrightarrow> vc_leq c (sm_vectorClock sm')) \<and>
    (\<forall>b. vc_leq (sm_vectorClock sm) b \<and>
         (\<forall>t c. t \<in> set ts \<and> t_VectorClock t = Some c \<longrightarrow> vc_leq c b) \<longrightarrow> vc_leq (sm_vectorClock sm') b)"
proof -
  let ?cs = "map (\<lambda>t. the (t_VectorClock t)) ts"
  have cs: "set ?cs = {c. \<exists>t \<in> set ts. t_VectorClock t = Some c}"
    using MergeState_SomeD(3) [OF assms] by (force simp: has_clock_def)
  show ?thesis
    unfolding MergeState_SomeD(2) [OF assms]
    using vcj.fold_join_own [of "sm_vectorClock sm" ?cs]
      vcj.fold_join_member [of _ ?cs "sm_vectorClock sm"]
      vcj.fold_join_least [of "sm_vectorClock sm" _ ?cs] cs by blast
qed

theorem MergeState_clock_is_lub_witness:
  "\<exists>sm'. MergeState [stale_copy] one_issued = Some sm' \<and>
     vc_leq (Increment (NewVectorClock ''node1'')) (sm_vectorClock sm')"
proof -
  have "sm_ok one_issued"
    by (simp add: one_issued_def sm_ok_def IssueTicket_fields ticket_ok_def NewStateMachine_def fmpred_upd)
  then obtain sm' where "MergeState [stale_copy] one_issued = Some sm'"
    using MergeState_None_iff [of one_issued "[stale_copy]"]
    by (auto simp: has_clock_def stale_copy_def)
  with MergeState_clock_is_lub [OF this] show ?thesis by (auto simp: stale_copy_def)
qed

text \<open>
  C15: two replicas that exchange their copies of a ticket agree on its state, validator and
  timestamp afterwards exactly when one copy is causally newer, or the copies are concurrent
  and have different timestamps, or they agreed before. So concurrent copies with equal
  timestamps, and different copies with equal clocks, are never reconciled.
\<close>

theorem exchange_converges_iff:
  assumes "mget (sm_currentState A) i = Some a" and "mget (sm_currentState B) i = Some b"
    and "t_ID a = i" and "t_ID b = i"
    and "t_VectorClock a = Some ca" and "t_VectorClock b = Some cb"
    and "MergeState [b] A = Some A'" and "MergeState [a] B = Some B'"
  shows "map_option core (mget (sm_currentState A') i) = map_option core (mget (sm_currentState B') i) \<longleftrightarrow>
    (case Compare ca cb of
       Before \<Rightarrow> True | After \<Rightarrow> True
     | Concurrent \<Rightarrow> t_Timestamp a \<noteq> t_Timestamp b \<or> core a = core b
     | Equal \<Rightarrow> core a = core b)"
proof -
  obtain x where x: "resolve b a = Some x" "sm_currentState A' = fmupd i x (sm_currentState A)"
    using MergeState_single [OF assms(7,1,4)] by blast
  obtain y where y: "resolve a b = Some y" "sm_currentState B' = fmupd i y (sm_currentState B)"
    using MergeState_single [OF assms(8,2,3)] by blast
  have "core x = core y \<longleftrightarrow>
    (case Compare ca cb of
       Before \<Rightarrow> True | After \<Rightarrow> True
     | Concurrent \<Rightarrow> t_Timestamp a \<noteq> t_Timestamp b \<or> core a = core b
     | Equal \<Rightarrow> core a = core b)"
    using x(1) y(1) assms(5,6)
    by (cases "Compare ca cb")
      (auto simp: resolve_def Compare_dual [of cb ca] split: if_splits)
  with x(2) y(2) show ?thesis by simp
qed

definition holding :: "Ticket \<Rightarrow> unit StateMachine" where
  "holding t = (NewStateMachine ''node0'' ())\<lparr>sm_currentState := fmupd (t_ID t) t fmempty\<rparr>"

lemma holding_merge:
  "t_ID r = t_ID t \<Longrightarrow> has_clock t \<Longrightarrow> has_clock r \<Longrightarrow> \<exists>sm'. MergeState [r] (holding t) = Some sm'"
  using MergeState_None_iff [of "holding t" "[r]"]
  by (auto simp: sm_ok_def holding_def ticket_ok_def has_clock_def fmpred_upd)

theorem exchange_converges_iff_witness:
  "\<exists>A' B'. MergeState [stale_copy] (holding (stale_copy\<lparr>t_State := StateValidated\<rparr>)) = Some A' \<and>
     MergeState [stale_copy\<lparr>t_State := StateValidated\<rparr>] (holding stale_copy) = Some B' \<and>
     map_option core (mget (sm_currentState A') ''T'') \<noteq> map_option core (mget (sm_currentState B') ''T'')"
proof -
  let ?a = "stale_copy\<lparr>t_State := StateValidated\<rparr>" and ?b = stale_copy
  obtain A' B' where A: "MergeState [?b] (holding ?a) = Some A'" and B: "MergeState [?a] (holding ?b) = Some B'"
    using holding_merge [of ?b ?a] holding_merge [of ?a ?b] by (auto simp: has_clock_def stale_copy_def)
  have "map_option core (mget (sm_currentState A') ''T'') \<noteq> map_option core (mget (sm_currentState B') ''T'')"
    using exchange_converges_iff [OF _ _ _ _ _ _ A B, of "''T''"]
    by (simp add: holding_def stale_copy_def core_def)
  with A B show ?thesis by blast
qed

text \<open>Merging the same remote tickets again changes no ticket.\<close>

theorem MergeState_idempotent:
  assumes "MergeState ts sm = Some sm'" and "distinct (map t_ID ts)"
  shows "\<exists>sm''. MergeState ts sm' = Some sm'' \<and> sm_currentState sm'' = sm_currentState sm'"
proof -
  have "merge_tickets ts (sm_currentState sm') = Some (sm_currentState sm')"
    using merge_tickets_stable [OF MergeState_SomeD(1) [OF assms(1)] assms(2)]
    by (rule merge_tickets_fixed)
  with MergeState_SomeD(3) [OF assms(1)] show ?thesis by (simp add: MergeState_def merge_clocks_fold)
qed

theorem MergeState_idempotent_witness:
  "\<exists>sm' sm''. MergeState [stale_copy] (holding stale_copy) = Some sm' \<and>
     MergeState [stale_copy] sm' = Some sm'' \<and> sm_currentState sm'' = sm_currentState sm'"
proof -
  obtain sm' where "MergeState [stale_copy] (holding stale_copy) = Some sm'"
    using holding_merge [of stale_copy stale_copy] by (auto simp: has_clock_def stale_copy_def)
  with MergeState_idempotent [OF this] show ?thesis by simp
qed

subsection \<open>The notifier\<close>

lemma send_all_full: "mget chans ch = Some (x # xs) \<Longrightarrow> mget (send_all chs st chans) ch = Some (x # xs)"
  by (induction chs st chans rule: send_all.induct) (auto split: option.splits list.splits)

lemma send_all_other: "ch \<notin> set chs \<Longrightarrow> mget (send_all chs st chans) ch = mget chans ch"
  by (induction chs st chans rule: send_all.induct) (auto split: option.splits list.splits)

lemma send_all_empty:
  "ch \<in> set chs \<Longrightarrow> mget chans ch = Some [] \<Longrightarrow> mget (send_all chs st chans) ch = Some [st]"
proof (induction chs st chans rule: send_all.induct)
  case (2 c chs st chans)
  then show ?case by (cases "c = ch") (auto simp: send_all_full split: option.splits list.splits)
qed simp

text \<open>
  A waiting subscriber gets the first state its ticket takes after it subscribed, and
  keeps it however many notifications follow before it reads.
\<close>

theorem Notify_first_state_kept:
  assumes "Subscribe i sn = (ch, sn')"
  shows "mget (sn_chans (fold (Notify i) sts (Notify i st sn'))) ch = Some [st]"
proof -
  have "mget (sn_chans sn') ch = Some []" and "ch \<in> set (subs_of i sn')"
    using assms by (auto simp: Subscribe_def Let_def subs_of_def)
  then have "mget (sn_chans (Notify i st sn')) ch = Some [st]"
    by (simp add: Notify_def send_all_empty)
  moreover have "mget (sn_chans x) ch = Some [st] \<Longrightarrow> mget (sn_chans (fold (Notify i) sts x)) ch = Some [st]"
    for x
    by (induction sts arbitrary: x) (simp_all add: Notify_def send_all_full)
  ultimately show ?thesis by blast
qed

theorem Notify_first_state_kept_witness:
  "mget (sn_chans (fold (Notify ''T'') [StateConsumed] (Notify ''T'' StateValidated
     (snd (Subscribe ''T'' NewStateNotifier))))) 0 = Some [StateValidated]"
  by (rule Notify_first_state_kept [of _ NewStateNotifier])
    (simp add: Subscribe_def NewStateNotifier_def Let_def)

end
