(* ===== verification/Storage.thy ===== *)
theory Storage
  imports Messages
begin

text \<open>
  \<open>pkg/storage/store.go\<close>: the persistent store. BoltDB is a third-party library; it is the
  record \<open>Bolt\<close> of the calls the store makes, over a type \<open>'d\<close> of databases, which every
  operation takes as an argument. What the store relies on is the predicate \<open>bolt_ok\<close>: an
  update transaction commits what its function computed or leaves the database as it was,
  a put changes the value of one key and nothing else, and \<open>ForEach\<close> visits the pairs of a
  bucket in byte order. \<open>encoding/json\<close> is a codec for each record type; \<open>json_ok\<close> says that a
  record whose strings are ASCII comes back as it was (the encoder replaces invalid UTF-8).
  A transaction sees the database, so both have the type \<open>'d\<close>. When \<open>json.Unmarshal\<close> fails
  the source returns the half-filled record with the error; the model returns the error.
\<close>

section \<open>Model\<close>

record TicketRecord =
  tk_ID :: string
  tk_State :: string
  tk_Data :: bytes
  tk_ValidatorID :: string
  tk_Timestamp :: int
  tk_VectorClock :: "(string, uint64) gomap"
  tk_Metadata :: "(string, string) gomap"

record ConsensusRecord =
  cr_Sequence :: int
  cr_View :: int
  cr_RequestID :: string
  cr_TicketID :: string
  cr_Operation :: string
  cr_Digest :: string
  cr_Timestamp :: int

record CheckpointRecord =
  ck_Sequence :: int
  ck_StateDigest :: string
  ck_NodeID :: string
  ck_Timestamp :: int

datatype store_error =
    OpenFailed string
  | CreateBucketFailed bytes string
  | BucketNotFound bytes
  | JsonMarshal string string
  | JsonUnmarshal string
  | RecordNotFound string string
  | NoCheckpoints
  | BoltError string

record 'd Bolt =
  bolt_Open :: "string \<Rightarrow> int \<Rightarrow> string + 'd"
  bolt_Update :: "('d \<Rightarrow> store_error + 'd) \<Rightarrow> 'd \<Rightarrow> store_error option \<times> 'd"
  bolt_View :: "'d \<Rightarrow> string option"
  bolt_Create :: "bytes \<Rightarrow> 'd \<Rightarrow> string + 'd"
  bolt_Bucket :: "bytes \<Rightarrow> 'd \<Rightarrow> bool"
  bolt_Names :: "'d \<Rightarrow> bytes list"
  bolt_Put :: "bytes \<Rightarrow> bytes \<Rightarrow> bytes \<Rightarrow> 'd \<Rightarrow> string + 'd"
  bolt_Get :: "bytes \<Rightarrow> bytes \<Rightarrow> 'd \<Rightarrow> bytes option"
  bolt_Delete :: "bytes \<Rightarrow> bytes \<Rightarrow> 'd \<Rightarrow> string + 'd"
  bolt_ForEach :: "bytes \<Rightarrow> 'd \<Rightarrow> (bytes \<times> bytes) list"
  bolt_Last :: "bytes \<Rightarrow> 'd \<Rightarrow> (bytes \<times> bytes) option"

record Json =
  js_ticket :: "TicketRecord Codec"
  js_consensus :: "ConsensusRecord Codec"
  js_checkpoint :: "CheckpointRecord Codec"

definition BucketTickets :: bytes where "BucketTickets = ''tickets''"
definition BucketConsensus :: bytes where "BucketConsensus = ''consensus''"
definition BucketCheckpoints :: bytes where "BucketCheckpoints = ''checkpoints''"
definition BucketMetadata :: bytes where "BucketMetadata = ''metadata''"

lemmas bucket_names = BucketTickets_def BucketConsensus_def BucketCheckpoints_def BucketMetadata_def

fun create_buckets :: "'d Bolt \<Rightarrow> bytes list \<Rightarrow> 'd \<Rightarrow> store_error + 'd" where
  "create_buckets B [] tx = Inr tx"
| "create_buckets B (bucket # buckets) tx =
     (case bolt_Create B bucket tx of
        Inl err \<Rightarrow> Inl (CreateBucketFailed bucket err)
      | Inr tx' \<Rightarrow> create_buckets B buckets tx')"

definition NewStore :: "'d Bolt \<Rightarrow> string \<Rightarrow> int \<Rightarrow> store_error + 'd" where
  "NewStore B path cfgTimeout =
     (let timeout = (if cfgTimeout = 0 then 10000000000 else cfgTimeout)
      in case bolt_Open B path timeout of
           Inl err \<Rightarrow> Inl (OpenFailed err)
         | Inr db \<Rightarrow>
             (case bolt_Update B
                     (create_buckets B [BucketTickets, BucketConsensus, BucketCheckpoints, BucketMetadata]) db of
                (Some err, db') \<Rightarrow> Inl err
              | (None, db') \<Rightarrow> Inr db'))"

definition put_in :: "'d Bolt \<Rightarrow> bytes \<Rightarrow> bytes \<Rightarrow> bytes \<Rightarrow> 'd \<Rightarrow> store_error + 'd" where
  "put_in B bucket key data tx =
     (case bolt_Put B bucket key data tx of Inl err \<Rightarrow> Inl (BoltError err) | Inr tx' \<Rightarrow> Inr tx')"

text \<open>The body of \<open>SaveTicket\<close>, \<open>SaveConsensusLog\<close> and \<open>SaveCheckpoint\<close>.\<close>

definition save_record :: "'d Bolt \<Rightarrow> string \<Rightarrow> bytes \<Rightarrow> 'r Codec \<Rightarrow> bytes \<Rightarrow> 'r \<Rightarrow> 'd \<Rightarrow> store_error option \<times> 'd" where
  "save_record B kind bucket json key r db =
     bolt_Update B (\<lambda>tx.
       if \<not> bolt_Bucket B bucket tx then Inl (BucketNotFound bucket)
       else case Marshal json r of
         Inl err \<Rightarrow> Inl (JsonMarshal kind err)
       | Inr data \<Rightarrow> put_in B bucket key data tx) db"

text \<open>A read-only transaction.\<close>

definition db_View :: "'d Bolt \<Rightarrow> ('d \<Rightarrow> store_error + 'r) \<Rightarrow> 'd \<Rightarrow> store_error + 'r" where
  "db_View B f db = (case bolt_View B db of Some err \<Rightarrow> Inl (BoltError err) | None \<Rightarrow> f db)"

definition unmarshal_record :: "'r Codec \<Rightarrow> bytes \<Rightarrow> store_error + 'r" where
  "unmarshal_record json data =
     (case Unmarshal json data of Inl err \<Rightarrow> Inl (JsonUnmarshal err) | Inr r \<Rightarrow> Inr r)"

text \<open>The body of \<open>GetTicket\<close> and \<open>GetConsensusLog\<close>.\<close>

definition get_record :: "'d Bolt \<Rightarrow> string \<Rightarrow> bytes \<Rightarrow> 'r Codec \<Rightarrow> bytes \<Rightarrow> string \<Rightarrow> 'd \<Rightarrow> store_error + 'r" where
  "get_record B kind bucket json key name db =
     db_View B (\<lambda>tx.
       if \<not> bolt_Bucket B bucket tx then Inl (BucketNotFound bucket)
       else case bolt_Get B bucket key tx of
         None \<Rightarrow> Inl (RecordNotFound kind name)
       | Some data \<Rightarrow> unmarshal_record json data) db"

fun unmarshal_all :: "'r Codec \<Rightarrow> (bytes \<times> bytes) list \<Rightarrow> store_error + 'r list" where
  "unmarshal_all json [] = Inr []"
| "unmarshal_all json ((k, v) # kvs) =
     (case unmarshal_record json v of
        Inl err \<Rightarrow> Inl err
      | Inr r \<Rightarrow> map_sum id ((#) r) (unmarshal_all json kvs))"

text \<open>The body of \<open>GetAllTickets\<close> and \<open>GetConsensusLogs\<close>.\<close>

definition get_records :: "'d Bolt \<Rightarrow> bytes \<Rightarrow> 'r Codec \<Rightarrow> 'd \<Rightarrow> store_error + 'r list" where
  "get_records B bucket json db =
     db_View B (\<lambda>tx.
       if \<not> bolt_Bucket B bucket tx then Inl (BucketNotFound bucket)
       else unmarshal_all json (bolt_ForEach B bucket tx)) db"

definition SaveTicket :: "'d Bolt \<Rightarrow> Json \<Rightarrow> TicketRecord \<Rightarrow> 'd \<Rightarrow> store_error option \<times> 'd" where
  "SaveTicket B J ticket db =
     save_record B ''ticket'' BucketTickets (js_ticket J) (tk_ID ticket) ticket db"

definition store_GetTicket :: "'d Bolt \<Rightarrow> Json \<Rightarrow> string \<Rightarrow> 'd \<Rightarrow> store_error + TicketRecord" where
  "store_GetTicket B J ticketID db =
     get_record B ''ticket'' BucketTickets (js_ticket J) ticketID ticketID db"

definition store_GetAllTickets :: "'d Bolt \<Rightarrow> Json \<Rightarrow> 'd \<Rightarrow> store_error + TicketRecord list" where
  "store_GetAllTickets B J db = get_records B BucketTickets (js_ticket J) db"

definition DeleteTicket :: "'d Bolt \<Rightarrow> string \<Rightarrow> 'd \<Rightarrow> store_error option \<times> 'd" where
  "DeleteTicket B ticketID db =
     bolt_Update B (\<lambda>tx.
       if \<not> bolt_Bucket B BucketTickets tx then Inl (BucketNotFound BucketTickets)
       else case bolt_Delete B BucketTickets ticketID tx of
         Inl err \<Rightarrow> Inl (BoltError err)
       | Inr tx' \<Rightarrow> Inr tx') db"

definition sequenceKey :: "int \<Rightarrow> bytes" where
  "sequenceKey seq =
     (let width = 20; s = FormatInt seq
      in if width \<le> length s then s else replicate (width - length s) (CHR ''0'') @ s)"

definition SaveConsensusLog :: "'d Bolt \<Rightarrow> Json \<Rightarrow> ConsensusRecord \<Rightarrow> 'd \<Rightarrow> store_error option \<times> 'd" where
  "SaveConsensusLog B J r db =
     save_record B ''consensus record'' BucketConsensus (js_consensus J) (sequenceKey (cr_Sequence r)) r db"

definition GetConsensusLog :: "'d Bolt \<Rightarrow> Json \<Rightarrow> int \<Rightarrow> 'd \<Rightarrow> store_error + ConsensusRecord" where
  "GetConsensusLog B J sequence db =
     get_record B ''consensus log'' BucketConsensus (js_consensus J) (sequenceKey sequence)
       (FormatInt sequence) db"

definition GetConsensusLogs :: "'d Bolt \<Rightarrow> Json \<Rightarrow> 'd \<Rightarrow> store_error + ConsensusRecord list" where
  "GetConsensusLogs B J db = get_records B BucketConsensus (js_consensus J) db"

definition SaveCheckpoint :: "'d Bolt \<Rightarrow> Json \<Rightarrow> CheckpointRecord \<Rightarrow> 'd \<Rightarrow> store_error option \<times> 'd" where
  "SaveCheckpoint B J r db =
     save_record B ''checkpoint'' BucketCheckpoints (js_checkpoint J) (sequenceKey (ck_Sequence r)) r db"

definition GetLatestCheckpoint :: "'d Bolt \<Rightarrow> Json \<Rightarrow> 'd \<Rightarrow> store_error + CheckpointRecord" where
  "GetLatestCheckpoint B J db =
     db_View B (\<lambda>tx.
       if \<not> bolt_Bucket B BucketCheckpoints tx then Inl (BucketNotFound BucketCheckpoints)
       else case bolt_Last B BucketCheckpoints tx of
         None \<Rightarrow> Inl NoCheckpoints
       | Some (k, v) \<Rightarrow> unmarshal_record (js_checkpoint J) v) db"

definition SetMetadata :: "'d Bolt \<Rightarrow> string \<Rightarrow> bytes \<Rightarrow> 'd \<Rightarrow> store_error option \<times> 'd" where
  "SetMetadata B key val db =
     bolt_Update B (\<lambda>tx.
       if \<not> bolt_Bucket B BucketMetadata tx then Inl (BucketNotFound BucketMetadata)
       else put_in B BucketMetadata key val tx) db"

definition GetMetadata :: "'d Bolt \<Rightarrow> string \<Rightarrow> 'd \<Rightarrow> store_error + bytes" where
  "GetMetadata B key db =
     db_View B (\<lambda>tx.
       if \<not> bolt_Bucket B BucketMetadata tx then Inl (BucketNotFound BucketMetadata)
       else case bolt_Get B BucketMetadata key tx of
         None \<Rightarrow> Inl (RecordNotFound ''metadata key'' key)
       | Some data \<Rightarrow> Inr data) db"

text \<open>\<open>Compact\<close> copies every bucket into another database, in one transaction of that.\<close>

fun copy_pairs :: "'d Bolt \<Rightarrow> bytes \<Rightarrow> (bytes \<times> bytes) list \<Rightarrow> 'd \<Rightarrow> store_error + 'd" where
  "copy_pairs B name [] newTx = Inr newTx"
| "copy_pairs B name ((k, v) # kvs) newTx =
     (case put_in B name k v newTx of Inl err \<Rightarrow> Inl err | Inr newTx' \<Rightarrow> copy_pairs B name kvs newTx')"

fun copy_buckets :: "'d Bolt \<Rightarrow> 'd \<Rightarrow> bytes list \<Rightarrow> 'd \<Rightarrow> store_error + 'd" where
  "copy_buckets B tx [] newTx = Inr newTx"
| "copy_buckets B tx (name # names) newTx =
     (case bolt_Create B name newTx of
        Inl err \<Rightarrow> Inl (BoltError err)
      | Inr newTx1 \<Rightarrow>
          (case copy_pairs B name (bolt_ForEach B name tx) newTx1 of
             Inl err \<Rightarrow> Inl err
           | Inr newTx2 \<Rightarrow> copy_buckets B tx names newTx2))"

definition Compact :: "'d Bolt \<Rightarrow> string \<Rightarrow> 'd \<Rightarrow> store_error + (store_error option \<times> 'd)" where
  "Compact B newPath db =
     (case bolt_Open B newPath 10000000000 of
        Inl err \<Rightarrow> Inl (OpenFailed err)
      | Inr newDB \<Rightarrow>
          db_View B (\<lambda>tx. Inr (bolt_Update B (copy_buckets B tx (bolt_Names B tx)) newDB)) db)"

section \<open>What the store relies on\<close>

definition bolt_transactions :: "'d Bolt \<Rightarrow> bool" where
  "bolt_transactions B \<longleftrightarrow>
     (\<forall>f d d'. bolt_Update B f d = (None, d') \<longrightarrow> f d = Inr d') \<and>
     (\<forall>f d e d'. bolt_Update B f d = (Some e, d') \<longrightarrow> d' = d)"

definition bolt_writes :: "'d Bolt \<Rightarrow> bool" where
  "bolt_writes B \<longleftrightarrow>
     (\<forall>b k v d d'. bolt_Put B b k v d = Inr d' \<longrightarrow>
        (\<forall>b' k'. bolt_Get B b' k' d' = (if b' = b \<and> k' = k then Some v else bolt_Get B b' k' d)) \<and>
        (\<forall>b'. bolt_Bucket B b' d' = bolt_Bucket B b' d)) \<and>
     (\<forall>b k d d'. bolt_Delete B b k d = Inr d' \<longrightarrow>
        (\<forall>b' k'. bolt_Get B b' k' d' = (if b' = b \<and> k' = k then None else bolt_Get B b' k' d)) \<and>
        (\<forall>b'. bolt_Bucket B b' d' = bolt_Bucket B b' d)) \<and>
     (\<forall>b d d'. bolt_Create B b d = Inr d' \<longrightarrow>
        (\<forall>b' k'. bolt_Get B b' k' d' = bolt_Get B b' k' d) \<and>
        (\<forall>b'. bolt_Bucket B b' d' = (b' = b \<or> bolt_Bucket B b' d)))"

definition bolt_reads :: "'d Bolt \<Rightarrow> bool" where
  "bolt_reads B \<longleftrightarrow>
     (\<forall>b d. sorted_wrt (<) (map fst (bolt_ForEach B b d)) \<and>
        (\<forall>k v. (k, v) \<in> set (bolt_ForEach B b d) \<longleftrightarrow> bolt_Get B b k d = Some v) \<and>
        bolt_Last B b d = (if bolt_ForEach B b d = [] then None else Some (last (bolt_ForEach B b d)))) \<and>
     (\<forall>d. set (bolt_Names B d) = {b. bolt_Bucket B b d}) \<and>
     (\<forall>b k d. bolt_Get B b k d \<noteq> None \<longrightarrow> bolt_Bucket B b d)"

definition bolt_ok :: "'d Bolt \<Rightarrow> bool" where
  "bolt_ok B \<longleftrightarrow> bolt_transactions B \<and> bolt_writes B \<and> bolt_reads B"

definition ascii :: "string \<Rightarrow> bool" where
  "ascii s \<longleftrightarrow> list_all (\<lambda>c. (of_char c :: nat) < 128) s"

definition ascii_map :: "(string, 'v) gomap \<Rightarrow> bool" where
  "ascii_map m \<longleftrightarrow> (\<forall>k \<in> fset (fmdom m). ascii k)"

definition plain_ticket :: "TicketRecord \<Rightarrow> bool" where
  "plain_ticket r \<longleftrightarrow> ascii (tk_ID r) \<and> ascii (tk_State r) \<and> ascii (tk_ValidatorID r) \<and>
     ascii_map (tk_VectorClock r) \<and> ascii_map (tk_Metadata r) \<and>
     (\<forall>v \<in> fset (fmran (tk_Metadata r)). ascii v)"

definition plain_consensus :: "ConsensusRecord \<Rightarrow> bool" where
  "plain_consensus r \<longleftrightarrow> ascii (cr_RequestID r) \<and> ascii (cr_TicketID r) \<and> ascii (cr_Operation r) \<and>
     ascii (cr_Digest r)"

definition plain_checkpoint :: "CheckpointRecord \<Rightarrow> bool" where
  "plain_checkpoint r \<longleftrightarrow> ascii (ck_StateDigest r) \<and> ascii (ck_NodeID r)"

definition json_codec_ok :: "('r \<Rightarrow> bool) \<Rightarrow> 'r Codec \<Rightarrow> bool" where
  "json_codec_ok plain c \<longleftrightarrow> (\<forall>r b. plain r \<longrightarrow> Marshal c r = Inr b \<longrightarrow> Unmarshal c b = Inr r)"

definition json_ok :: "Json \<Rightarrow> bool" where
  "json_ok J \<longleftrightarrow> json_codec_ok plain_ticket (js_ticket J) \<and>
     json_codec_ok plain_consensus (js_consensus J) \<and> json_codec_ok plain_checkpoint (js_checkpoint J)"

section \<open>Keys in sequence order\<close>

locale ordered_key =
  fixes key :: "'k::linorder \<Rightarrow> 'b::linorder" and valid :: "'k \<Rightarrow> bool"
  assumes key_less: "valid a \<Longrightarrow> valid b \<Longrightarrow> a < b \<Longrightarrow> key a < key b"
begin

lemma key_less_iff: "valid a \<Longrightarrow> valid b \<Longrightarrow> key a < key b \<longleftrightarrow> a < b"
  using key_less by (metis less_irrefl neqE order_less_trans)

lemma key_eq_iff: "valid a \<Longrightarrow> valid b \<Longrightarrow> key a = key b \<longleftrightarrow> a = b"
  using key_less by (metis less_irrefl neqE)

lemma sorted_keys:
  "\<forall>r \<in> set rs. valid (f r) \<Longrightarrow> sorted_wrt (<) (map (\<lambda>r. key (f r)) rs) \<Longrightarrow> sorted_wrt (<) (map f rs)"
  by (induction rs) (auto simp: key_less_iff)

end

lemma dec_val_append: "dec_val (s @ t) = dec_val s * 10 ^ length t + dec_val t"
proof (induction t rule: rev_induct)
  case (snoc c t)
  have "dec_val (s @ t @ [c]) = 10 * dec_val (s @ t) + char_digit c"
    using dec_val_snoc [of "s @ t" c] by simp
  with snoc show ?case by (simp add: algebra_simps)
qed (simp add: dec_val_def)

definition digits :: "string \<Rightarrow> bool" where
  "digits s \<longleftrightarrow> (\<forall>c \<in> set s. \<exists>d < 10. c = digit_char d)"

lemma dec_val_bound: "digits s \<Longrightarrow> dec_val s < 10 ^ length s"
proof (induction s rule: rev_induct)
  case (snoc c s)
  then obtain d where "d < 10" and "c = digit_char d" by (auto simp: digits_def)
  moreover have "dec_val s < 10 ^ length s" using snoc by (simp add: digits_def)
  ultimately show ?case by simp
qed (simp add: dec_val_def)

lemma dec_val_Cons: "dec_val (c # s) = char_digit c * 10 ^ length s + dec_val s"
  using dec_val_append [of "[c]" s] by (simp add: dec_val_def)

lemma digit_char_less: "a < 10 \<Longrightarrow> b < 10 \<Longrightarrow> digit_char a < digit_char b \<longleftrightarrow> a < b"
  by (simp add: less_char_def)

lemma digits_less:
  assumes "length s = length t" and "digits s" and "digits t" and "dec_val s < dec_val t"
  shows "s < t"
  using assms
proof (induction s t rule: list_induct2)
  case (Cons c s e t)
  obtain a b where ab: "a < 10" "c = digit_char a" "b < 10" "e = digit_char b"
    using Cons.prems by (auto simp: digits_def)
  have s: "digits s" "digits t" using Cons.prems by (auto simp: digits_def)
  show ?case
  proof (cases "a = b")
    case True
    with Cons s ab show ?thesis by (simp add: dec_val_Cons)
  next
    case False
    have "\<not> b < a"
    proof
      assume "b < a"
      then have "(b + 1) * 10 ^ length s \<le> a * 10 ^ length s" by (intro mult_right_mono) auto
      with dec_val_bound [OF s(2)] Cons.hyps Cons.prems(3) ab show False
        by (simp add: dec_val_Cons)
    qed
    with False ab show ?thesis by (simp add: digit_char_less)
  qed
qed simp

lemma dec_nat_length: "0 < k \<Longrightarrow> n < 10 ^ k \<Longrightarrow> length (dec_nat n) \<le> k"
proof (induction n arbitrary: k rule: dec_nat.induct)
  case (1 n)
  show ?case
  proof (cases "n < 10")
    case True
    with "1.prems" show ?thesis by (simp add: dec_nat.simps [of n])
  next
    case False
    with "1.prems" obtain j where k: "k = Suc j" "0 < j" by (cases k; cases "k - 1") auto
    then have "n div 10 < 10 ^ j" using "1.prems" by (simp add: less_mult_imp_div_less mult.commute)
    from "1.IH" [OF False k(2) this] False k show ?thesis by (simp add: dec_nat.simps [of n])
  qed
qed

lemma digits_dec_nat: "digits (dec_nat n)"
  using dec_nat_digits by (auto simp: digits_def)

lemma digits_append [simp]: "digits (s @ t) \<longleftrightarrow> digits s \<and> digits t"
  by (auto simp: digits_def)

lemma digit_char_zero: "CHR ''0'' = digit_char 0"
  using char_of_char [of "CHR ''0''", where 'a = nat] by (simp add: digit_char_def)

lemma digits_zeros [simp]: "digits (replicate n (CHR ''0''))"
  by (auto simp: digits_def digit_char_zero intro: exI [of _ 0])

lemma dec_val_zeros: "dec_val (replicate n (CHR ''0'')) = 0"
  by (induction n) (simp_all add: dec_val_Cons, simp_all add: dec_val_def char_digit_def)

definition sequence_number :: "int \<Rightarrow> bool" where
  "sequence_number s \<longleftrightarrow> 0 \<le> s \<and> in_int64 s"

lemma sequenceKey_padded:
  assumes "sequence_number s"
  shows "length (sequenceKey s) = 20" and "digits (sequenceKey s)" and "dec_val (sequenceKey s) = nat s"
proof -
  have "nat s < 10 ^ 19" using assms by (simp add: sequence_number_def in_int64_def nat_less_iff)
  then have "length (dec_nat (nat s)) \<le> 19" by (intro dec_nat_length) simp_all
  then have key: "sequenceKey s = replicate (20 - length (dec_nat (nat s))) (CHR ''0'') @ dec_nat (nat s)"
    using assms by (simp add: sequenceKey_def FormatInt_def sequence_number_def Let_def)
  show "length (sequenceKey s) = 20" using \<open>length (dec_nat (nat s)) \<le> 19\<close> by (simp add: key)
  show "digits (sequenceKey s)" by (simp add: key digits_dec_nat)
  show "dec_val (sequenceKey s) = nat s" by (simp add: key dec_val_append dec_val_zeros)
qed

interpretation seqkey: ordered_key sequenceKey sequence_number
proof unfold_locales
  fix a b :: int
  assume ab: "sequence_number a" "sequence_number b" "a < b"
  then have "nat a < nat b" by (simp add: sequence_number_def)
  then show "sequenceKey a < sequenceKey b"
    using sequenceKey_padded [OF ab(1)] sequenceKey_padded [OF ab(2)] by (intro digits_less) simp_all
qed

section \<open>Buckets of records\<close>

lemma Update_cases:
  assumes "bolt_ok B"
  obtains (committed) d' where "bolt_Update B f d = (None, d')" and "f d = Inr d'"
    | (failed) e where "bolt_Update B f d = (Some e, d)"
  using assms unfolding bolt_ok_def bolt_transactions_def by (metis option.exhaust surj_pair)

lemma bolt_PutD:
  assumes "bolt_ok B" and "bolt_Put B b k v d = Inr d'"
  shows "bolt_Get B b' k' d' = (if b' = b \<and> k' = k then Some v else bolt_Get B b' k' d)"
    and "bolt_Bucket B b' d' = bolt_Bucket B b' d"
  using assms unfolding bolt_ok_def bolt_writes_def by blast+

lemma bolt_ForEachD:
  assumes "bolt_ok B"
  shows "sorted_wrt (<) (map fst (bolt_ForEach B b d))"
    and "(k, v) \<in> set (bolt_ForEach B b d) \<longleftrightarrow> bolt_Get B b k d = Some v"
    and "bolt_Last B b d = (if bolt_ForEach B b d = [] then None else Some (last (bolt_ForEach B b d)))"
  using assms unfolding bolt_ok_def bolt_reads_def by blast+

lemma put_in_Inr: "put_in B b k v d = Inr d' \<longleftrightarrow> bolt_Put B b k v d = Inr d'"
  by (simp add: put_in_def split: sum.splits)

text \<open>A save either stores the encoded record under its key and nothing else, or fails and
  changes nothing.\<close>

lemma save_record_outcome:
  assumes "bolt_ok B"
  shows "(\<exists>e. save_record B kind b json key r d = (Some e, d)) \<or>
    (\<exists>d' data. save_record B kind b json key r d = (None, d') \<and> Marshal json r = Inr data \<and>
       bolt_Bucket B b d \<and> (\<forall>b'. bolt_Bucket B b' d' = bolt_Bucket B b' d) \<and>
       (\<forall>b' k'. bolt_Get B b' k' d' = (if b' = b \<and> k' = key then Some data else bolt_Get B b' k' d)))"
proof -
  let ?f = "\<lambda>tx. if \<not> bolt_Bucket B b tx then Inl (BucketNotFound b)
    else case Marshal json r of Inl err \<Rightarrow> Inl (JsonMarshal kind err) | Inr data \<Rightarrow> put_in B b key data tx"
  from assms show ?thesis
  proof (cases rule: Update_cases [where f = ?f and d = d, consumes 1])
    case (committed d')
    from committed(2) obtain data where "Marshal json r = Inr data" and put: "bolt_Put B b key data d = Inr d'"
      and "bolt_Bucket B b d"
      by (auto simp: put_in_Inr split: if_splits sum.splits)
    then show ?thesis using committed(1) bolt_PutD [OF assms put] by (auto simp: save_record_def)
  qed (auto simp: save_record_def)
qed

lemma save_record_bucket:
  assumes "bolt_ok B"
  shows "bolt_Bucket B b' (snd (save_record B kind b json key r d)) = bolt_Bucket B b' d"
  using save_record_outcome [OF assms, of kind b json key r d] by (elim disjE exE conjE) simp_all

lemma save_recordD:
  assumes "bolt_ok B" and "save_record B kind b json key r d = (None, d')"
  obtains data where "Marshal json r = Inr data" and "bolt_Bucket B b d"
    and "\<forall>b'. bolt_Bucket B b' d' = bolt_Bucket B b' d"
    and "\<forall>b' k'. bolt_Get B b' k' d' = (if b' = b \<and> k' = key then Some data else bolt_Get B b' k' d)"
  using save_record_outcome [OF assms(1), of kind b json key r d] assms(2) by force

lemma get_record_after_save:
  assumes "bolt_ok B" and "json_codec_ok plain json" and "plain r"
    and "save_record B kind b json key r d = (None, d')" and "bolt_View B d' = None"
  shows "get_record B kind' b json key name d' = Inr r"
proof -
  from save_recordD [OF assms(1,4)] obtain data where "Marshal json r = Inr data"
    and "bolt_Get B b key d' = Some data" and "bolt_Bucket B b d'" by (metis (no_types, lifting))
  moreover from this(1) have "Unmarshal json data = Inr r" using assms(2,3) by (simp add: json_codec_ok_def)
  ultimately show ?thesis
    using assms(5) by (simp add: get_record_def db_View_def unmarshal_record_def)
qed

lemma get_record_frame:
  assumes "bolt_ok B" and "save_record B kind b json key r d = (None, d')"
    and "bolt_View B d' = bolt_View B d" and "b' \<noteq> b \<or> key' \<noteq> key"
  shows "get_record B kind' b' json' key' name d' = get_record B kind' b' json' key' name d"
proof -
  have "bolt_Bucket B b' d' = bolt_Bucket B b' d" and "bolt_Get B b' key' d' = bolt_Get B b' key' d"
    using save_recordD [OF assms(1,2)] assms(4) by metis+
  with assms(3) show ?thesis by (simp add: get_record_def db_View_def split: option.split)
qed

text \<open>Saving a list of records one after the other, all successfully.\<close>

fun save_all :: "('r \<Rightarrow> 'd \<Rightarrow> store_error option \<times> 'd) \<Rightarrow> 'r list \<Rightarrow> 'd \<Rightarrow> store_error + 'd" where
  "save_all save [] d = Inr d"
| "save_all save (r # rs) d =
     (case save r d of (Some e, d') \<Rightarrow> Inl e | (None, d') \<Rightarrow> save_all save rs d')"

text \<open>The record of a list that was saved last under a key.\<close>

definition latest :: "('r \<Rightarrow> 'k) \<Rightarrow> 'r list \<Rightarrow> 'k \<Rightarrow> 'r option" where
  "latest key rs k = find (\<lambda>r. key r = k) (rev rs)"

lemma find_append: "find P (xs @ ys) = (case find P xs of None \<Rightarrow> find P ys | Some x \<Rightarrow> Some x)"
  by (induction xs) auto

lemma latest_Cons: "latest key (r # rs) k = (case latest key rs k of
    None \<Rightarrow> if key r = k then Some r else None | Some x \<Rightarrow> Some x)"
  by (simp add: latest_def find_append split: option.splits)

lemma latest_Nil [simp]: "latest key [] k = None"
  by (simp add: latest_def)

lemma latest_Some: "latest key rs k = Some r \<Longrightarrow> r \<in> set rs \<and> key r = k"
  by (auto simp: latest_def find_Some_iff in_set_conv_nth rev_nth)
    (metis One_nat_def Suc_le_lessD diff_Suc_less length_greater_0_conv length_pos_if_in_set nth_mem set_rev length_rev rev_nth)

lemma latest_exists: "r \<in> set rs \<Longrightarrow> \<exists>r'. latest key rs (key r) = Some r'"
  by (induction rs) (auto simp: latest_Cons split: option.splits)

lemma save_all_content:
  assumes "bolt_ok B" and "save_all (\<lambda>r. save_record B kind b json (key r) r) rs d = Inr d'"
  shows "bolt_Get B b k d' = (case latest key rs k of
      None \<Rightarrow> bolt_Get B b k d | Some r \<Rightarrow> Some (projr (Marshal json r)))"
    and "\<forall>r \<in> set rs. \<exists>data. Marshal json r = Inr data"
    and "rs \<noteq> [] \<Longrightarrow> bolt_Bucket B b d'"
proof -
  have "bolt_Get B b k d' = (case latest key rs k of
      None \<Rightarrow> bolt_Get B b k d | Some r \<Rightarrow> Some (projr (Marshal json r))) \<and>
    (\<forall>r \<in> set rs. \<exists>data. Marshal json r = Inr data) \<and>
    bolt_Bucket B b d' = bolt_Bucket B b d \<and> (rs \<noteq> [] \<longrightarrow> bolt_Bucket B b d')"
    using assms(2)
  proof (induction rs arbitrary: d)
    case (Cons r rs)
    then obtain d1 where d1: "save_record B kind b json (key r) r d = (None, d1)"
      and rest: "save_all (\<lambda>r. save_record B kind b json (key r) r) rs d1 = Inr d'"
      by (auto split: prod.splits option.splits)
    obtain data where data: "Marshal json r = Inr data" "bolt_Bucket B b d"
      "\<forall>b'. bolt_Bucket B b' d1 = bolt_Bucket B b' d"
      "\<forall>k'. bolt_Get B b k' d1 = (if k' = key r then Some data else bolt_Get B b k' d)"
      using save_recordD [OF assms(1) d1] by metis
    with Cons.IH [OF rest] show ?case by (auto simp: latest_Cons split: option.splits)
  qed simp
  then show "bolt_Get B b k d' = (case latest key rs k of
      None \<Rightarrow> bolt_Get B b k d | Some r \<Rightarrow> Some (projr (Marshal json r)))"
    and "\<forall>r \<in> set rs. \<exists>data. Marshal json r = Inr data" and "rs \<noteq> [] \<Longrightarrow> bolt_Bucket B b d'"
    by auto
qed

lemma unmarshal_all_map:
  assumes "\<forall>r \<in> set ls. unmarshal_record json (enc r) = Inr r"
  shows "unmarshal_all json (map (\<lambda>r. (key r, enc r)) ls) = Inr ls"
  using assms by (induction ls) auto

lemma unmarshal_saved:
  "json_codec_ok plain json \<Longrightarrow> plain r \<Longrightarrow> Marshal json r = Inr data \<Longrightarrow>
     unmarshal_record json (projr (Marshal json r)) = Inr r"
  by (simp add: json_codec_ok_def unmarshal_record_def)

text \<open>A bucket that was empty holds, after saves under \<open>key\<close>, the latest record of every key
  in the order of the keys.\<close>

lemma bucket_after_saves:
  assumes ok: "bolt_ok B" and json: "json_codec_ok plain json" and plain: "\<forall>r \<in> set rs. plain r"
    and nil: "bolt_ForEach B b d = []"
    and saves: "save_all (\<lambda>r. save_record B kind b json (key r) r) rs d = Inr d'"
  obtains ls where "bolt_ForEach B b d' = map (\<lambda>r. (key r, projr (Marshal json r))) ls"
    and "unmarshal_all json (bolt_ForEach B b d') = Inr ls"
    and "sorted_wrt (<) (map key ls)" and "set ls = {r. latest key rs (key r) = Some r}"
proof -
  let ?es = "bolt_ForEach B b d'" and ?enc = "\<lambda>r. projr (Marshal json r)"
  let ?ls = "map (\<lambda>(k, v). the (latest key rs k)) ?es"
  have none: "bolt_Get B b k d = None" for k
    using bolt_ForEachD(2) [OF ok, of k _ b d] nil by (metis not_None_eq empty_iff empty_set)
  have entry: "(k, v) \<in> set ?es \<longleftrightarrow> (\<exists>r. latest key rs k = Some r \<and> v = ?enc r)" for k v
    using bolt_ForEachD(2) [OF ok, of k v b d'] save_all_content(1) [OF ok saves, of k] none [of k]
    by (auto split: option.splits)
  have inv: "(\<lambda>r. (key r, ?enc r)) (the (latest key rs k)) = (k, v)" if "(k, v) \<in> set ?es" for k v
    using that entry [of k v] latest_Some [of key rs k] by auto
  then have "map (\<lambda>r. (key r, ?enc r)) ?ls = map id ?es"
    unfolding map_map by (intro map_cong refl) (auto split: prod.splits)
  then have eq: "?es = map (\<lambda>r. (key r, ?enc r)) ?ls" by simp
  have set: "set ?ls = {r. latest key rs (key r) = Some r}"
  proof
    show "set ?ls \<subseteq> {r. latest key rs (key r) = Some r}"
      using entry latest_Some [of key rs] by fastforce
    show "{r. latest key rs (key r) = Some r} \<subseteq> set ?ls"
    proof
      fix r assume "r \<in> {r. latest key rs (key r) = Some r}"
      then have "(key r, ?enc r) \<in> set ?es" and "the (latest key rs (key r)) = r" using entry by auto
      then show "r \<in> set ?ls" by force
    qed
  qed
  have "\<forall>r \<in> set ?ls. unmarshal_record json (?enc r) = Inr r"
  proof
    fix r assume "r \<in> set ?ls"
    then have "r \<in> set rs" using set latest_Some by fastforce
    with save_all_content(2) [OF ok saves] plain show "unmarshal_record json (?enc r) = Inr r"
      using unmarshal_saved [OF json] by blast
  qed
  from unmarshal_all_map [OF this, of key] have "unmarshal_all json ?es = Inr ?ls"
    unfolding eq [symmetric] .
  moreover have "map key ?ls = map fst (map (\<lambda>r. (key r, ?enc r)) ?ls)" by simp
  then have "map key ?ls = map fst ?es" unfolding eq [symmetric] .
  then have "sorted_wrt (<) (map key ?ls)" using bolt_ForEachD(1) [OF ok, of b d'] by argo
  ultimately show ?thesis using that [of ?ls] eq set by blast
qed

lemma latest_sequenceKey:
  assumes "\<forall>r \<in> set rs. sequence_number (f r)" and "sequence_number s"
  shows "latest (\<lambda>r. sequenceKey (f r)) rs (sequenceKey s) = latest f rs s"
  using assms by (induction rs) (simp_all add: latest_Cons seqkey.key_eq_iff split: option.splits)

lemma sequence_bucket_after_saves:
  assumes "bolt_ok B" and "json_codec_ok plain json" and "\<forall>r \<in> set rs. plain r \<and> sequence_number (f r)"
    and "bolt_ForEach B b d = []"
    and "save_all (\<lambda>r. save_record B kind b json (sequenceKey (f r)) r) rs d = Inr d'"
  obtains ls where "bolt_ForEach B b d' = map (\<lambda>r. (sequenceKey (f r), projr (Marshal json r))) ls"
    and "unmarshal_all json (bolt_ForEach B b d') = Inr ls"
    and "sorted_wrt (<) (map f ls)" and "set ls = {r. latest f rs (f r) = Some r}"
proof (rule bucket_after_saves [OF assms(1,2) _ assms(4,5)])
  show "\<forall>r \<in> set rs. plain r" using assms(3) by simp
next
  fix ls
  let ?key = "\<lambda>r. sequenceKey (f r)"
  assume ls: "bolt_ForEach B b d' = map (\<lambda>r. (?key r, projr (Marshal json r))) ls"
    "unmarshal_all json (bolt_ForEach B b d') = Inr ls" "sorted_wrt (<) (map ?key ls)"
    "set ls = {r. latest ?key rs (?key r) = Some r}"
  have "\<forall>r \<in> set ls. r \<in> set rs" using ls(4) latest_Some by fastforce
  then have valid: "\<forall>r \<in> set ls. sequence_number (f r)" using assms(3) by simp
  have rs: "\<forall>r \<in> set rs. sequence_number (f r)" using assms(3) by simp
  have "set ls = {r. latest f rs (f r) = Some r}"
  proof
    show "set ls \<subseteq> {r. latest f rs (f r) = Some r}"
      using ls(4) valid latest_sequenceKey [OF rs] by auto
    show "{r. latest f rs (f r) = Some r} \<subseteq> set ls"
    proof
      fix r assume r: "r \<in> {r. latest f rs (f r) = Some r}"
      then have "sequence_number (f r)" using rs latest_Some by fastforce
      with r show "r \<in> set ls" using ls(4) latest_sequenceKey [OF rs] by auto
    qed
  qed
  with ls seqkey.sorted_keys [OF valid] show ?thesis using that by blast
qed

section \<open>An in-memory database\<close>

definition mem_bolt :: "(bytes, (bytes, bytes) gomap) gomap Bolt" where
  "mem_bolt =
     \<lparr>bolt_Open = (\<lambda>path timeout. Inr fmempty),
      bolt_Update = (\<lambda>f d. case f d of Inl e \<Rightarrow> (Some e, d) | Inr d' \<Rightarrow> (None, d')),
      bolt_View = (\<lambda>d. None),
      bolt_Create = (\<lambda>b d. Inr (if mhas d b then d else fmupd b fmempty d)),
      bolt_Bucket = (\<lambda>b d. mhas d b),
      bolt_Names = keys,
      bolt_Put = (\<lambda>b k v d. if mhas d b then Inr (vote b k v d) else Inl ''bucket not found''),
      bolt_Get = (\<lambda>b k d. mget (inner d b) k),
      bolt_Delete = (\<lambda>b k d. if mhas d b then Inr (fmupd b (fmdrop k (inner d b)) d) else Inl ''bucket not found''),
      bolt_ForEach = (\<lambda>b d. entries (inner d b)),
      bolt_Last = (\<lambda>b d. if entries (inner d b) = [] then None else Some (last (entries (inner d b))))\<rparr>"

lemma map_fst_entries [simp]: "map fst (entries m) = keys m"
  by (simp add: entries_def comp_def)

lemma entries_empty [simp]: "entries fmempty = []"
  using enumerates_entries [of fmempty] by (simp del: enumerates_entries)

lemma strict_sorted_keys: "sorted_wrt (<) (keys m)"
  by (simp add: keys_def sorted_list_of_fset.rep_eq)

lemma set_entries: "(k, v) \<in> set (entries m) \<longleftrightarrow> mget m k = Some v"
  using enumerates_entries [of m] by (auto simp: enumerates_def)

lemma inner_upd [simp]: "inner (fmupd s x m) s' = (if s = s' then x else inner m s')"
  by (simp add: inner_def)

lemma mem_bolt_ok: "bolt_ok mem_bolt"
proof -
  have "bolt_transactions mem_bolt"
    by (auto simp: bolt_transactions_def mem_bolt_def split: sum.splits)
  moreover have "bolt_writes mem_bolt"
    by (auto simp: bolt_writes_def mem_bolt_def vote_def inner_def fmlookup_dom_iff split: if_splits)
  moreover have "bolt_reads mem_bolt"
    by (auto simp: bolt_reads_def mem_bolt_def strict_sorted_keys set_entries inner_def fmlookup_dom_iff
        split: option.splits)
  ultimately show ?thesis by (simp add: bolt_ok_def)
qed

definition mem_json :: Json where
  "mem_json =
     \<lparr>js_ticket = numbering
        (\<lambda>r. (tk_ID r, tk_State r, tk_Data r, tk_ValidatorID r, tk_Timestamp r,
              map (\<lambda>(k, v). (k, unat v)) (entries (tk_VectorClock r)), tk_Metadata r))
        (\<lambda>(a, b, c, d, e, f, g). \<lparr>tk_ID = a, tk_State = b, tk_Data = c, tk_ValidatorID = d, tk_Timestamp = e,
           tk_VectorClock = fmap_of_list (map (\<lambda>(k, v). (k, of_nat v)) f), tk_Metadata = g\<rparr>),
      js_consensus = numbering
        (\<lambda>r. (cr_Sequence r, cr_View r, cr_RequestID r, cr_TicketID r, cr_Operation r, cr_Digest r, cr_Timestamp r))
        (\<lambda>(a, b, c, d, e, f, g). \<lparr>cr_Sequence = a, cr_View = b, cr_RequestID = c, cr_TicketID = d,
           cr_Operation = e, cr_Digest = f, cr_Timestamp = g\<rparr>),
      js_checkpoint = numbering (\<lambda>r. (ck_Sequence r, ck_StateDigest r, ck_NodeID r, ck_Timestamp r))
        (\<lambda>(a, b, c, d). \<lparr>ck_Sequence = a, ck_StateDigest = b, ck_NodeID = c, ck_Timestamp = d\<rparr>)\<rparr>"

lemma map_of_entries: "map_of (entries m) k = mget m k"
proof (cases "mget m k")
  case None
  then show ?thesis by (auto simp: map_of_eq_None_iff set_entries)
next
  case (Some v)
  then show ?thesis by (auto simp: set_entries intro!: map_of_is_SomeI)
qed

lemma fmap_of_entries: "fmap_of_list (entries m) = m"
  by (rule fmap_ext) (simp add: fmlookup_of_list map_of_entries)

lemma json_codec_numbering:
  "(\<And>r. g (f r) = r) \<Longrightarrow> json_codec_ok plain (numbering f g)"
  by (auto simp: json_codec_ok_def numbering_def)

lemma mem_json_ok: "json_ok mem_json"
proof -
  have "map (\<lambda>(k, v). (k, of_nat v)) (map (\<lambda>(k, v). (k, unat v)) es) = es" for es :: "(string \<times> uint64) list"
    by (induction es) auto
  then show ?thesis unfolding json_ok_def mem_json_def
    by (simp add: json_codec_numbering fmap_of_entries)
qed

lemma numbering_Marshal [simp]: "\<exists>data. Marshal (numbering f g) m = Inr data"
  by (simp add: numbering_def)

section \<open>Properties\<close>

text \<open>
  C21: the ticket bucket is a map from IDs to records. A save that reports an error changes
  nothing; after a successful save \<open>GetTicket\<close> returns the record saved under its ID, what it
  returned before under every other ID, and the consensus log is as it was.
\<close>

theorem ticket_store_is_a_map:
  assumes "bolt_ok B" and "json_ok J" and "plain_ticket r" and "\<And>d. bolt_View B d = None"
    and "SaveTicket B J r d = (err, d')"
  shows "if err = None
    then (\<forall>i. store_GetTicket B J i d' = (if i = tk_ID r then Inr r else store_GetTicket B J i d)) \<and>
      (\<forall>s. GetConsensusLog B J s d' = GetConsensusLog B J s d)
    else d' = d"
proof (cases err)
  case None
  with assms(5) have save: "save_record B ''ticket'' BucketTickets (js_ticket J) (tk_ID r) r d = (None, d')"
    by (simp add: SaveTicket_def)
  have json: "json_codec_ok plain_ticket (js_ticket J)" using assms(2) by (simp add: json_ok_def)
  have "store_GetTicket B J i d' = (if i = tk_ID r then Inr r else store_GetTicket B J i d)" for i
    using get_record_after_save [OF assms(1) json assms(3) save assms(4)] assms(4)
      get_record_frame [OF assms(1) save, of BucketTickets i]
    by (cases "i = tk_ID r") (simp_all add: store_GetTicket_def)
  moreover have "GetConsensusLog B J s d' = GetConsensusLog B J s d" for s
    unfolding GetConsensusLog_def
    using assms(4) by (intro get_record_frame [OF assms(1) save]) (simp_all add: bucket_names)
  ultimately show ?thesis using None by simp
next
  case (Some e)
  with assms(5) save_record_outcome [OF assms(1), of "''ticket''" BucketTickets "js_ticket J" "tk_ID r" r d]
  show ?thesis by (auto simp: SaveTicket_def)
qed

definition example_record :: "string \<Rightarrow> TicketRecord" where
  "example_record st = \<lparr>tk_ID = ''TICKET-001'', tk_State = st, tk_Data = '''', tk_ValidatorID = ''node0'',
     tk_Timestamp = 5, tk_VectorClock = fmempty, tk_Metadata = fmempty\<rparr>"

theorem ticket_store_is_a_map_witness:
  "\<exists>d'. SaveTicket mem_bolt mem_json (example_record ''VALIDATED'') (fmupd BucketTickets fmempty fmempty) = (None, d') \<and>
     store_GetTicket mem_bolt mem_json ''TICKET-001'' d' = Inr (example_record ''VALIDATED'')"
proof -
  let ?r = "example_record ''VALIDATED''" and ?d = "fmupd BucketTickets fmempty fmempty"
  have plain: "plain_ticket ?r"
    by (simp add: plain_ticket_def example_record_def ascii_def ascii_map_def)
  obtain d' where save: "SaveTicket mem_bolt mem_json ?r ?d = (None, d')"
    by (simp add: SaveTicket_def save_record_def mem_bolt_def mem_json_def numbering_def put_in_def)
  have view: "\<And>d. bolt_View mem_bolt d = None" by (simp add: mem_bolt_def)
  from ticket_store_is_a_map [OF mem_bolt_ok mem_json_ok plain view save] save
  show ?thesis by (auto simp: example_record_def)
qed

text \<open>
  C22: \<open>GetLatestCheckpoint\<close> finds the checkpoint with the greatest sequence number, whatever
  the order in which checkpoints were saved into an empty bucket, and of several with that
  number the one saved last: the padded keys sort like the numbers.
\<close>

theorem latest_checkpoint_is_greatest:
  assumes "bolt_ok B" and "json_ok J" and "bolt_ForEach B BucketCheckpoints d = []"
    and "\<forall>r \<in> set rs. plain_checkpoint r \<and> sequence_number (ck_Sequence r)" and "rs \<noteq> []"
    and "save_all (SaveCheckpoint B J) rs d = Inr d'" and "bolt_View B d' = None"
  shows "\<exists>r \<in> set rs. GetLatestCheckpoint B J d' = Inr r \<and> latest ck_Sequence rs (ck_Sequence r) = Some r \<and>
    (\<forall>r' \<in> set rs. ck_Sequence r' \<le> ck_Sequence r)"
proof -
  let ?json = "js_checkpoint J" and ?b = BucketCheckpoints
  have json: "json_codec_ok plain_checkpoint ?json" using assms(2) by (simp add: json_ok_def)
  have saves: "save_all (\<lambda>r. save_record B ''checkpoint'' ?b ?json (sequenceKey (ck_Sequence r)) r) rs d = Inr d'"
    using assms(6) by (simp add: SaveCheckpoint_def [abs_def])
  obtain ls where ls: "bolt_ForEach B ?b d' = map (\<lambda>r. (sequenceKey (ck_Sequence r), projr (Marshal ?json r))) ls"
    "unmarshal_all ?json (bolt_ForEach B ?b d') = Inr ls"
    "sorted_wrt (<) (map ck_Sequence ls)" "set ls = {r. latest ck_Sequence rs (ck_Sequence r) = Some r}"
    by (rule sequence_bucket_after_saves [OF assms(1) json assms(4,3) saves])
  have cover: "\<exists>r \<in> set ls. ck_Sequence r = ck_Sequence r'" if "r' \<in> set rs" for r'
  proof -
    obtain r where r: "latest ck_Sequence rs (ck_Sequence r') = Some r" 
      using latest_exists [OF \<open>r' \<in> set rs\<close>, of ck_Sequence] by (elim exE)
    then have same: "ck_Sequence r = ck_Sequence r'" by (rule latest_Some [THEN conjunct2])
    with r have "r \<in> set ls" unfolding ls(4) by simp
    with same show ?thesis by blast
  qed
  have "ls \<noteq> []" using cover [of "hd rs"] assms(5) by auto
  then obtain xs m where m: "ls = xs @ [m]" by (cases ls rule: rev_cases) auto
  then have lm: "latest ck_Sequence rs (ck_Sequence m) = Some m" using ls(4) by auto
  then have mrs: "m \<in> set rs" using latest_Some [of ck_Sequence rs "ck_Sequence m" m] by simp
  have "\<forall>r' \<in> set rs. ck_Sequence r' \<le> ck_Sequence m"
  proof
    fix r' assume "r' \<in> set rs"
    then obtain r where "r \<in> set ls" and "ck_Sequence r = ck_Sequence r'" using cover by blast
    then show "ck_Sequence r' \<le> ck_Sequence m" using ls(3) m by (auto simp: sorted_wrt_append)
  qed
  moreover have "bolt_Last B ?b d' = Some (sequenceKey (ck_Sequence m), projr (Marshal ?json m))"
    using bolt_ForEachD(3) [OF assms(1), of ?b d'] ls(1) m by simp
  moreover have "bolt_Bucket B ?b d'" by (rule save_all_content(3) [OF assms(1) saves assms(5)])
  moreover have "unmarshal_record ?json (projr (Marshal ?json m)) = Inr m"
    using mrs assms(4) save_all_content(2) [OF assms(1) saves] unmarshal_saved [OF json] by blast
  ultimately show ?thesis using mrs lm assms(7) by (auto simp: GetLatestCheckpoint_def db_View_def)
qed

definition example_checkpoint :: "int \<Rightarrow> CheckpointRecord" where
  "example_checkpoint s = \<lparr>ck_Sequence = s, ck_StateDigest = ''d'', ck_NodeID = ''node0'', ck_Timestamp = 0\<rparr>"

theorem latest_checkpoint_is_greatest_witness:
  "\<exists>d'. save_all (SaveCheckpoint mem_bolt mem_json) (map example_checkpoint [9, 100, 20])
       (fmupd BucketCheckpoints fmempty fmempty) = Inr d' \<and>
     GetLatestCheckpoint mem_bolt mem_json d' = Inr (example_checkpoint 100)"
proof -
  let ?d = "fmupd BucketCheckpoints fmempty fmempty" and ?rs = "map example_checkpoint [9, 100, 20]"
  obtain d' where d': "save_all (SaveCheckpoint mem_bolt mem_json) ?rs ?d = Inr d'"
    by (simp add: SaveCheckpoint_def save_record_def mem_bolt_def mem_json_def numbering_def put_in_def)
  have plain: "\<forall>r \<in> set ?rs. plain_checkpoint r \<and> sequence_number (ck_Sequence r)"
    by (simp add: plain_checkpoint_def example_checkpoint_def ascii_def sequence_number_def in_int64_def)
  have "bolt_ForEach mem_bolt BucketCheckpoints ?d = []" and "bolt_View mem_bolt d' = None"
    by (simp_all add: mem_bolt_def)
  from latest_checkpoint_is_greatest [OF mem_bolt_ok mem_json_ok this(1) plain _ d' this(2)] d'
  show ?thesis by (auto simp: example_checkpoint_def)
qed

text \<open>
  \<open>GetConsensusLogs\<close> lists, for entries saved in any order into an empty bucket, one entry
  per sequence number, the one saved last, in increasing order of the numbers.
\<close>

theorem consensus_logs_in_order:
  assumes "bolt_ok B" and "json_ok J" and "bolt_ForEach B BucketConsensus d = []"
    and "\<forall>r \<in> set rs. plain_consensus r \<and> sequence_number (cr_Sequence r)" and "rs \<noteq> []"
    and "save_all (SaveConsensusLog B J) rs d = Inr d'" and "bolt_View B d' = None"
  shows "\<exists>ls. GetConsensusLogs B J d' = Inr ls \<and> sorted_wrt (<) (map cr_Sequence ls) \<and>
    set ls = {r. latest cr_Sequence rs (cr_Sequence r) = Some r}"
proof -
  have json: "json_codec_ok plain_consensus (js_consensus J)" using assms(2) by (simp add: json_ok_def)
  have saves: "save_all (\<lambda>r. save_record B ''consensus record'' BucketConsensus (js_consensus J)
      (sequenceKey (cr_Sequence r)) r) rs d = Inr d'"
    using assms(6) by (simp add: SaveConsensusLog_def [abs_def])
  have "bolt_Bucket B BucketConsensus d'" by (rule save_all_content(3) [OF assms(1) saves assms(5)])
  then show ?thesis
    using assms(7) sequence_bucket_after_saves [OF assms(1) json assms(4,3) saves]
    by (simp add: GetConsensusLogs_def get_records_def db_View_def) metis
qed

definition example_log :: "int \<Rightarrow> string \<Rightarrow> ConsensusRecord" where
  "example_log s t = \<lparr>cr_Sequence = s, cr_View = 0, cr_RequestID = ''r'', cr_TicketID = t,
     cr_Operation = ''VALIDATE'', cr_Digest = ''d'', cr_Timestamp = 0\<rparr>"

theorem consensus_logs_in_order_witness:
  "\<exists>d' ls. save_all (SaveConsensusLog mem_bolt mem_json) [example_log 10 ''a'', example_log 9 ''b'', example_log 10 ''c'']
       (fmupd BucketConsensus fmempty fmempty) = Inr d' \<and>
     GetConsensusLogs mem_bolt mem_json d' = Inr ls \<and> sorted_wrt (<) (map cr_Sequence ls) \<and>
     example_log 10 ''a'' \<notin> set ls"
proof -
  let ?d = "fmupd BucketConsensus fmempty fmempty"
  let ?rs = "[example_log 10 ''a'', example_log 9 ''b'', example_log 10 ''c'']"
  obtain d' where d': "save_all (SaveConsensusLog mem_bolt mem_json) ?rs ?d = Inr d'"
    by (simp add: SaveConsensusLog_def save_record_def mem_bolt_def mem_json_def numbering_def put_in_def)
  have plain: "\<forall>r \<in> set ?rs. plain_consensus r \<and> sequence_number (cr_Sequence r)"
    by (simp add: plain_consensus_def example_log_def ascii_def sequence_number_def in_int64_def)
  have "bolt_ForEach mem_bolt BucketConsensus ?d = []" and "bolt_View mem_bolt d' = None"
    by (simp_all add: mem_bolt_def)
  from consensus_logs_in_order [OF mem_bolt_ok mem_json_ok this(1) plain _ d' this(2)] d'
  show ?thesis by (auto simp: example_log_def latest_def)
qed

end
