(* ===== verification/Network.thy ===== *)
theory Network
  imports Messages
begin

text \<open>
  \<open>pkg/network/router.go\<close> and \<open>pkg/network/host.go\<close>: routing of received messages, the
  framing of messages on a stream, the table of peers, broadcasts and the deterministic key
  stream. libp2p is a parameter: the record \<open>Net\<close> says for each peer which error opening a
  stream or writing to it gives; a stream that is read is the list of bytes that arrive
  before it ends. Peer IDs are a type \<open>'p\<close>. Handlers act on a state \<open>'s\<close>.
\<close>

section \<open>Model\<close>

subsection \<open>Protobuf structures of state synchronisation\<close>

record pb_TicketState =
  ts_TicketId :: string
  ts_State :: int
  ts_LastUpdated :: int
  ts_ValidatorId :: string
  ts_VectorClock :: "(string, uint64) gomap option"
  ts_Metadata :: bytes

record pb_StateUpdate =
  su_Tickets :: "pb_TicketState list"
  su_NodeId :: string

record pb_StateSyncRequest =
  sq_RequesterId :: string
  sq_LastSequence :: int
  sq_Timestamp :: int

record pb_StateSyncResponse =
  sr_ResponderId :: string
  sr_CurrentSequence :: int
  sr_CurrentView :: int
  sr_ValidatedTickets :: "pb_TicketState list"
  sr_ConsensusLog :: "string list"
  sr_Timestamp :: int

record SyncCodecs =
  sc_update :: "pb_StateUpdate Codec"
  sc_request :: "pb_StateSyncRequest Codec"
  sc_response :: "pb_StateSyncResponse Codec"

subsection \<open>The router\<close>

type_synonym ('e, 's) PBFTHandler = "int \<Rightarrow> bytes \<Rightarrow> 's \<Rightarrow> 'e option \<times> 's"
type_synonym ('e, 's) StateHandler = "pb_StateUpdate \<Rightarrow> 's \<Rightarrow> 'e option \<times> 's"
type_synonym ('e, 's) StateSyncHandler = "int \<Rightarrow> bytes \<Rightarrow> 's \<Rightarrow> 'e option \<times> 's"

record ('e, 's) MessageRouter =
  mr_pbftHandler :: "('e, 's) PBFTHandler option"
  mr_stateHandler :: "('e, 's) StateHandler option"
  mr_stateSyncHandler :: "('e, 's) StateSyncHandler option"

datatype 'e route_error =
    RouteDeserialize msg_error
  | NoPBFTHandler
  | NoStateHandler
  | NoStateSyncHandler
  | StateUpdateUnmarshal string
  | UnknownMessageType int
  | HandlerFailed 'e

definition NewMessageRouter :: "('e, 's) MessageRouter" where
  "NewMessageRouter = \<lparr>mr_pbftHandler = None, mr_stateHandler = None, mr_stateSyncHandler = None\<rparr>"

definition RegisterPBFTHandler :: "('e, 's) PBFTHandler \<Rightarrow> ('e, 's) MessageRouter \<Rightarrow> ('e, 's) MessageRouter" where
  "RegisterPBFTHandler handler r = r\<lparr>mr_pbftHandler := Some handler\<rparr>"

definition RegisterStateHandler :: "('e, 's) StateHandler \<Rightarrow> ('e, 's) MessageRouter \<Rightarrow> ('e, 's) MessageRouter" where
  "RegisterStateHandler handler r = r\<lparr>mr_stateHandler := Some handler\<rparr>"

definition RegisterStateSyncHandler :: "('e, 's) StateSyncHandler \<Rightarrow> ('e, 's) MessageRouter \<Rightarrow> ('e, 's) MessageRouter" where
  "RegisterStateSyncHandler handler r = r\<lparr>mr_stateSyncHandler := Some handler\<rparr>"

fun handled :: "'e option \<times> 's \<Rightarrow> 'e route_error option \<times> 's" where
  "handled (err, s) = (map_option HandlerFailed err, s)"

definition RouteMessage ::
  "Codecs \<Rightarrow> SyncCodecs \<Rightarrow> bytes \<Rightarrow> ('e, 's) MessageRouter \<Rightarrow> 's \<Rightarrow> 'e route_error option \<times> 's" where
  "RouteMessage C SC data r s =
     (case DeserializeValidatorMessage C data of
        Inl err \<Rightarrow> (Some (RouteDeserialize err), s)
      | Inr msg \<Rightarrow>
          if vm_Type msg \<in> {0, 1, 2} then
            (case mr_pbftHandler r of
               None \<Rightarrow> (Some NoPBFTHandler, s)
             | Some h \<Rightarrow> handled (h (vm_Type msg) (vm_Payload msg) s))
          else if vm_Type msg = 5 then
            (case mr_stateHandler r of
               None \<Rightarrow> (Some NoStateHandler, s)
             | Some h \<Rightarrow>
                 (case Unmarshal (sc_update SC) (vm_Payload msg) of
                    Inl err \<Rightarrow> (Some (StateUpdateUnmarshal err), s)
                  | Inr stateUpdate \<Rightarrow> handled (h stateUpdate s)))
          else if vm_Type msg = 7 then
            (case mr_pbftHandler r of
               None \<Rightarrow> (Some NoPBFTHandler, s)
             | Some h \<Rightarrow> handled (h (vm_Type msg) (vm_Payload msg) s))
          else if vm_Type msg \<in> {3, 4, 6} then
            (case mr_pbftHandler r of
               None \<Rightarrow> (Some NoPBFTHandler, s)
             | Some h \<Rightarrow> handled (h (vm_Type msg) (vm_Payload msg) s))
          else if vm_Type msg \<in> {8, 9} then
            (case mr_stateSyncHandler r of
               None \<Rightarrow> (Some NoStateSyncHandler, s)
             | Some h \<Rightarrow> handled (h (vm_Type msg) (vm_Payload msg) s))
          else (Some (UnknownMessageType (vm_Type msg)), s))"

subsection \<open>The host\<close>

record 'p PeerConnection =
  pc_ID :: 'p
  pc_Addrs :: "string list"
  pc_IsValidator :: bool
  pc_MessagesSent :: int
  pc_MessagesRecvd :: int

type_synonym ('p, 's) LegacyHandler = "'p \<Rightarrow> bytes \<Rightarrow> 's \<Rightarrow> string option \<times> 's"

record ('p, 'e, 's) P2PHost =
  h_peers :: "('p, 'p PeerConnection) gomap"
  h_handlers :: "(string, ('p, 's) LegacyHandler) gomap"
  h_router :: "('e, 's) MessageRouter option"
  h_sent :: "('p \<times> bytes) list"

record 'p Net =
  net_NewStream :: "'p \<Rightarrow> string option"
  net_Write :: "'p \<Rightarrow> bytes \<Rightarrow> string option"

datatype send_error =
    StreamFailed string
  | WriteLengthFailed string
  | WriteDataFailed string

definition new_connection :: "'p \<Rightarrow> string list \<Rightarrow> bool \<Rightarrow> int \<Rightarrow> 'p PeerConnection" where
  "new_connection p addrs validator recvd =
     \<lparr>pc_ID = p, pc_Addrs = addrs, pc_IsValidator = validator, pc_MessagesSent = 0, pc_MessagesRecvd = recvd\<rparr>"

text \<open>The callbacks \<open>ConnectedF\<close> and \<open>DisconnectedF\<close>, with the remote address and with whether
  other connections to the peer remain.\<close>

definition ConnectedF :: "'p \<Rightarrow> string \<Rightarrow> ('p, 'e, 's) P2PHost \<Rightarrow> ('p, 'e, 's) P2PHost" where
  "ConnectedF p addr h =
     (if mhas (h_peers h) p then h
      else h\<lparr>h_peers := fmupd p (new_connection p [addr] True 0) (h_peers h)\<rparr>)"

definition DisconnectedF :: "'p \<Rightarrow> bool \<Rightarrow> ('p, 'e, 's) P2PHost \<Rightarrow> ('p, 'e, 's) P2PHost" where
  "DisconnectedF p othersRemain h =
     (if \<not> othersRemain then h\<lparr>h_peers := fmdrop p (h_peers h)\<rparr> else h)"

definition Connect :: "string option \<Rightarrow> 'p \<Rightarrow> string list \<Rightarrow> ('p, 'e, 's) P2PHost \<Rightarrow> string option \<times> ('p, 'e, 's) P2PHost" where
  "Connect outcome p addrs h =
     (case outcome of
        Some err \<Rightarrow> (Some err, h)
      | None \<Rightarrow> (None, h\<lparr>h_peers := fmupd p (new_connection p addrs True 0) (h_peers h)\<rparr>))"

text \<open>\<open>binary.BigEndian.PutUint32\<close> of the length as a \<open>uint32\<close>.\<close>

definition PutUint32 :: "nat \<Rightarrow> bytes" where
  "PutUint32 n =
     [char_of (n div 2 ^ 24 mod 256), char_of (n div 2 ^ 16 mod 256), char_of (n div 2 ^ 8 mod 256),
      char_of (n mod 256)]"

definition frame :: "bytes \<Rightarrow> bytes" where
  "frame data = (let msgLen = length data mod 2 ^ 32 in PutUint32 msgLen @ data)"

definition count_sent :: "'p \<Rightarrow> ('p, 'e, 's) P2PHost \<Rightarrow> ('p, 'e, 's) P2PHost" where
  "count_sent p h =
     (case mget (h_peers h) p of
        None \<Rightarrow> h
      | Some pc \<Rightarrow> h\<lparr>h_peers := fmupd p (pc\<lparr>pc_MessagesSent := int64 (pc_MessagesSent pc + 1)\<rparr>) (h_peers h)\<rparr>)"

definition SendMessage ::
  "'p Net \<Rightarrow> 'p \<Rightarrow> bytes \<Rightarrow> ('p, 'e, 's) P2PHost \<Rightarrow> send_error option \<times> ('p, 'e, 's) P2PHost" where
  "SendMessage N p data h =
     (case net_NewStream N p of
        Some err \<Rightarrow> (Some (StreamFailed err), h)
      | None \<Rightarrow>
          let lenBuf = PutUint32 (length data mod 2 ^ 32)
          in case net_Write N p lenBuf of
               Some err \<Rightarrow> (Some (WriteLengthFailed err), h)
             | None \<Rightarrow>
                 (case net_Write N p data of
                    Some err \<Rightarrow> (Some (WriteDataFailed err), h)
                  | None \<Rightarrow> (None, count_sent p (h\<lparr>h_sent := h_sent h @ [(p, lenBuf @ data)]\<rparr>))))"

text \<open>
  The sends of \<open>Broadcast\<close> run concurrently; \<open>ps\<close> is the order in which they finish, and so
  the order of the errors in the channel, of which the first is returned.
\<close>

fun broadcast_loop ::
  "'p Net \<Rightarrow> 'p list \<Rightarrow> bytes \<Rightarrow> ('p, 'e, 's) P2PHost \<Rightarrow> send_error list \<times> ('p, 'e, 's) P2PHost" where
  "broadcast_loop N [] data h = ([], h)"
| "broadcast_loop N (p # ps) data h =
     (case SendMessage N p data h of
        (err, h1) \<Rightarrow>
          (case broadcast_loop N ps data h1 of
             (errChan, h2) \<Rightarrow> ((case err of None \<Rightarrow> errChan | Some e \<Rightarrow> e # errChan), h2)))"

definition Broadcast ::
  "'p Net \<Rightarrow> 'p list \<Rightarrow> bytes \<Rightarrow> ('p, 'e, 's) P2PHost \<Rightarrow> send_error option \<times> ('p, 'e, 's) P2PHost" where
  "Broadcast N ps data h =
     (case broadcast_loop N ps data h of
        ([], h') \<Rightarrow> (None, h')
      | (err # errs, h') \<Rightarrow> (Some err, h'))"

definition host_RegisterHandler ::
  "string \<Rightarrow> ('p, 's) LegacyHandler \<Rightarrow> ('p, 'e, 's) P2PHost \<Rightarrow> ('p, 'e, 's) P2PHost" where
  "host_RegisterHandler messageType handler h = h\<lparr>h_handlers := fmupd messageType handler (h_handlers h)\<rparr>"

definition SetRouter :: "('e, 's) MessageRouter \<Rightarrow> ('p, 'e, 's) P2PHost \<Rightarrow> ('p, 'e, 's) P2PHost" where
  "SetRouter router h = h\<lparr>h_router := Some router\<rparr>"

text \<open>Reading a message from a stream.\<close>

datatype read_error =
    LengthReadFailed
  | MessageTooLong nat
  | DataReadFailed

definition maxMsgLen :: nat where "maxMsgLen = 10 * 1024 * 1024"

definition ReadFull :: "nat \<Rightarrow> bytes \<Rightarrow> (bytes \<times> bytes) option" where
  "ReadFull n stream = (if length stream < n then None else Some (take n stream, drop n stream))"

definition read_length :: "bytes \<Rightarrow> nat" where
  "read_length b =
     of_char (b ! 0) * 2 ^ 24 + of_char (b ! 1) * 2 ^ 16 + of_char (b ! 2) * 2 ^ 8 + of_char (b ! 3)"

definition read_frame :: "bytes \<Rightarrow> read_error + bytes" where
  "read_frame stream =
     (case ReadFull 4 stream of
        None \<Rightarrow> Inl LengthReadFailed
      | Some (lenBuf, rest) \<Rightarrow>
          let msgLen = read_length lenBuf
          in if maxMsgLen < msgLen then Inl (MessageTooLong msgLen)
             else case ReadFull msgLen rest of
               None \<Rightarrow> Inl DataReadFailed
             | Some (data, _) \<Rightarrow> Inr data)"

fun legacy_handlers :: "('p, 's) LegacyHandler list \<Rightarrow> 'p \<Rightarrow> bytes \<Rightarrow> 's \<Rightarrow> 's" where
  "legacy_handlers [] p data s = s"
| "legacy_handlers (f # fs) p data s = legacy_handlers fs p data (snd (f p data s))"

definition count_received :: "'p \<Rightarrow> ('p, 'e, 's) P2PHost \<Rightarrow> ('p, 'e, 's) P2PHost" where
  "count_received p h =
     (case mget (h_peers h) p of
        Some pc \<Rightarrow> h\<lparr>h_peers := fmupd p (pc\<lparr>pc_MessagesRecvd := int64 (pc_MessagesRecvd pc + 1)\<rparr>) (h_peers h)\<rparr>
      | None \<Rightarrow> h\<lparr>h_peers := fmupd p (new_connection p [] False 1) (h_peers h)\<rparr>)"

definition handleStream ::
  "Codecs \<Rightarrow> SyncCodecs \<Rightarrow> 'p \<Rightarrow> bytes \<Rightarrow> ('p, 'e, 's) P2PHost \<Rightarrow> 's \<Rightarrow> ('p, 'e, 's) P2PHost \<times> 's" where
  "handleStream C SC p stream h s =
     (case read_frame stream of
        Inl err \<Rightarrow> (h, s)
      | Inr data \<Rightarrow>
          let h1 = count_received p h
          in case h_router h1 of
               Some router \<Rightarrow> (h1, snd (RouteMessage C SC data router s))
             | None \<Rightarrow> (h1, legacy_handlers (map snd (entries (h_handlers h1))) p data s))"

definition GetPeers :: "('p::linorder, 'e, 's) P2PHost \<Rightarrow> 'p list" where
  "GetPeers h = keys (h_peers h)"

definition GetConnectedPeers :: "('p::linorder, 'e, 's) P2PHost \<Rightarrow> ('p \<times> string list) list" where
  "GetConnectedPeers h = map (\<lambda>(p, pc). (p, pc_Addrs pc)) (entries (h_peers h))"

definition GetPeerCount :: "('p, 'e, 's) P2PHost \<Rightarrow> int" where
  "GetPeerCount h = golen (h_peers h)"

subsection \<open>The key stream\<close>

record deterministicReader =
  dr_seed :: bytes
  dr_pos :: nat

text \<open>The loop of \<open>Read\<close> appends the hash of the whole buffer until it holds enough bytes.\<close>

function extend_seed :: "nat \<Rightarrow> nat \<Rightarrow> bytes \<Rightarrow> bytes" where
  "extend_seed pos n seed =
     (if int (length seed) - int pos < int n then extend_seed pos n (seed @ Sum256 seed) else seed)"
  by pat_completeness auto
termination by (relation "measure (\<lambda>(pos, n, seed). n + pos - length seed)") auto

declare extend_seed.simps [simp del]

definition reader_Read :: "nat \<Rightarrow> deterministicReader \<Rightarrow> bytes \<times> deterministicReader" where
  "reader_Read n r =
     (let seed = extend_seed (dr_pos r) n (dr_seed r);
          p = take n (drop (dr_pos r) seed)
      in (p, r\<lparr>dr_seed := seed, dr_pos := dr_pos r + length p\<rparr>))"

text \<open>\<open>crypto.GenerateEd25519Key\<close> is the parameter \<open>gen\<close>, the environment variable \<open>DTVN_KEY_SEED\<close>
  the argument \<open>envSeed\<close>.\<close>

definition GenerateDeterministicKey :: "(deterministicReader \<Rightarrow> string + 'k) \<Rightarrow> string \<Rightarrow> string \<Rightarrow> string + 'k" where
  "GenerateDeterministicKey gen envSeed nodeID =
     (let salt = (if envSeed = '''' then ''dtvn-validator-key-v1'' else envSeed);
          seed = Sum256 (salt @ nodeID)
      in case gen \<lparr>dr_seed = seed, dr_pos = 0\<rparr> of
           Inl err \<Rightarrow> Inl (''failed to generate deterministic key: '' @ err)
         | Inr privKey \<Rightarrow> Inr privKey)"

section \<open>Framing\<close>

lemma length_PutUint32 [simp]: "length (PutUint32 n) = 4"
  by (simp add: PutUint32_def)

lemma read_length_PutUint32: "n < 2 ^ 32 \<Longrightarrow> read_length (PutUint32 n @ rest) = n"
proof -
  assume n: "n < 2 ^ 32"
  have "n div 2 ^ 24 < 256" using n by (simp add: less_mult_imp_div_less)
  moreover have "n div 2 ^ 24 * 2 ^ 24 + n div 2 ^ 16 mod 256 * 2 ^ 16 + n div 2 ^ 8 mod 256 * 2 ^ 8 + n mod 256 = n"
  proof -
    have "n div 256 div 256 = n div 65536" and "n div 65536 div 256 = n div 16777216"
      by (simp_all flip: div_mult2_eq)
    then have "n div 16777216 * 256 + n div 65536 mod 256 = n div 65536"
      and "n div 65536 * 256 + n div 256 mod 256 = n div 256" and "n div 256 * 256 + n mod 256 = n"
      using div_mult_mod_eq [of n 256] div_mult_mod_eq [of "n div 256" 256]
        div_mult_mod_eq [of "n div 65536" 256] by simp_all
    then have "n div 16777216 * 16777216 + n div 65536 mod 256 * 65536 + n div 256 mod 256 * 256 + n mod 256 = n"
      by linarith
    then show ?thesis by simp
  qed
  ultimately show ?thesis by (simp add: read_length_def PutUint32_def)
qed

lemma read_frame_frame:
  assumes "length data < 2 ^ 32"
  shows "read_frame (frame data @ rest) =
    (if length data \<le> maxMsgLen then Inr data else Inl (MessageTooLong (length data)))"
proof -
  have "read_length (take 4 (frame data @ rest)) = length data"
    using read_length_PutUint32 [OF assms, of "[]"] assms by (simp add: frame_def)
  moreover have "drop 4 (frame data @ rest) = data @ rest" and "4 \<le> length (frame data @ rest)"
    by (simp_all add: frame_def)
  ultimately show ?thesis by (simp add: read_frame_def ReadFull_def)
qed

text \<open>
  C25: the receiver gets exactly the message that was sent, whatever follows it on the stream,
  as long as it is at most 10 MB long; a longer one, which \<open>SendMessage\<close> sends without an
  error, is refused; and a stream that breaks off anywhere inside a message gives an error,
  never a shortened message.
\<close>

theorem frame_roundtrip:
  assumes "length data < 2 ^ 32"
  shows "read_frame (frame data @ rest) =
      (if length data \<le> maxMsgLen then Inr data else Inl (MessageTooLong (length data))) \<and>
    (\<forall>n < length (frame data). \<exists>err. read_frame (take n (frame data)) = Inl err)"
proof (intro conjI allI impI)
  show "read_frame (frame data @ rest) =
      (if length data \<le> maxMsgLen then Inr data else Inl (MessageTooLong (length data)))"
    using assms by (rule read_frame_frame)
  fix n assume n: "n < length (frame data)"
  show "\<exists>err. read_frame (take n (frame data)) = Inl err"
  proof (cases "n < 4")
    case True
    with n show ?thesis by (simp add: read_frame_def ReadFull_def min_def)
  next
    case False
    have "read_length (take 4 (take n (frame data))) = length data"
      using False assms read_length_PutUint32 [OF assms, of "[]"] by (simp add: frame_def min_def)
    moreover have "length (drop 4 (take n (frame data))) < length data" using False n by (simp add: frame_def)
    ultimately show ?thesis using False n by (simp add: read_frame_def ReadFull_def Let_def)
  qed
qed

theorem frame_roundtrip_witness:
  "read_frame (frame ''PREPARE'' @ ''xyz'') = Inr ''PREPARE'' \<and>
     (\<exists>err. read_frame (take 6 (frame ''PREPARE'')) = Inl err)"
proof -
  note r = frame_roundtrip [of "''PREPARE''" "''xyz''"]
  have "read_frame (frame ''PREPARE'' @ ''xyz'') = Inr ''PREPARE''" using r by (simp add: maxMsgLen_def)
  moreover have "6 < length (frame ''PREPARE'')" by (simp add: frame_def)
  moreover have "length ''PREPARE'' < 2 ^ 32" by simp
  ultimately show ?thesis using r by blast
qed

section \<open>Broadcasts\<close>

definition reachable :: "'p Net \<Rightarrow> bytes \<Rightarrow> 'p \<Rightarrow> bool" where
  "reachable N data p \<longleftrightarrow> net_NewStream N p = None \<and>
     net_Write N p (PutUint32 (length data mod 2 ^ 32)) = None \<and> net_Write N p data = None"

lemma SendMessage_outcome:
  "SendMessage N p data h =
     (if reachable N data p then (None, count_sent p (h\<lparr>h_sent := h_sent h @ [(p, frame data)]\<rparr>))
      else (fst (SendMessage N p data h), h))"
  and SendMessage_error: "fst (SendMessage N p data h) = None \<longleftrightarrow> reachable N data p"
  by (auto simp: SendMessage_def reachable_def frame_def Let_def split: option.splits)

lemma count_sent_fields [simp]:
  "h_sent (count_sent p h) = h_sent h" "h_router (count_sent p h) = h_router h"
  "fmdom (h_peers (count_sent p h)) = fmdom (h_peers h)"
  by (auto simp: count_sent_def fmlookup_dom_iff split: option.splits)

lemma broadcast_loop_outcome:
  "h_sent (snd (broadcast_loop N ps data h)) = h_sent h @ map (\<lambda>p. (p, frame data)) (filter (reachable N data) ps) \<and>
   fmdom (h_peers (snd (broadcast_loop N ps data h))) = fmdom (h_peers h) \<and>
   (fst (broadcast_loop N ps data h) = [] \<longleftrightarrow> list_all (reachable N data) ps)"
proof (induction ps arbitrary: h)
  case (Cons p ps)
  show ?case
  proof (cases "reachable N data p")
    case True
    let ?h = "count_sent p (h\<lparr>h_sent := h_sent h @ [(p, frame data)]\<rparr>)"
    have "SendMessage N p data h = (None, ?h)" using SendMessage_outcome [of N p data h] True by simp
    with True Cons.IH [of ?h] show ?thesis by (cases "broadcast_loop N ps data ?h") simp
  next
    case False
    then obtain e where "SendMessage N p data h = (Some e, h)"
      using SendMessage_outcome [of N p data h] SendMessage_error [of N p data h] by (cases "SendMessage N p data h") auto
    with False Cons.IH [of h] show ?thesis by (cases "broadcast_loop N ps data h") simp
  qed
qed simp

text \<open>
  \<open>Broadcast\<close> reaches every peer of the table that can be reached, each exactly once and with
  the same frame, whichever sends fail and whatever the order in which they finish; it
  returns an error exactly when some peer could not be reached.
\<close>

theorem Broadcast_reaches_all:
  assumes "distinct ps" and "set ps = fset (fmdom (h_peers h))"
    and "Broadcast N ps data h = (err, h')"
  shows "\<exists>sent. h_sent h' = h_sent h @ map (\<lambda>p. (p, frame data)) sent \<and> distinct sent \<and>
      set sent = {p \<in> fset (fmdom (h_peers h)). reachable N data p} \<and>
      (err = None \<longleftrightarrow> (\<forall>p \<in> fset (fmdom (h_peers h)). reachable N data p))"
proof -
  have "h' = snd (broadcast_loop N ps data h)" and "err = None \<longleftrightarrow> fst (broadcast_loop N ps data h) = []"
    using assms(3) by (auto simp: Broadcast_def split: prod.splits list.splits)
  with broadcast_loop_outcome [of N ps data h] assms(1,2) show ?thesis
    by (intro exI [of _ "filter (reachable N data) ps"]) (auto simp: list_all_iff)
qed

definition example_host :: "nat list \<Rightarrow> (nat, string, unit) P2PHost" where
  "example_host ps = \<lparr>h_peers = fold (\<lambda>p. fmupd p (new_connection p [] True 0)) ps fmempty,
     h_handlers = fmempty, h_router = None, h_sent = []\<rparr>"

definition one_down :: "nat Net" where
  "one_down = \<lparr>net_NewStream = (\<lambda>p. if p = 2 then Some ''dial backoff'' else None), net_Write = (\<lambda>p b. None)\<rparr>"

theorem Broadcast_reaches_all_witness:
  "\<exists>err h'. Broadcast one_down [3, 2, 1] ''x'' (example_host [1, 2, 3]) = (Some err, h') \<and>
     set (h_sent h') = {(1, frame ''x''), (3, frame ''x'')}"
proof -
  let ?h = "example_host [1, 2, 3]"
  obtain err h' where b: "Broadcast one_down [3, 2, 1] ''x'' ?h = (err, h')" by fastforce
  have dom: "fset (fmdom (h_peers ?h)) = {1, 2, 3}" by (auto simp: example_host_def)
  have down: "\<not> reachable one_down ''x'' 2" and up: "reachable one_down ''x'' 1" "reachable one_down ''x'' 3"
    by (simp_all add: reachable_def one_down_def)
  obtain sent where "h_sent h' = h_sent ?h @ map (\<lambda>p. (p, frame ''x'')) sent"
    and "set sent = {p \<in> {1, 2, 3}. reachable one_down ''x'' p}"
    and "err = None \<longleftrightarrow> (\<forall>p \<in> {1, 2, 3}. reachable one_down ''x'' p)"
    using Broadcast_reaches_all [OF _ _ b] unfolding dom by auto
  then show ?thesis using b down up by (cases err) (auto simp: example_host_def)
qed

section \<open>The table of peers\<close>

datatype 'p peer_event =
    PConnected 'p string
  | PDisconnected 'p bool
  | PDialled "string option" 'p "string list"
  | PStream 'p bytes
  | PSent 'p

fun peer_step :: "'p peer_event \<Rightarrow> ('p, 'e, 's) P2PHost \<Rightarrow> ('p, 'e, 's) P2PHost" where
  "peer_step (PConnected p addr) h = ConnectedF p addr h"
| "peer_step (PDisconnected p others) h = DisconnectedF p others h"
| "peer_step (PDialled outcome p addrs) h = snd (Connect outcome p addrs h)"
| "peer_step (PStream p stream) h = (case read_frame stream of Inl err \<Rightarrow> h | Inr data \<Rightarrow> count_received p h)"
| "peer_step (PSent p) h = count_sent p h"

text \<open>Whether an event puts a peer into the table, takes it out, or says nothing about it.\<close>

fun verdict :: "'p \<Rightarrow> 'p peer_event \<Rightarrow> bool option" where
  "verdict p (PConnected q addr) = (if q = p then Some True else None)"
| "verdict p (PDisconnected q others) = (if q = p \<and> \<not> others then Some False else None)"
| "verdict p (PDialled outcome q addrs) = (if q = p \<and> outcome = None then Some True else None)"
| "verdict p (PStream q stream) = (if q = p \<and> \<not> isl (read_frame stream) then Some True else None)"
| "verdict p (PSent q) = None"

lemma peer_step_verdict:
  "mhas (h_peers (peer_step e h)) p \<longleftrightarrow> (case verdict p e of None \<Rightarrow> mhas (h_peers h) p | Some b \<Rightarrow> b)"
proof (cases e)
  case (PStream q stream)
  then show ?thesis
    by (auto simp: count_received_def fmlookup_dom_iff split: sum.splits option.splits)
qed (auto simp: ConnectedF_def DisconnectedF_def Connect_def split: option.splits)

text \<open>
  After any events a peer is in the table exactly when the last event that speaks about it
  put it there. A message that is read after the last connection to its sender was closed
  puts the sender back, so it counts as connected until the next disconnection.
\<close>

theorem peer_table_follows_last_event:
  "mhas (h_peers (fold peer_step es h)) p \<longleftrightarrow>
     (case find (\<lambda>e. verdict p e \<noteq> None) (rev es) of
        None \<Rightarrow> mhas (h_peers h) p
      | Some e \<Rightarrow> verdict p e = Some True)"
proof (induction es rule: rev_induct)
  case (snoc e es)
  show ?case using peer_step_verdict [of p e "fold peer_step es h"] snoc
    by (cases "verdict p e") (auto split: option.splits)
qed simp

section \<open>The key stream\<close>

text \<open>The buffer after \<open>k\<close> extensions.\<close>

fun extended :: "nat \<Rightarrow> bytes \<Rightarrow> bytes" where
  "extended 0 seed = seed"
| "extended (Suc k) seed = extended k (seed @ Sum256 seed)"

lemma length_extended [simp]: "length (extended k seed) = length seed + 32 * k"
  by (induction k arbitrary: seed) simp_all

lemma extended_extended: "extended k (extended j seed) = extended (j + k) seed"
  by (induction j arbitrary: seed) simp_all

lemma extended_prefix: "take (length seed) (extended k seed) = seed"
proof (induction k arbitrary: seed)
  case (Suc k)
  have "take (length seed) (extended k (seed @ Sum256 seed)) =
    take (length seed) (take (length (seed @ Sum256 seed)) (extended k (seed @ Sum256 seed)))"
    by (simp add: min_def)
  also have "\<dots> = seed" by (simp only: Suc) simp
  finally show ?case by simp
qed simp

lemma extend_seed_extended:
  "\<exists>k. extend_seed pos n seed = extended k seed \<and> pos + n \<le> length (extended k seed)"
proof (induction pos n seed rule: extend_seed.induct)
  case (1 pos n seed)
  show ?case
  proof (cases "int (length seed) - int pos < int n")
    case True
    with 1 obtain k where "extend_seed pos n (seed @ Sum256 seed) = extended (Suc k) seed"
      and "pos + n \<le> length (extended (Suc k) seed)" by auto
    with True show ?thesis by (intro exI [of _ "Suc k"]) (simp add: extend_seed.simps [of pos n seed])
  next
    case False
    then show ?thesis by (intro exI [of _ 0]) (simp add: extend_seed.simps [of pos n seed])
  qed
qed

lemma extended_agree:
  assumes "n \<le> length (extended j seed)" and "n \<le> length (extended k seed)"
  shows "take n (extended j seed) = take n (extended k seed)"
proof -
  have "take n (extended a seed) = take n (extended (a + b) seed)" if "n \<le> length (extended a seed)" for a b
  proof -
    have "take (length (extended a seed)) (extended (a + b) seed) = extended a seed"
      using extended_prefix [of "extended a seed" b] by (simp add: extended_extended)
    then show ?thesis using that by (metis min_absorb1 take_take)
  qed
  from this [OF assms(1), of k] this [OF assms(2), of j] show ?thesis by (simp add: add.commute)
qed

fun read_all :: "nat list \<Rightarrow> deterministicReader \<Rightarrow> bytes list \<times> deterministicReader" where
  "read_all [] r = ([], r)"
| "read_all (n # ns) r =
     (case reader_Read n r of (p, r1) \<Rightarrow> (case read_all ns r1 of (ps, r2) \<Rightarrow> (p # ps, r2)))"

definition reader_at :: "bytes \<Rightarrow> nat \<Rightarrow> deterministicReader \<Rightarrow> bool" where
  "reader_at seed pos r \<longleftrightarrow> dr_pos r = pos \<and> (\<exists>k. dr_seed r = extended k seed)"

lemma reader_Read_at:
  assumes "reader_at seed pos r"
  shows "\<exists>p r'. reader_Read n r = (p, r') \<and> length p = n \<and> reader_at seed (pos + n) r' \<and>
    (\<forall>k. pos + n \<le> length (extended k seed) \<longrightarrow> p = take n (drop pos (extended k seed)))"
proof -
  obtain j where r: "dr_pos r = pos" "dr_seed r = extended j seed"
    using assms by (auto simp: reader_at_def)
  obtain i where i: "extend_seed pos n (extended j seed) = extended (j + i) seed"
    "pos + n \<le> length (extended (j + i) seed)"
    using extend_seed_extended [of pos n "extended j seed"] by (auto simp: extended_extended)
  have "take n (drop pos (extended (j + i) seed)) = take n (drop pos (extended k seed))"
    if "pos + n \<le> length (extended k seed)" for k
    using extended_agree [OF i(2) that] by (metis add.commute drop_take add_diff_cancel_left')
  moreover have "length (take n (drop pos (extended (j + i) seed))) = n" using i(2) by simp
  ultimately show ?thesis using r i(1) by (auto simp: reader_Read_def reader_at_def Let_def)
qed

lemma read_all_at:
  assumes "reader_at seed pos r" and "pos + sum_list ns \<le> length (extended k seed)"
  shows "\<exists>ps r'. read_all ns r = (ps, r') \<and> map length ps = ns \<and>
    concat ps = take (sum_list ns) (drop pos (extended k seed))"
  using assms
proof (induction ns arbitrary: pos r)
  case (Cons n ns)
  obtain p r1 where p: "reader_Read n r = (p, r1)" "length p = n" "reader_at seed (pos + n) r1"
    "p = take n (drop pos (extended k seed))"
    using reader_Read_at [OF Cons.prems(1), of n] Cons.prems(2) by auto
  obtain ps r2 where ps: "read_all ns r1 = (ps, r2)" "map length ps = ns"
    "concat ps = take (sum_list ns) (drop (pos + n) (extended k seed))"
    using Cons.IH [OF p(3)] Cons.prems(2) by auto
  have "take (n + sum_list ns) (drop pos (extended k seed)) = p @ concat ps"
    using p(4) ps(3) by (simp add: take_add add.commute)
  with p ps show ?case by simp
qed simp

text \<open>
  C26: \<open>Read\<close> always returns, fills the whole buffer it is given, and successive reads of any
  sizes return consecutive pieces of one stream that depends on the seed alone, which starts
  with the seed and continues with hashes; in particular the first 32 bytes read from the
  reader of \<open>GenerateDeterministicKey\<close> are the hash of salt and node ID.
\<close>

theorem key_stream_is_deterministic:
  assumes "sum_list ns \<le> length (extended k seed)"
  shows "\<exists>ps r'. read_all ns \<lparr>dr_seed = seed, dr_pos = 0\<rparr> = (ps, r') \<and> map length ps = ns \<and>
    concat ps = take (sum_list ns) (extended k seed)"
proof -
  have "reader_at seed 0 \<lparr>dr_seed = seed, dr_pos = 0\<rparr>"
    by (auto simp: reader_at_def intro: exI [of _ 0])
  from read_all_at [OF this, of ns k] assms show ?thesis by simp
qed

theorem key_stream_is_deterministic_witness:
  "\<exists>r'. read_all [32] \<lparr>dr_seed = Sum256 ''dtvn-validator-key-v1node0'', dr_pos = 0\<rparr> =
     ([Sum256 ''dtvn-validator-key-v1node0''], r')"
proof -
  obtain ps r' where "read_all [32] \<lparr>dr_seed = Sum256 ''dtvn-validator-key-v1node0'', dr_pos = 0\<rparr> = (ps, r')"
    and "map length ps = [32]" and "concat ps = Sum256 ''dtvn-validator-key-v1node0''"
    using key_stream_is_deterministic [of "[32]" 0 "Sum256 ''dtvn-validator-key-v1node0''"] by auto
  then show ?thesis by (cases ps) auto
qed

end
