(* ===== verification/Validator.thy ===== *)
theory Validator
  imports PBFT Ticket_State Storage Network Go_Strings
begin

text \<open>
  \<open>cmd/validator/main.go\<close>: the node that puts the components together. The state machine's
  environment \<open>NodeEnv\<close> holds the notifier, the database and what the node sent; the PBFT
  replica's application state is the state machine with that environment; the node is the
  replica with the node's own fields. The handlers the node registers are therefore ordinary
  handlers of the components below.

  \<open>Deps\<close> are the libraries: BoltDB, the JSON codec and the protobuf codecs. \<open>World\<close> is what
  the surroundings answer during one event: the clock, the number of connected peers and the
  errors of broadcasts, direct sends and of the gossip engine's \<open>Publish\<close>; it is a field of
  the environment and set at the start of each event. A panic of a called component is the
  error \<open>NodePanic\<close>, or the text of a panic where a handler can only return a text.
\<close>

section \<open>Model\<close>

record World =
  w_now :: int
  w_nano :: int
  w_peerCount :: int
  w_broadcast :: "bytes \<Rightarrow> string option"
  w_sendTo :: "string \<Rightarrow> bytes \<Rightarrow> string option"
  w_publish :: "bytes \<Rightarrow> string option"

record 'd NodeEnv =
  ne_notifier :: StateNotifier
  ne_db :: 'd
  ne_world :: World
  ne_broadcasts :: "bytes list"
  ne_directs :: "(string \<times> bytes) list"
  ne_gossiped :: "bytes list"

record 'd Deps =
  d_bolt :: "'d Bolt"
  d_json :: Json
  d_codecs :: Codecs
  d_sync :: SyncCodecs

type_synonym 'd App = "'d NodeEnv StateMachine"

record 'd ValidatorNode =
  v_nodeID :: string
  v_totalNodes :: int
  v_peerID :: string
  v_pbft :: "'d App PBFTNode"

datatype val_error =
    TicketAlreadyValidated string
  | NotEnoughPeers int int
  | ProposalFailed pbft_error
  | ConsensusFailed string
  | ConsensusTimeout string
  | NodeShuttingDown
  | NoPeersConnected
  | ForwardSerialize msg_error
  | ForwardFailed string
  | SyncUnmarshal string
  | SyncMarshal string
  | SyncSend string
  | UnknownSyncType int
  | PBFTError pbft_error
  | StateError sm_error
  | DiscoveryFailed string
  | ApiServerFailed string
  | NodePanic

abbreviation v_app :: "'d ValidatorNode \<Rightarrow> 'd App" where
  "v_app v \<equiv> n_app (v_pbft v)"

definition with_app :: "'d App \<Rightarrow> 'd ValidatorNode \<Rightarrow> 'd ValidatorNode" where
  "with_app app v = v\<lparr>v_pbft := (v_pbft v)\<lparr>n_app := app\<rparr>\<rparr>"

definition with_env :: "'d NodeEnv \<Rightarrow> 'd App \<Rightarrow> 'd App" where
  "with_env e app = app\<lparr>sm_env := e\<rparr>"

abbreviation app_world :: "'d App \<Rightarrow> World" where
  "app_world app \<equiv> ne_world (sm_env app)"

subsection \<open>Translation of states\<close>

definition protoToState :: "int \<Rightarrow> TicketState" where
  "protoToState s =
     (if s = 0 then StateIssued else if s = 1 then StatePending else if s = 2 then StateValidated
      else if s = 3 then StateConsumed else if s = 4 then StateDisputed else '''')"

definition stateToProto :: "TicketState \<Rightarrow> int option" where
  "stateToProto s =
     (if s = StateIssued then Some 0 else if s = StatePending then Some 1
      else if s = StateValidated then Some 2 else if s = StateConsumed then Some 3
      else if s = StateDisputed then Some 4 else None)"

fun update_clock :: "(string \<times> uint64) list \<Rightarrow> VectorClock \<Rightarrow> VectorClock" where
  "update_clock [] vc = vc"
| "update_clock ((k, v) # es) vc = update_clock es (Update k v vc)"

definition ticket_from_proto :: "string \<Rightarrow> pb_TicketState \<Rightarrow> Ticket" where
  "ticket_from_proto nodeID ts =
     (let ticketState = protoToState (ts_State ts);
          vc = NewVectorClock nodeID;
          vc = (case ts_VectorClock ts of None \<Rightarrow> vc | Some clocks \<Rightarrow> update_clock (entries clocks) vc)
      in \<lparr>t_ID = ts_TicketId ts, t_State = ticketState, t_Data = ts_Metadata ts,
          t_ValidatorID = ts_ValidatorId ts, t_Timestamp = ts_LastUpdated ts, t_VectorClock = Some vc,
          t_Metadata = fmempty\<rparr>)"

subsection \<open>Persistence\<close>

definition ticket_record :: "Ticket \<Rightarrow> TicketRecord" where
  "ticket_record ticket =
     \<lparr>tk_ID = t_ID ticket, tk_State = t_State ticket, tk_Data = t_Data ticket,
      tk_ValidatorID = t_ValidatorID ticket, tk_Timestamp = t_Timestamp ticket,
      tk_VectorClock = (case t_VectorClock ticket of None \<Rightarrow> fmempty | Some vc \<Rightarrow> GetAll vc),
      tk_Metadata = t_Metadata ticket\<rparr>"

definition save_ticket :: "'d Deps \<Rightarrow> TicketRecord \<Rightarrow> 'd NodeEnv \<Rightarrow> store_error option \<times> 'd NodeEnv" where
  "save_ticket D r e =
     (case SaveTicket (d_bolt D) (d_json D) r (ne_db e) of (err, db) \<Rightarrow> (err, e\<lparr>ne_db := db\<rparr>))"

text \<open>The error of the store is only logged. \<open>None\<close> is the panic of \<open>GetTicket\<close>.\<close>

definition persistTicket :: "'d Deps \<Rightarrow> string \<Rightarrow> 'd App \<Rightarrow> 'd App option" where
  "persistTicket D ticketID app =
     (case GetTicket ticketID app of
        None \<Rightarrow> None
      | Some (Inl err) \<Rightarrow> Some app
      | Some (Inr ticket) \<Rightarrow>
          Some (with_env (snd (save_ticket D (ticket_record ticket) (sm_env app))) app))"

fun persist_all :: "'d Deps \<Rightarrow> string list \<Rightarrow> 'd App \<Rightarrow> 'd App option" where
  "persist_all D [] app = Some app"
| "persist_all D (i # is) app =
     (case persistTicket D i app of None \<Rightarrow> None | Some app' \<Rightarrow> persist_all D is app')"

definition ticket_from_record :: "string \<Rightarrow> TicketRecord \<Rightarrow> Ticket" where
  "ticket_from_record nodeID rec =
     \<lparr>t_ID = tk_ID rec, t_State = tk_State rec, t_Data = tk_Data rec, t_ValidatorID = tk_ValidatorID rec,
      t_Timestamp = tk_Timestamp rec,
      t_VectorClock = Some (update_clock (entries (tk_VectorClock rec)) (NewVectorClock nodeID)),
      t_Metadata = tk_Metadata rec\<rparr>"

definition loadTicketsFromStore :: "'d Deps \<Rightarrow> string \<Rightarrow> 'd App \<Rightarrow> 'd App option" where
  "loadTicketsFromStore D nodeID app =
     (case store_GetAllTickets (d_bolt D) (d_json D) (ne_db (sm_env app)) of
        Inl err \<Rightarrow> Some app
      | Inr records \<Rightarrow>
          if length records = 0 then Some app
          else MergeState (map (ticket_from_record nodeID) records) app)"

subsection \<open>Handlers of the state machine\<close>

definition notifier_handler :: "'d NodeEnv StateChangeHandler" where
  "notifier_handler ticket oldState newState e =
     (None, e\<lparr>ne_notifier := Notify (t_ID ticket) newState (ne_notifier e)\<rparr>)"

fun store_error_text :: "store_error \<Rightarrow> string" where
  "store_error_text (OpenFailed err) = ''failed to open database: '' @ err"
| "store_error_text (CreateBucketFailed b err) = ''failed to create bucket '' @ b @ '': '' @ err"
| "store_error_text (BucketNotFound b) = ''bucket '' @ b @ '' not found''"
| "store_error_text (JsonMarshal kind err) = ''failed to marshal '' @ kind @ '': '' @ err"
| "store_error_text (JsonUnmarshal err) = err"
| "store_error_text (RecordNotFound kind name) = kind @ '' '' @ name @ '' not found''"
| "store_error_text NoCheckpoints = ''no checkpoints found''"
| "store_error_text (BoltError err) = err"

definition storage_handler :: "'d Deps \<Rightarrow> 'd NodeEnv StateChangeHandler" where
  "storage_handler D ticket oldState newState e =
     (case t_VectorClock ticket of
        None \<Rightarrow> (Some ''panic: nil vector clock'', e)
      | Some vc \<Rightarrow>
          (case save_ticket D (ticket_record ticket) e of
             (err, e') \<Rightarrow> (map_option store_error_text err, e')))"

definition wrap_message :: "'d Deps \<Rightarrow> int \<Rightarrow> bytes \<Rightarrow> string \<Rightarrow> int \<Rightarrow> string + bytes" where
  "wrap_message D msgType payload sender now =
     Marshal (cd_vm (d_codecs D))
       \<lparr>vm_Type = msgType, vm_Payload = payload, vm_Signature = [], vm_Timestamp = now, vm_SenderId = sender\<rparr>"

definition state_publisher :: "'d Deps \<Rightarrow> string \<Rightarrow> 'd NodeEnv Publisher" where
  "state_publisher D nodeID ticketID ticketState validatorID timestamp e =
     (let protoState = (case stateToProto ticketState of None \<Rightarrow> 0 | Some s \<Rightarrow> s);
          update = \<lparr>su_Tickets = [\<lparr>ts_TicketId = ticketID, ts_State = protoState, ts_LastUpdated = timestamp,
                                   ts_ValidatorId = validatorID, ts_VectorClock = None, ts_Metadata = []\<rparr>],
                    su_NodeId = nodeID\<rparr>
      in case Marshal (sc_update (d_sync D)) update of
           Inl err \<Rightarrow> (Some (''failed to marshal state update: '' @ err), e)
         | Inr payload \<Rightarrow>
             (case wrap_message D 5 payload nodeID (w_now (ne_world e)) of
                Inl err \<Rightarrow> (Some (''failed to marshal ValidatorMessage: '' @ err), e)
              | Inr data \<Rightarrow> (w_publish (ne_world e) data, e\<lparr>ne_gossiped := ne_gossiped e @ [data]\<rparr>)))"

subsection \<open>Handlers of the replica\<close>

text \<open>\<open>err.Error()\<close> of the state machine's errors; \<open>ValidateTicket\<close> words a missing ticket
  differently (its text contains the UTF-8 bytes of a dash).\<close>

fun sm_error_text :: "string \<Rightarrow> sm_error \<Rightarrow> string" where
  "sm_error_text op (TicketExists i) = ''ticket '' @ i @ '' already exists''"
| "sm_error_text op (TicketNotFound i) = ''ticket '' @ i @ '' not found'' @
     (if op = ''VALIDATE''
      then '' '' @ [char_of (226::nat), char_of (128::nat), char_of (148::nat)] @ '' ticket must be issued before validation''
      else '''')"
| "sm_error_text op (AlreadyValidated i) = ''ticket '' @ i @ '' already validated''"
| "sm_error_text op (AlreadyConsumed i) = ''ticket '' @ i @ '' already consumed''"
| "sm_error_text op (TicketDisputed i) = ''ticket '' @ i @ '' is disputed''"
| "sm_error_text op (CannotValidate i s) = ''ticket '' @ i @ '' cannot be validated (current state: '' @ s @ '')''"
| "sm_error_text op (NotValidated i s) = ''ticket '' @ i @ '' is not validated (current state: '' @ s @ '')''"
| "sm_error_text op (HandlerError err) = ''handler error: '' @ err"

definition idempotent_error :: "string \<Rightarrow> bool" where
  "idempotent_error err \<longleftrightarrow> Contains err ''already validated'' \<or> Contains err ''already consumed'' \<or>
     Contains err ''already disputed''"

definition apply_operation :: "string \<Rightarrow> Request \<Rightarrow> 'd App \<Rightarrow> sm_error option \<times> 'd App" where
  "apply_operation validatorID req app =
     (let now = w_now (app_world app)
      in if r_Operation req = ''VALIDATE'' then ValidateTicket now (r_TicketID req) validatorID (r_Data req) app
         else if r_Operation req = ''CONSUME'' then ConsumeTicket now (r_TicketID req) validatorID app
         else if r_Operation req = ''DISPUTE'' then DisputeTicket now (r_TicketID req) validatorID app
         else (None, app))"

definition consensus_handler :: "'d Deps \<Rightarrow> string \<Rightarrow> 'd App ConsensusHandler" where
  "consensus_handler D nodeID req app =
     (let validatorID = (if r_NodeID req = '''' then nodeID else r_NodeID req)
      in case apply_operation validatorID req app of
           (err, app1) \<Rightarrow>
             (case map_option (sm_error_text (r_Operation req)) err of
                Some text \<Rightarrow>
                  if idempotent_error text then
                    (case persistTicket D (r_TicketID req) app1 of
                       None \<Rightarrow> (Some ''panic: nil vector clock'', app1)
                     | Some app2 \<Rightarrow> (None, app2))
                  else (Some text, app1)
              | None \<Rightarrow>
                  (case persistTicket D (r_TicketID req) app1 of
                     None \<Rightarrow> (Some ''panic: nil vector clock'', app1)
                   | Some app2 \<Rightarrow> (None, app2))))"

definition state_replicator :: "'d Deps \<Rightarrow> string \<Rightarrow> 'd App StateReplicator" where
  "state_replicator D nodeID req app =
     (case GetTicket (r_TicketID req) app of
        None \<Rightarrow> (Some ''panic: nil vector clock'', app)
      | Some (Inl err) \<Rightarrow> (Some (''failed to get committed ticket state: '' @ sm_error_text '''' err), app)
      | Some (Inr ticket) \<Rightarrow>
          let protoState = (case stateToProto (t_State ticket) of None \<Rightarrow> 1 | Some s \<Rightarrow> s);
              protoVC = (case t_VectorClock ticket of None \<Rightarrow> None | Some vc \<Rightarrow> Some (GetAll vc));
              update = \<lparr>su_Tickets = [\<lparr>ts_TicketId = t_ID ticket, ts_State = protoState,
                          ts_LastUpdated = t_Timestamp ticket, ts_ValidatorId = t_ValidatorID ticket,
                          ts_VectorClock = protoVC, ts_Metadata = t_Data ticket\<rparr>],
                        su_NodeId = nodeID\<rparr>
          in case Marshal (sc_update (d_sync D)) update of
               Inl err \<Rightarrow> (Some (''failed to marshal state update: '' @ err), app)
             | Inr payload \<Rightarrow>
                 (case wrap_message D 5 payload nodeID (w_now (app_world app)) of
                    Inl err \<Rightarrow> (Some (''failed to marshal ValidatorMessage: '' @ err), app)
                  | Inr data \<Rightarrow>
                      (map_option (\<lambda>err. ''failed to broadcast state update: '' @ err)
                         (w_broadcast (app_world app) data),
                       with_env ((sm_env app)\<lparr>ne_broadcasts := ne_broadcasts (sm_env app) @ [data]\<rparr>) app)))"

subsection \<open>Putting the node together\<close>

definition NewValidatorNode :: "'d Deps \<Rightarrow> Config \<Rightarrow> string \<Rightarrow> World \<Rightarrow> 'd \<Rightarrow> 'd ValidatorNode" where
  "NewValidatorNode D cfg peerID w db =
     (let nodeID = cfg_NodeID cfg;
          env = \<lparr>ne_notifier = NewStateNotifier, ne_db = db, ne_world = w, ne_broadcasts = [],
                 ne_directs = [], ne_gossiped = []\<rparr>;
          stateMachine = Ticket_State.RegisterHandler notifier_handler (NewStateMachine nodeID env);
          stateMachine = RegisterPublisher (Some (state_publisher D nodeID)) stateMachine;
          stateMachine = Ticket_State.RegisterHandler (storage_handler D) stateMachine;
          pbftNode = NewPBFTNode (cfg\<lparr>cfg_ViewTimeout := 15000000000\<rparr>) stateMachine;
          pbftNode = PBFT.RegisterHandler (consensus_handler D nodeID) pbftNode;
          pbftNode = RegisterStateReplicator (Some (state_replicator D nodeID)) pbftNode
      in \<lparr>v_nodeID = nodeID, v_totalNodes = cfg_TotalNodes cfg, v_peerID = peerID, v_pbft = pbftNode\<rparr>)"

text \<open>
  \<open>Start\<close> with the outcomes of starting discovery and the API server. The wait for peers
  before the load only logs; after it the stored tickets are loaded, before any component
  that uses the network runs.
\<close>

definition validator_Start ::
  "'d Deps \<Rightarrow> string option \<Rightarrow> string option \<Rightarrow> 'd ValidatorNode \<Rightarrow> (val_error option \<times> 'd ValidatorNode) option" where
  "validator_Start D discovery apiServer v =
     (case discovery of
        Some err \<Rightarrow> Some (Some (DiscoveryFailed err), v)
      | None \<Rightarrow>
          (case loadTicketsFromStore D (v_nodeID v) (v_app v) of
             None \<Rightarrow> None
           | Some app \<Rightarrow> Some (map_option ApiServerFailed apiServer, with_app app v)))"

definition pbft_env :: "'d Deps \<Rightarrow> World \<Rightarrow> Env" where
  "pbft_env D w = \<lparr>e_codecs = d_codecs D, e_peerCount = w_peerCount w, e_nowNano = w_nano w, e_takeDone = False\<rparr>"

definition pbft_handler :: "'d Deps \<Rightarrow> (val_error, 'd ValidatorNode) PBFTHandler" where
  "pbft_handler D msgType payload v =
     (case HandleNetworkMessage (pbft_env D (app_world (v_app v))) msgType payload (v_pbft v) of
        (err, n) \<Rightarrow> (map_option PBFTError err, v\<lparr>v_pbft := n\<rparr>))"

definition state_handler :: "'d Deps \<Rightarrow> (val_error, 'd ValidatorNode) StateHandler" where
  "state_handler D update v =
     (let tickets = map (ticket_from_proto (v_nodeID v)) (su_Tickets update)
      in case MergeState tickets (v_app v) of
           None \<Rightarrow> (Some NodePanic, v)
         | Some app \<Rightarrow>
             (case persist_all D (map t_ID tickets) app of
                None \<Rightarrow> (Some NodePanic, with_app app v)
              | Some app' \<Rightarrow> (None, with_app app' v)))"

subsection \<open>State synchronisation\<close>

definition send_to :: "string \<Rightarrow> bytes \<Rightarrow> 'd ValidatorNode \<Rightarrow> string option \<times> 'd ValidatorNode" where
  "send_to peerID data v =
     (let e = sm_env (v_app v)
      in (w_sendTo (ne_world e) peerID data,
          with_app (with_env (e\<lparr>ne_directs := ne_directs e @ [(peerID, data)]\<rparr>) (v_app v)) v))"

definition requestStateSync :: "'d Deps \<Rightarrow> string \<Rightarrow> 'd ValidatorNode \<Rightarrow> 'd ValidatorNode" where
  "requestStateSync D peerID v =
     (let now = w_now (app_world (v_app v));
          request = \<lparr>sq_RequesterId = v_peerID v, sq_LastSequence = n_sequence (v_pbft v), sq_Timestamp = now\<rparr>
      in case Marshal (sc_request (d_sync D)) request of
           Inl err \<Rightarrow> v
         | Inr payload \<Rightarrow>
             (case wrap_message D 8 payload (v_nodeID v) now of
                Inl err \<Rightarrow> v
              | Inr data \<Rightarrow> snd (send_to peerID data v)))"

definition performAntiEntropySync :: "'d Deps \<Rightarrow> nat \<Rightarrow> string list \<Rightarrow> 'd ValidatorNode \<Rightarrow> 'd ValidatorNode" where
  "performAntiEntropySync D draw peers v =
     (if length peers = 0 then v else requestStateSync D (peers ! (draw mod length peers)) v)"

text \<open>The loop over the tickets of \<open>handleStateSyncRequest\<close>.\<close>

fun sync_tickets :: "Ticket list \<Rightarrow> pb_TicketState list \<times> string list" where
  "sync_tickets [] = ([], [])"
| "sync_tickets (ticket # tickets) =
     (let rest = sync_tickets tickets
      in if t_State ticket = StateIssued \<or> t_State ticket = StatePending then rest
         else case stateToProto (t_State ticket) of
           None \<Rightarrow> rest
         | Some protoState \<Rightarrow>
             (\<lparr>ts_TicketId = t_ID ticket, ts_State = protoState, ts_LastUpdated = t_Timestamp ticket,
               ts_ValidatorId = t_ValidatorID ticket, ts_VectorClock = None, ts_Metadata = t_Data ticket\<rparr> # fst rest,
              if t_State ticket = StateValidated then t_ID ticket # snd rest else snd rest))"

definition sync_response :: "'d ValidatorNode \<Rightarrow> Ticket list \<Rightarrow> pb_StateSyncResponse" where
  "sync_response v tickets =
     (case sync_tickets tickets of
        (pbTickets, consensusLog) \<Rightarrow>
          \<lparr>sr_ResponderId = v_nodeID v, sr_CurrentSequence = n_sequence (v_pbft v),
           sr_CurrentView = n_view (v_pbft v), sr_ValidatedTickets = pbTickets,
           sr_ConsensusLog = consensusLog, sr_Timestamp = w_now (app_world (v_app v))\<rparr>)"

definition handleStateSyncRequest :: "'d Deps \<Rightarrow> bytes \<Rightarrow> 'd ValidatorNode \<Rightarrow> val_error option \<times> 'd ValidatorNode" where
  "handleStateSyncRequest D payload v =
     (case Unmarshal (sc_request (d_sync D)) payload of
        Inl err \<Rightarrow> (Some (SyncUnmarshal err), v)
      | Inr request \<Rightarrow>
          (case GetAllTickets (v_app v) of
             None \<Rightarrow> (Some NodePanic, v)
           | Some tickets \<Rightarrow>
               (case Marshal (sc_response (d_sync D)) (sync_response v tickets) of
                  Inl err \<Rightarrow> (Some (SyncMarshal err), v)
                | Inr responsePayload \<Rightarrow>
                    (case wrap_message D 9 responsePayload (v_nodeID v) (w_now (app_world (v_app v))) of
                       Inl err \<Rightarrow> (Some (SyncMarshal err), v)
                     | Inr data \<Rightarrow>
                         (case send_to (sq_RequesterId request) data v of
                            (err, v') \<Rightarrow> (map_option SyncSend err, v'))))))"

text \<open>The loop of \<open>handleStateSyncResponse\<close>; \<open>None\<close> is a panic.\<close>

fun sync_loop :: "'d Deps \<Rightarrow> string \<Rightarrow> pb_TicketState list \<Rightarrow> 'd App \<Rightarrow> 'd App option" where
  "sync_loop D responderID [] app = Some app"
| "sync_loop D responderID (pbTicket # ts) app =
     (if HasTicket (ts_TicketId pbTicket) app then sync_loop D responderID ts app
      else if ts_State pbTicket = 2 then
        (case SyncTicket (w_now (app_world app)) (ts_TicketId pbTicket) responderID (ts_Metadata pbTicket) app of
           (Some err, app1) \<Rightarrow> sync_loop D responderID ts app1
         | (None, app1) \<Rightarrow>
             (case persistTicket D (ts_TicketId pbTicket) app1 of
                None \<Rightarrow> None
              | Some app2 \<Rightarrow> sync_loop D responderID ts app2))
      else sync_loop D responderID ts app)"

definition handleStateSyncResponse :: "'d Deps \<Rightarrow> bytes \<Rightarrow> 'd ValidatorNode \<Rightarrow> val_error option \<times> 'd ValidatorNode" where
  "handleStateSyncResponse D payload v =
     (case Unmarshal (sc_response (d_sync D)) payload of
        Inl err \<Rightarrow> (Some (SyncUnmarshal err), v)
      | Inr response \<Rightarrow>
          if n_sequence (v_pbft v) < sr_CurrentSequence response then
            (case sync_loop D (sr_ResponderId response) (sr_ValidatedTickets response) (v_app v) of
               None \<Rightarrow> (Some NodePanic, v)
             | Some app \<Rightarrow> (None, with_app app v))
          else (None, v))"

definition state_sync_handler :: "'d Deps \<Rightarrow> (val_error, 'd ValidatorNode) StateSyncHandler" where
  "state_sync_handler D msgType payload v =
     (if msgType = 8 then handleStateSyncRequest D payload v
      else if msgType = 9 then handleStateSyncResponse D payload v
      else (Some (UnknownSyncType msgType), v))"

definition setupHandlers :: "'d Deps \<Rightarrow> (val_error, 'd ValidatorNode) MessageRouter" where
  "setupHandlers D =
     RegisterStateSyncHandler (state_sync_handler D)
       (RegisterStateHandler (state_handler D) (RegisterPBFTHandler (pbft_handler D) NewMessageRouter))"

subsection \<open>The interface of the API server\<close>

datatype api_outcome =
    ApiOk
  | ApiErr val_error
  | AwaitCallback string
  | AwaitState nat bytes

text \<open>
  \<open>wait_for_peers\<close> is the loop of at most five attempts: each gives the number of peers and
  whether the node shuts down during the pause after it; attempts beyond the end of the list
  find no peers.
\<close>

fun wait_for_peers :: "nat \<Rightarrow> (int \<times> bool) list \<Rightarrow> val_error option" where
  "wait_for_peers 0 attempts = Some NoPeersConnected"
| "wait_for_peers (Suc k) [] = Some NoPeersConnected"
| "wait_for_peers (Suc k) ((peerCount, shutdown) # attempts) =
     (if 0 < peerCount then None
      else if shutdown then Some NodeShuttingDown
      else wait_for_peers k attempts)"

definition is_validated :: "string \<Rightarrow> 'd App \<Rightarrow> bool option" where
  "is_validated ticketID app =
     (case GetTicket ticketID app of
        None \<Rightarrow> None
      | Some (Inl err) \<Rightarrow> Some False
      | Some (Inr ticket) \<Rightarrow> Some (t_State ticket = StateValidated))"

definition min_peers :: "int \<Rightarrow> int" where
  "min_peers totalNodes = 2 * ((totalNodes - 1) sdiv 3)"

definition propose_and_wait ::
  "'d Deps \<Rightarrow> nat \<Rightarrow> Request \<Rightarrow> 'd ValidatorNode \<Rightarrow> api_outcome \<times> 'd ValidatorNode" where
  "propose_and_wait D cb req v =
     (let w = app_world (v_app v)
      in if 1 < v_totalNodes v \<and> w_peerCount w < min_peers (v_totalNodes v)
         then (ApiErr (NotEnoughPeers (w_peerCount w) (min_peers (v_totalNodes v))), v)
         else case ProposeRequest (pbft_env D w) req
                     (RegisterCallback (r_RequestID req) (Some cb) (v_pbft v)) of
           (Some err, n) \<Rightarrow> (ApiErr (ProposalFailed err), v\<lparr>v_pbft := n\<rparr>)
         | (None, n) \<Rightarrow> (AwaitCallback (r_RequestID req), v\<lparr>v_pbft := n\<rparr>))"

definition subscribe_ticket :: "string \<Rightarrow> 'd ValidatorNode \<Rightarrow> nat \<times> 'd ValidatorNode" where
  "subscribe_ticket ticketID v =
     (let e = sm_env (v_app v)
      in case Subscribe ticketID (ne_notifier e) of
           (ch, sn) \<Rightarrow> (ch, with_app (with_env (e\<lparr>ne_notifier := sn\<rparr>) (v_app v)) v))"

definition unsubscribe_ticket :: "string \<Rightarrow> nat \<Rightarrow> 'd ValidatorNode \<Rightarrow> 'd ValidatorNode" where
  "unsubscribe_ticket ticketID ch v =
     (let e = sm_env (v_app v)
      in with_app (with_env (e\<lparr>ne_notifier := Unsubscribe ticketID ch (ne_notifier e)\<rparr>) (v_app v)) v)"

definition broadcast_from :: "bytes \<Rightarrow> 'd ValidatorNode \<Rightarrow> string option \<times> 'd ValidatorNode" where
  "broadcast_from data v =
     (let e = sm_env (v_app v)
      in (w_broadcast (ne_world e) data,
          with_app (with_env (e\<lparr>ne_broadcasts := ne_broadcasts e @ [data]\<rparr>) (v_app v)) v))"

definition forward_and_wait ::
  "'d Deps \<Rightarrow> (int \<times> bool) list \<Rightarrow> Request \<Rightarrow> 'd ValidatorNode \<Rightarrow> api_outcome \<times> 'd ValidatorNode" where
  "forward_and_wait D attempts req v =
     (if n_totalNodes (v_pbft v) = 0 then (ApiErr NodePanic, v)
      else case wait_for_peers 5 attempts of
        Some err \<Rightarrow> (ApiErr err, v)
      | None \<Rightarrow>
          (case SerializeRequest (d_codecs D) req of
             Inl err \<Rightarrow> (ApiErr (ForwardSerialize err), v)
           | Inr payload \<Rightarrow>
               (case SerializePBFTMessage (d_codecs D) 7 payload (v_nodeID v) of
                  Inl err \<Rightarrow> (ApiErr (ForwardSerialize err), v)
                | Inr msgData \<Rightarrow>
                    (case broadcast_from msgData v of
                       (Some err, v1) \<Rightarrow> (ApiErr (ForwardFailed err), v1)
                     | (None, v1) \<Rightarrow>
                         let v2 = v1\<lparr>v_pbft := NotifyPendingRequest (v_pbft v1)\<rparr>
                         in case subscribe_ticket (r_TicketID req) v2 of
                              (ch, v3) \<Rightarrow>
                                (case is_validated (r_TicketID req) (v_app v3) of
                                   None \<Rightarrow> (ApiErr NodePanic, unsubscribe_ticket (r_TicketID req) ch v3)
                                 | Some True \<Rightarrow>
                                     (ApiOk, unsubscribe_ticket (r_TicketID req) ch
                                               (v3\<lparr>v_pbft := ClearPendingRequest (v_pbft v3)\<rparr>))
                                 | Some False \<Rightarrow> (AwaitState ch msgData, v3))))))"

definition api_ValidateTicket ::
  "'d Deps \<Rightarrow> nat \<Rightarrow> (int \<times> bool) list \<Rightarrow> string \<Rightarrow> bytes \<Rightarrow> 'd ValidatorNode \<Rightarrow> api_outcome \<times> 'd ValidatorNode" where
  "api_ValidateTicket D cb attempts ticketID data v =
     (case is_validated ticketID (v_app v) of
        None \<Rightarrow> (ApiErr NodePanic, v)
      | Some True \<Rightarrow> (ApiErr (TicketAlreadyValidated ticketID), v)
      | Some False \<Rightarrow>
          let w = app_world (v_app v);
              requestID = v_nodeID v @ ''-'' @ FormatInt (w_nano w) @ ''-'' @ ticketID;
              req = \<lparr>r_RequestID = requestID, r_TicketID = ticketID, r_Operation = ''VALIDATE'', r_Data = data,
                     r_Timestamp = w_now w, r_NodeID = v_nodeID v\<rparr>
          in if n_isPrimary (v_pbft v) then propose_and_wait D cb req v
             else forward_and_wait D attempts req v)"

text \<open>The two waits: on the callback's channel, and on the notifier's channel with retries.\<close>

datatype wait_event =
    CallbackFired bool "string option"
  | Deadline
  | NodeDone
  | RetryTick
  | StateChanged TicketState

fun await_callback :: "string \<Rightarrow> wait_event \<Rightarrow> api_outcome option" where
  "await_callback ticketID (CallbackFired success err) =
     Some (if success then ApiOk
           else ApiErr (ConsensusFailed (case err of None \<Rightarrow> ''consensus failed for ticket '' @ ticketID | Some e \<Rightarrow> e)))"
| "await_callback ticketID Deadline = Some (ApiErr (ConsensusTimeout ticketID))"
| "await_callback ticketID NodeDone = Some (ApiErr NodeShuttingDown)"
| "await_callback ticketID _ = None"

fun await_state ::
  "string \<Rightarrow> nat \<Rightarrow> bytes \<Rightarrow> wait_event list \<Rightarrow> 'd ValidatorNode \<Rightarrow> api_outcome option \<times> 'd ValidatorNode" where
  "await_state ticketID ch msgData [] v = (None, v)"
| "await_state ticketID ch msgData (ev # evs) v =
     (case ev of
        Deadline \<Rightarrow> (Some (ApiErr (ConsensusTimeout ticketID)), unsubscribe_ticket ticketID ch v)
      | NodeDone \<Rightarrow> (Some (ApiErr NodeShuttingDown), unsubscribe_ticket ticketID ch v)
      | RetryTick \<Rightarrow> await_state ticketID ch msgData evs (snd (broadcast_from msgData v))
      | StateChanged newState \<Rightarrow>
          if newState = StateValidated
          then (Some ApiOk, unsubscribe_ticket ticketID ch (v\<lparr>v_pbft := ClearPendingRequest (v_pbft v)\<rparr>))
          else await_state ticketID ch msgData evs v
      | CallbackFired success err \<Rightarrow> await_state ticketID ch msgData evs v)"

definition lift_state :: "sm_error option \<times> 'd App \<Rightarrow> 'd ValidatorNode \<Rightarrow> val_error option \<times> 'd ValidatorNode" where
  "lift_state r v = (map_option StateError (fst r), with_app (snd r) v)"

definition api_ConsumeTicket :: "string \<Rightarrow> 'd ValidatorNode \<Rightarrow> val_error option \<times> 'd ValidatorNode" where
  "api_ConsumeTicket ticketID v =
     lift_state (ConsumeTicket (w_now (app_world (v_app v))) ticketID (v_nodeID v) (v_app v)) v"

definition api_DisputeTicket :: "string \<Rightarrow> 'd ValidatorNode \<Rightarrow> val_error option \<times> 'd ValidatorNode" where
  "api_DisputeTicket ticketID v =
     lift_state (DisputeTicket (w_now (app_world (v_app v))) ticketID (v_nodeID v) (v_app v)) v"

definition api_GetTicket :: "string \<Rightarrow> 'd ValidatorNode \<Rightarrow> (sm_error + Ticket) option" where
  "api_GetTicket ticketID v = GetTicket ticketID (v_app v)"

definition api_GetAllTickets :: "'d ValidatorNode \<Rightarrow> Ticket list option" where
  "api_GetAllTickets v = GetAllTickets (v_app v)"

definition api_GetConsensusLogs :: "'d Deps \<Rightarrow> 'd ValidatorNode \<Rightarrow> store_error + ConsensusRecord list" where
  "api_GetConsensusLogs D v = GetConsensusLogs (d_bolt D) (d_json D) (ne_db (sm_env (v_app v)))"

fun count_states :: "Ticket list \<Rightarrow> (string, int) gomap \<Rightarrow> (string, int) gomap" where
  "count_states [] m = m"
| "count_states (t # ts) m =
     count_states ts (fmupd (t_State t) ((case mget m (t_State t) of None \<Rightarrow> 0 | Some c \<Rightarrow> c) + 1) m)"

record StorageEntries =
  se_total_tickets :: nat
  se_ticket_states :: "(string, int) gomap"
  se_consensus_log_count :: nat
  se_latest_checkpoint :: "CheckpointRecord option"

definition GetStorageEntries :: "'d Deps \<Rightarrow> 'd ValidatorNode \<Rightarrow> StorageEntries option" where
  "GetStorageEntries D v =
     (case GetAllTickets (v_app v) of
        None \<Rightarrow> None
      | Some allTickets \<Rightarrow>
          let db = ne_db (sm_env (v_app v));
              zero = fmupd ''ISSUED'' 0 (fmupd ''VALIDATED'' 0 (fmupd ''CONSUMED'' 0 (fmupd ''DISPUTED'' 0 fmempty)))
          in Some \<lparr>se_total_tickets = length allTickets,
                   se_ticket_states = count_states allTickets zero,
                   se_consensus_log_count =
                     (case GetConsensusLogs (d_bolt D) (d_json D) db of Inl err \<Rightarrow> 0 | Inr ls \<Rightarrow> length ls),
                   se_latest_checkpoint =
                     (case GetLatestCheckpoint (d_bolt D) (d_json D) db of Inl err \<Rightarrow> None | Inr cp \<Rightarrow> Some cp)\<rparr>)"

subsection \<open>Seeding\<close>

definition pad3 :: "nat \<Rightarrow> string" where
  "pad3 n = (let s = dec_nat n in replicate (3 - length s) (CHR ''0'') @ s)"

definition sections :: "string list" where
  "sections = [''VIP'', ''Floor'', ''Balcony'', ''General'']"

definition prices :: "string list" where
  "prices = [''150.00'', ''85.00'', ''65.00'', ''40.00'']"

definition seed_data :: "nat \<Rightarrow> string" where
  \<open>seed_data i =
     (let sectionIdx = (i - 1) mod length sections;
          seatRow = [char_of (65 + (i - 1) div 10 mod 26)];
          seatNum = (i - 1) mod 10 + 1
      in ''{"event":"Summer Music Festival 2026","venue":"Grand Arena","section":"'' @ sections ! sectionIdx @
         ''","seat":"'' @ seatRow @ dec_nat seatNum @ ''","price":"'' @ prices ! sectionIdx @
         ''","buyer":"buyer_'' @ pad3 i @ ''@email.com"}'')\<close>

definition seed_ticket :: "int \<Rightarrow> nat \<Rightarrow> Ticket" where
  "seed_ticket now i =
     \<lparr>t_ID = ''TICKET-'' @ pad3 i, t_State = StateIssued, t_Data = seed_data i, t_ValidatorID = '''',
      t_Timestamp = now, t_VectorClock = None, t_Metadata = fmupd ''source'' ''seed'' fmempty\<rparr>"

definition seed_record :: "Ticket \<Rightarrow> TicketRecord" where
  "seed_record t =
     \<lparr>tk_ID = t_ID t, tk_State = StateIssued, tk_Data = t_Data t, tk_ValidatorID = '''',
      tk_Timestamp = t_Timestamp t, tk_VectorClock = fmempty, tk_Metadata = t_Metadata t\<rparr>"

fun save_seeds :: "'d Deps \<Rightarrow> Ticket list \<Rightarrow> 'd NodeEnv \<Rightarrow> 'd NodeEnv" where
  "save_seeds D [] e = e"
| "save_seeds D (t # ts) e = save_seeds D ts (snd (save_ticket D (seed_record t) e))"

definition api_SeedTickets :: "'d Deps \<Rightarrow> 'd ValidatorNode \<Rightarrow> int \<times> 'd ValidatorNode" where
  "api_SeedTickets D v =
     (let tickets = map (seed_ticket (w_now (app_world (v_app v)))) [1..<501]
      in case SeedTickets tickets (v_app v) of
           (seeded, app) \<Rightarrow> (seeded, with_app (with_env (save_seeds D tickets (sm_env app)) app) v))"

end
