(* ===== verification/Validator_Properties.thy ===== *)
theory Validator_Properties
  imports Validator
begin

text \<open>
  What the composition of the node guarantees: crash recovery through the store, what a state
  update and a state synchronisation do to the tickets of the receiver, what the consensus
  handler records, and how the waits of the API end.
\<close>

section \<open>The node's state\<close>

lemma with_app_simps [simp]:
  "v_nodeID (with_app app v) = v_nodeID v" "v_totalNodes (with_app app v) = v_totalNodes v"
  "v_peerID (with_app app v) = v_peerID v" "v_app (with_app app v) = app"
  "n_sequence (v_pbft (with_app app v)) = n_sequence (v_pbft v)"
  by (simp_all add: with_app_def)

lemma with_env_simps [simp]:
  "sm_currentState (with_env e app) = sm_currentState app" "sm_env (with_env e app) = e"
  "sm_vectorClock (with_env e app) = sm_vectorClock app" "sm_handlers (with_env e app) = sm_handlers app"
  "sm_nodeID (with_env e app) = sm_nodeID app"
  by (simp_all add: with_env_def)

lemma GetTicket_ok:
  assumes "sm_ok app"
  shows "GetTicket i app = Some (case mget (sm_currentState app) i of
      None \<Rightarrow> Inl (TicketNotFound i) | Some t \<Rightarrow> Inr t)"
  using assms
  by (auto simp: GetTicket_def copy_ticket_eq sm_ok_def has_clock_def ticket_ok_def split: option.splits
      dest: fmpredD)

lemma sm_ok_with_env [simp]: "sm_ok (with_env e app) = sm_ok app"
  by (simp add: sm_ok_def)

text \<open>\<open>persistTicket\<close> writes the record of the ticket and leaves the machine alone.\<close>

lemma persistTicket_ok:
  assumes "sm_ok app"
  shows "persistTicket D i app = Some (case mget (sm_currentState app) i of
      None \<Rightarrow> app
    | Some t \<Rightarrow> with_env (snd (save_ticket D (ticket_record t) (sm_env app))) app)"
  by (simp add: persistTicket_def GetTicket_ok [OF assms] split: option.splits)

lemma persistTicket_frame:
  assumes "sm_ok app" and "persistTicket D i app = Some app'"
  shows "sm_currentState app' = sm_currentState app" and "sm_ok app'" and "sm_vectorClock app' = sm_vectorClock app"
    and "ne_world (sm_env app') = ne_world (sm_env app)"
  using assms(2) assms(1) unfolding persistTicket_ok [OF assms(1)]
  by (auto simp: save_ticket_def split: option.splits prod.splits)

lemma persist_all_frame:
  "sm_ok app \<Longrightarrow> \<exists>app'. persist_all D is app = Some app' \<and> sm_currentState app' = sm_currentState app \<and>
     sm_ok app' \<and> sm_vectorClock app' = sm_vectorClock app"
proof (induction "is" arbitrary: app)
  case (Cons i "is")
  obtain app1 where app1: "persistTicket D i app = Some app1" using persistTicket_ok [OF Cons.prems] by blast
  from Cons.IH [OF persistTicket_frame(2) [OF Cons.prems app1]] persistTicket_frame [OF Cons.prems app1] app1
  show ?case by auto
qed simp

section \<open>Clocks rebuilt from messages and records\<close>

lemma update_clock_eq: "update_clock es vc = vc\<lparr>vc_clocks := merge_loop es (vc_clocks vc)\<rparr>"
proof (induction es vc rule: update_clock.induct)
  case (2 k v es vc)
  then show ?case by (simp add: Update_def)
qed simp

lemma Get_update_clock: "Get (update_clock (entries m) (NewVectorClock n)) k = clock_at m k"
  using clock_at_merge_enumerates [OF enumerates_entries, of m "fmupd n 0 fmempty" k]
  by (simp add: update_clock_eq Get_def NewVectorClock_def)

lemma fmupd_same: "mget m k = Some x \<Longrightarrow> fmupd k x m = m"
  by (rule fmap_ext) auto

lemma New_least: "vc_leq (NewVectorClock n) vc"
  by (simp add: vc_leq_def)

lemma resolve_zero_clock:
  assumes "t_VectorClock r = Some (NewVectorClock n)" and "has_clock l"
  shows "resolve r l = Some l"
proof -
  obtain lvc where "t_VectorClock l = Some lvc" using assms(2) by (auto simp: has_clock_def)
  moreover have "Compare lvc (NewVectorClock n) = After \<or> Compare lvc (NewVectorClock n) = Equal"
    using New_least [of n lvc] by (simp add: Compare_iff)
  ultimately show ?thesis using assms(1) by (auto simp: resolve_def)
qed

lemma has_clock_from_proto [simp]: "has_clock (ticket_from_proto n ts)"
  by (simp add: ticket_from_proto_def has_clock_def Let_def)

lemma ticket_from_proto_ID [simp]: "t_ID (ticket_from_proto n ts) = ts_TicketId ts"
  by (simp add: ticket_from_proto_def Let_def)

section \<open>State updates\<close>

lemma state_handler_merges:
  assumes "sm_ok (v_app v)"
  shows "\<exists>v' app. state_handler D u v = (None, v') \<and>
    MergeState (map (ticket_from_proto (v_nodeID v)) (su_Tickets u)) (v_app v) = Some app \<and>
    sm_currentState (v_app v') = sm_currentState app \<and> sm_ok (v_app v')"
proof -
  let ?ts = "map (ticket_from_proto (v_nodeID v)) (su_Tickets u)"
  obtain app where app: "MergeState ?ts (v_app v) = Some app"
    using MergeState_None_iff [OF assms, of ?ts] by fastforce
  have ok: "sm_ok app"
    using MergeState_SomeD(1) [OF app] assms merge_tickets_ok by (simp add: sm_ok_def)
  from persist_all_frame [OF this, of D "map t_ID ?ts"]
  show ?thesis using app by (auto simp: state_handler_def Let_def)
qed

text \<open>
  A state update that a node gossips when a ticket changes state carries no vector clock,
  so a receiver that knows the ticket gives it a clock of zeros, under which no copy is ever
  replaced: the receiver's tickets stay exactly as they are, in every state of the sender and
  of the receiver.
\<close>

theorem gossiped_updates_change_nothing:
  assumes "state_publisher D sender i st vid ts e = (err, e')" and "ne_gossiped e' = ne_gossiped e @ [data]"
    and "codec_ok (cd_vm (d_codecs D))" and "codec_ok (sc_update (d_sync D))"
    and "sm_ok (v_app v)" and "mhas (sm_currentState (v_app v)) i"
  shows "\<exists>v'. RouteMessage (d_codecs D) (d_sync D) data (setupHandlers D) v = (None, v') \<and>
    sm_currentState (v_app v') = sm_currentState (v_app v)"
proof -
  let ?u = "\<lparr>su_Tickets = [\<lparr>ts_TicketId = i, ts_State = (case stateToProto st of None \<Rightarrow> 0 | Some s \<Rightarrow> s),
      ts_LastUpdated = ts, ts_ValidatorId = vid, ts_VectorClock = None, ts_Metadata = []\<rparr>], su_NodeId = sender\<rparr>"
  obtain payload where p: "Marshal (sc_update (d_sync D)) ?u = Inr payload"
    and d: "wrap_message D 5 payload sender (w_now (ne_world e)) = Inr data"
    using assms(1,2) by (auto simp: state_publisher_def Let_def split: sum.splits)
  have msg: "DeserializeValidatorMessage (d_codecs D) data =
      Inr \<lparr>vm_Type = 5, vm_Payload = payload, vm_Signature = [], vm_Timestamp = w_now (ne_world e), vm_SenderId = sender\<rparr>"
    using d assms(3)
    by (simp add: wrap_message_def codec_ok_def DeserializeValidatorMessage_def unmarshal_as_def)
  have upd: "Unmarshal (sc_update (d_sync D)) payload = Inr ?u" using p assms(4) by (simp add: codec_ok_def)
  obtain l where l: "mget (sm_currentState (v_app v)) i = Some l" using assms(6) by auto
  then have "has_clock l" using assms(5) by (auto simp: sm_ok_def ticket_ok_def has_clock_def dest: fmpredD)
  then have "merge_tickets (map (ticket_from_proto (v_nodeID v)) (su_Tickets ?u)) (sm_currentState (v_app v)) =
      Some (sm_currentState (v_app v))"
    using l by (simp add: merge_ticket_def resolve_zero_clock ticket_from_proto_def Let_def fmupd_same)
  with state_handler_merges [OF assms(5), of D ?u] obtain v' where "state_handler D ?u v = (None, v')"
    and "sm_currentState (v_app v') = sm_currentState (v_app v)"
    by (auto dest: MergeState_SomeD(1))
  then show ?thesis
    by (simp add: RouteMessage_def msg upd setupHandlers_def RegisterStateHandler_def
        RegisterStateSyncHandler_def RegisterPBFTHandler_def NewMessageRouter_def)
qed

text \<open>Concrete libraries: the database and codecs of the examples of the components, and codecs
  for the messages of the synchronisation.\<close>

definition clock_list :: "(string, uint64) gomap \<Rightarrow> (string \<times> nat) list" where
  "clock_list m = map (\<lambda>(k, v). (k, unat v)) (entries m)"

definition list_clock :: "(string \<times> nat) list \<Rightarrow> (string, uint64) gomap" where
  "list_clock es = fmap_of_list (map (\<lambda>(k, v). (k, of_nat v)) es)"

lemma list_clock_inv [simp]: "list_clock (clock_list m) = m"
proof -
  have "map (\<lambda>(k, v). (k, of_nat v)) (map (\<lambda>(k, v). (k, unat v)) es) = es" for es :: "(string \<times> uint64) list"
    by (induction es) auto
  then show ?thesis by (simp add: list_clock_def clock_list_def fmap_of_entries del: map_map)
qed

definition state_tuple :: "pb_TicketState \<Rightarrow> string \<times> int \<times> int \<times> string \<times> (string \<times> nat) list option \<times> string" where
  "state_tuple t = (ts_TicketId t, ts_State t, ts_LastUpdated t, ts_ValidatorId t,
     map_option clock_list (ts_VectorClock t), ts_Metadata t)"

fun tuple_state :: "string \<times> int \<times> int \<times> string \<times> (string \<times> nat) list option \<times> string \<Rightarrow> pb_TicketState" where
  "tuple_state (a, b, c, d, e, f) = \<lparr>ts_TicketId = a, ts_State = b, ts_LastUpdated = c, ts_ValidatorId = d,
     ts_VectorClock = map_option list_clock e, ts_Metadata = f\<rparr>"

lemma tuple_state_inv [simp]: "tuple_state (state_tuple t) = t"
  by (simp add: state_tuple_def option.map_comp comp_def option.map_ident)

definition mem_sync :: SyncCodecs where
  "mem_sync =
     \<lparr>sc_update = numbering (\<lambda>u. (map state_tuple (su_Tickets u), su_NodeId u))
        (\<lambda>(a, b). \<lparr>su_Tickets = map tuple_state a, su_NodeId = b\<rparr>),
      sc_request = numbering (\<lambda>u. (sq_RequesterId u, sq_LastSequence u, sq_Timestamp u))
        (\<lambda>(a, b, c). \<lparr>sq_RequesterId = a, sq_LastSequence = b, sq_Timestamp = c\<rparr>),
      sc_response = numbering (\<lambda>u. (sr_ResponderId u, sr_CurrentSequence u, sr_CurrentView u,
          map state_tuple (sr_ValidatedTickets u), sr_ConsensusLog u, sr_Timestamp u))
        (\<lambda>(a, b, c, d, e, f). \<lparr>sr_ResponderId = a, sr_CurrentSequence = b, sr_CurrentView = c,
          sr_ValidatedTickets = map tuple_state d, sr_ConsensusLog = e, sr_Timestamp = f\<rparr>)\<rparr>"

lemma map_tuple_state [simp]: "map (tuple_state \<circ> state_tuple) ts = ts"
  by (induction ts) simp_all

lemma mem_sync_ok: "codec_ok (sc_update mem_sync)" "codec_ok (sc_request mem_sync)" "codec_ok (sc_response mem_sync)"
  by (simp_all add: mem_sync_def numbering_ok)

type_synonym mem_db = "(bytes, (bytes, bytes) gomap) gomap"

definition mem_deps :: "mem_db Deps" where
  "mem_deps = \<lparr>d_bolt = mem_bolt, d_json = mem_json, d_codecs = numbering_codecs, d_sync = mem_sync\<rparr>"

lemma mem_deps_sync: "d_sync mem_deps = mem_sync"
  by (simp add: mem_deps_def)

definition calm_world :: World where
  "calm_world = \<lparr>w_now = 100, w_nano = 100000000000, w_peerCount = 3, w_broadcast = (\<lambda>b. None),
     w_sendTo = (\<lambda>p b. None), w_publish = (\<lambda>b. None)\<rparr>"

definition mem_db :: mem_db where
  "mem_db = fmupd BucketTickets fmempty (fmupd BucketConsensus fmempty (fmupd BucketCheckpoints fmempty fmempty))"

definition example_node :: "string \<Rightarrow> mem_db ValidatorNode" where
  "example_node i = NewValidatorNode mem_deps
     \<lparr>cfg_NodeID = i, cfg_TotalNodes = 4, cfg_IsPrimary = False, cfg_ViewTimeout = 0\<rparr> (''peer-'' @ i) calm_world mem_db"

definition issue_at :: "string \<Rightarrow> mem_db ValidatorNode \<Rightarrow> mem_db ValidatorNode" where
  "issue_at t v = with_app (snd (IssueTicket 1 t ''data'' (v_app v))) v"

lemma example_node_app [simp]:
  "sm_currentState (v_app (example_node i)) = fmempty" "v_nodeID (example_node i) = i"
  "sm_env (v_app (example_node i)) = \<lparr>ne_notifier = NewStateNotifier, ne_db = mem_db, ne_world = calm_world,
     ne_broadcasts = [], ne_directs = [], ne_gossiped = []\<rparr>"
  "sm_nodeID (v_app (example_node i)) = i" "sm_vectorClock (v_app (example_node i)) = NewVectorClock i"
  "n_sequence (v_pbft (example_node i)) = 0"
  by (simp_all add: example_node_def NewValidatorNode_def Let_def NewPBFTNode_def PBFT.RegisterHandler_def
      RegisterStateReplicator_def Ticket_State.RegisterHandler_def RegisterPublisher_def NewStateMachine_def)

lemma issue_at_state:
  "sm_currentState (v_app (issue_at t (example_node i))) =
     fmupd t \<lparr>t_ID = t, t_State = StateIssued, t_Data = ''data'', t_ValidatorID = '''', t_Timestamp = 1,
       t_VectorClock = Some (NewVectorClock i), t_Metadata = fmempty\<rparr> fmempty"
  by (simp add: issue_at_def IssueTicket_fields)

lemma issue_at_ok: "sm_ok (v_app (issue_at t (example_node i)))"
  unfolding sm_ok_def issue_at_state by (intro fmpred_upd) (simp_all add: ticket_ok_def)

theorem gossiped_updates_change_nothing_witness:
  "\<exists>data e' v'. state_publisher mem_deps ''node0'' ''T'' StateValidated ''node0'' 9 (sm_env (v_app (example_node ''node0''))) = (None, e') \<and>
     ne_gossiped e' = [data] \<and>
     RouteMessage numbering_codecs mem_sync data (setupHandlers mem_deps) (issue_at ''T'' (example_node ''node1'')) = (None, v') \<and>
     state_of (v_app v') ''T'' = Some StateIssued"
proof -
  let ?e = "sm_env (v_app (example_node ''node0''))" and ?v = "issue_at ''T'' (example_node ''node1'')"
  obtain e' data where p: "state_publisher mem_deps ''node0'' ''T'' StateValidated ''node0'' 9 ?e = (None, e')"
    and g: "ne_gossiped e' = ne_gossiped ?e @ [data]"
    by (simp add: state_publisher_def mem_deps_def mem_sync_def numbering_codecs_def numbering_def wrap_message_def
        calm_world_def Let_def)
  have ok: "codec_ok (cd_vm (d_codecs mem_deps))" "codec_ok (sc_update (d_sync mem_deps))"
    using numbering_codecs_ok mem_sync_ok by (simp_all add: mem_deps_def codecs_ok_def)
  have has: "mhas (sm_currentState (v_app ?v)) ''T''" by (simp add: issue_at_state)
  from gossiped_updates_change_nothing [OF p g ok issue_at_ok has] obtain v' where
    "RouteMessage numbering_codecs mem_sync data (setupHandlers mem_deps) ?v = (None, v')"
    and "sm_currentState (v_app v') = sm_currentState (v_app ?v)" by (auto simp: mem_deps_def)
  then show ?thesis using p g by (auto simp: state_of_def issue_at_state)
qed

section \<open>State synchronisation\<close>

text \<open>What a synchronisation may do to the tickets of a machine: add the tickets in \<open>S\<close> that were
  missing, as validated by the responder, and nothing else.\<close>

definition adds_validated :: "string \<Rightarrow> string set \<Rightarrow> 'd App \<Rightarrow> 'd App \<Rightarrow> bool" where
  "adds_validated r S app app' \<longleftrightarrow> sm_ok app' \<and>
     (\<forall>i t. mget (sm_currentState app) i = Some t \<longrightarrow> mget (sm_currentState app') i = Some t) \<and>
     (\<forall>i. mget (sm_currentState app) i = None \<longrightarrow> (mget (sm_currentState app') i \<noteq> None \<longleftrightarrow> i \<in> S)) \<and>
     (\<forall>i t. mget (sm_currentState app) i = None \<longrightarrow> mget (sm_currentState app') i = Some t \<longrightarrow>
        t_State t = StateValidated \<and> t_ValidatorID t = r)"

lemma adds_validated_refl: "sm_ok app \<Longrightarrow> adds_validated r {} app app"
  by (simp add: adds_validated_def)

lemma adds_validatedD:
  assumes "adds_validated r S app app'"
  shows "sm_ok app'" and "mget (sm_currentState app) i = Some t \<Longrightarrow> mget (sm_currentState app') i = Some t"
    and "mget (sm_currentState app) i = None \<Longrightarrow> mget (sm_currentState app') i \<noteq> None \<longleftrightarrow> i \<in> S"
    and "mget (sm_currentState app) i = None \<Longrightarrow> mget (sm_currentState app') i = Some t \<Longrightarrow>
      t_State t = StateValidated \<and> t_ValidatorID t = r"
  using assms unfolding adds_validated_def by blast+

lemma adds_validated_trans:
  assumes "adds_validated r S app app1" and "adds_validated r S' app1 app2"
  shows "adds_validated r (S \<union> S') app app2"
  unfolding adds_validated_def
proof (intro conjI allI impI)
  note one = adds_validatedD [OF assms(1)] and two = adds_validatedD [OF assms(2)]
  show "sm_ok app2" by (rule two(1))
  show "mget (sm_currentState app2) i = Some t" if "mget (sm_currentState app) i = Some t" for i t
    using that one(2) two(2) by blast
  fix i assume none: "mget (sm_currentState app) i = None"
  show "mget (sm_currentState app2) i \<noteq> None \<longleftrightarrow> i \<in> S \<union> S'"
    using one(3) [OF none] two(2) [of i] two(3) [of i] by (cases "mget (sm_currentState app1) i") auto
  fix t assume "mget (sm_currentState app2) i = Some t"
  then show "t_State t = StateValidated" and "t_ValidatorID t = r"
    using one(4) [OF none] two(2) [of i] two(4) [of i] by (cases "mget (sm_currentState app1) i"; auto)+
qed

lemma adds_validated_same:
  "adds_validated r S app app1 \<Longrightarrow> sm_currentState app2 = sm_currentState app1 \<Longrightarrow> adds_validated r S app app2"
  by (simp add: adds_validated_def sm_ok_def)

lemma adds_validated_present:
  "adds_validated r S app app' \<Longrightarrow> mhas (sm_currentState app) i \<Longrightarrow> adds_validated r (insert i S) app app'"
  unfolding adds_validated_def by (metis fmdom_notI insert_iff)

lemma SyncTicket_adds:
  assumes "sm_ok app" and "\<not> mhas (sm_currentState app) i"
  shows "adds_validated r {i} app (snd (SyncTicket now i r d app))"
proof -
  have "sm_ok (snd (SyncTicket now i r d app))"
    using run_op_ok [of "OSync now i r d" app] assms(1) by simp
  then show ?thesis using assms by (auto simp: adds_validated_def SyncTicket_fields split: if_splits)
qed

lemma sync_one:
  assumes "sm_ok app" and "\<not> HasTicket (ts_TicketId p) app" and "ts_State p = 2"
  obtains app1 where "adds_validated r {ts_TicketId p} app app1" and "sm_ok app1"
    and "sync_loop D r (p # ts) app = sync_loop D r ts app1"
proof -
  let ?i = "ts_TicketId p"
  let ?r = "SyncTicket (w_now (app_world app)) ?i r (ts_Metadata p) app"
  have add: "adds_validated r {?i} app (snd ?r)"
    using assms by (intro SyncTicket_adds) (simp_all add: HasTicket_def)
  then have ok: "sm_ok (snd ?r)" by (simp add: adds_validated_def)
  show thesis
  proof (cases "fst ?r")
    case None
    obtain app2 where p2: "persistTicket D ?i (snd ?r) = Some app2" using persistTicket_ok [OF ok] by blast
    from None assms(2,3) p2 have "sync_loop D r (p # ts) app = sync_loop D r ts app2" by (cases ?r) simp
    moreover have "sm_currentState app2 = sm_currentState (snd ?r)" "sm_ok app2" using persistTicket_frame [OF ok p2] by blast+
    ultimately show thesis using that adds_validated_same [OF add] by blast
  next
    case (Some err)
    with assms(2,3) have "sync_loop D r (p # ts) app = sync_loop D r ts (snd ?r)" by (cases ?r) simp
    with that ok add show thesis by blast
  qed
qed

lemma sync_loop_adds:
  "sm_ok app \<Longrightarrow> \<exists>app'. sync_loop D r ts app = Some app' \<and>
     adds_validated r {ts_TicketId p | p. p \<in> set ts \<and> ts_State p = 2} app app'"
proof (induction ts arbitrary: app)
  case Nil
  then show ?case by (simp add: adds_validated_refl)
next
  case (Cons p ts)
  let ?i = "ts_TicketId p"
  let ?S = "{ts_TicketId q | q. q \<in> set ts \<and> ts_State q = 2}"
  have S: "{ts_TicketId q | q. q \<in> set (p # ts) \<and> ts_State q = 2} = (if ts_State p = 2 then insert ?i ?S else ?S)"
    by auto
  show ?case
  proof (cases "\<not> HasTicket ?i app \<and> ts_State p = 2")
    case True
    then obtain app1 where app1: "adds_validated r {?i} app app1" "sm_ok app1"
      and step: "sync_loop D r (p # ts) app = sync_loop D r ts app1"
      using sync_one [OF Cons.prems] by metis
    obtain app' where "sync_loop D r ts app1 = Some app'" and "adds_validated r ?S app1 app'"
      using Cons.IH [OF app1(2)] by blast
    with app1(1) show ?thesis using step True S adds_validated_trans [of r "{?i}" app app1 ?S app'] by simp
  next
    case False
    then have step: "sync_loop D r (p # ts) app = sync_loop D r ts app" by auto
    obtain app' where app': "sync_loop D r ts app = Some app'" "adds_validated r ?S app app'"
      using Cons.IH [OF Cons.prems] by blast
    show ?thesis
    proof (cases "ts_State p = 2")
      case True
      with False have "mhas (sm_currentState app) ?i" by (simp add: HasTicket_def)
      with app' adds_validated_present show ?thesis using step S True by auto
    next
      case False
      with app' step S show ?thesis by auto
    qed
  qed
qed

definition validated_IDs :: "'d App \<Rightarrow> string set" where
  "validated_IDs app = {i. state_of app i = Some StateValidated}"

lemma sync_tickets_filter:
  "map ts_TicketId (filter (\<lambda>p. ts_State p = 2) (fst (sync_tickets ts))) =
     map t_ID (filter (\<lambda>t. t_State t = StateValidated) ts)"
  by (induction ts) (auto simp: Let_def stateToProto_def state_names)

lemma sync_tickets_validated:
  "{ts_TicketId p | p. p \<in> set (fst (sync_tickets ts)) \<and> ts_State p = 2} =
     {t_ID t | t. t \<in> set ts \<and> t_State t = StateValidated}"
proof -
  have "{f x | x. x \<in> set xs \<and> P x} = set (map f (filter P xs))" for f :: "'x \<Rightarrow> 'y" and P xs by auto
  then show ?thesis using sync_tickets_filter [of ts] by metis
qed

lemma all_tickets:
  assumes "sm_ok app"
  shows "\<exists>ts. GetAllTickets app = Some ts \<and>
    {t_ID t | t. t \<in> set ts \<and> t_State t = StateValidated} = validated_IDs app"
proof -
  let ?es = "entries (sm_currentState app)"
  have ok: "ticket_ok k t" if "(k, t) \<in> set ?es" for k t
    using that assms by (auto simp: set_entries sm_ok_def dest: fmpredD)
  then have "GetAllTickets app = Some (map snd ?es)"
    by (auto simp: GetAllTickets_def copy_tickets_eq has_clock_def ticket_ok_def)
  moreover have "{t_ID t | t. t \<in> set (map snd ?es) \<and> t_State t = StateValidated} = validated_IDs app"
  proof (intro set_eqI iffI)
    fix i assume "i \<in> {t_ID t | t. t \<in> set (map snd ?es) \<and> t_State t = StateValidated}"
    then obtain k t where "(k, t) \<in> set ?es" "i = t_ID t" "t_State t = StateValidated" by auto
    with ok [of k t] show "i \<in> validated_IDs app"
      by (simp add: validated_IDs_def state_of_def set_entries ticket_ok_def)
  next
    fix i assume "i \<in> validated_IDs app"
    then obtain t where t: "(i, t) \<in> set ?es" "t_State t = StateValidated"
      by (auto simp: validated_IDs_def state_of_def set_entries)
    with ok [of i t] show "i \<in> {t_ID t | t. t \<in> set (map snd ?es) \<and> t_State t = StateValidated}"
      by (force simp: ticket_ok_def)
  qed
  ultimately show ?thesis by blast
qed

text \<open>
  C24: when a node answers a synchronisation request and the requester handles the answer, the
  requester adds exactly the tickets that are validated at the responder and missing at the
  requester, as validated by the responder, provided the responder's sequence number is
  greater; otherwise it changes nothing. No ticket the requester knows is touched, and no other
  state of a ticket is transferred.
\<close>

theorem state_sync_adds_missing_validated:
  assumes "sm_ok (v_app u)" and "sm_ok (v_app v)" and "codec_ok (sc_response (d_sync D))"
    and "GetAllTickets (v_app u) = Some tickets"
    and "Marshal (sc_response (d_sync D)) (sync_response u tickets) = Inr payload"
  shows "\<exists>v'. handleStateSyncResponse D payload v = (None, v') \<and>
    (if n_sequence (v_pbft v) < n_sequence (v_pbft u)
     then adds_validated (v_nodeID u) (validated_IDs (v_app u)) (v_app v) (v_app v')
     else v' = v)"
proof -
  have resp: "Unmarshal (sc_response (d_sync D)) payload = Inr (sync_response u tickets)"
    using assms(3,5) by (simp add: codec_ok_def)
  have fields: "sr_ResponderId (sync_response u tickets) = v_nodeID u"
    "sr_CurrentSequence (sync_response u tickets) = n_sequence (v_pbft u)"
    "sr_ValidatedTickets (sync_response u tickets) = fst (sync_tickets tickets)"
    by (simp_all add: sync_response_def split: prod.splits)
  have ids: "{ts_TicketId p | p. p \<in> set (fst (sync_tickets tickets)) \<and> ts_State p = 2} = validated_IDs (v_app u)"
    using all_tickets [OF assms(1)] assms(4) by (auto simp: sync_tickets_validated)
  from sync_loop_adds [OF assms(2), of D "v_nodeID u" "fst (sync_tickets tickets)"] ids
  show ?thesis by (auto simp: handleStateSyncResponse_def resp fields)
qed

lemma validated_at_responder:
  fixes i :: string
  defines "u \<equiv> issue_at ''T'' (example_node i)"
  defines "w \<equiv> with_app (snd (ValidateTicket 2 ''T'' i '''' (v_app u))) u"
  shows "state_of (v_app w) ''T'' = Some StateValidated" and "sm_ok (v_app w)" and "v_nodeID w = i"
proof -
  have "sm_ok (v_app u)" unfolding u_def by (rule issue_at_ok)
  then show "sm_ok (v_app w)" using run_op_ok [of "OValidate 2 ''T'' i ''''" "v_app u"] by (simp add: w_def)
  show "v_nodeID w = i" by (simp add: w_def u_def issue_at_def)
  show "state_of (v_app w) ''T'' = Some StateValidated"
    by (simp add: w_def u_def state_of_def ValidateTicket_def issue_at_state Let_def)
qed

theorem state_sync_adds_missing_validated_witness:
  "\<exists>(u :: mem_db ValidatorNode) tickets payload v'. GetAllTickets (v_app u) = Some tickets \<and>
     Marshal (sc_response mem_sync) (sync_response u tickets) = Inr payload \<and>
     handleStateSyncResponse mem_deps payload (example_node ''node1'') = (None, v') \<and>
     state_of (v_app v') ''T'' = Some StateValidated"
proof -
  let ?u0 = "issue_at ''T'' (example_node ''node0'')"
  let ?u1 = "with_app (snd (ValidateTicket 2 ''T'' ''node0'' '''' (v_app ?u0))) ?u0"
  let ?u = "?u1\<lparr>v_pbft := (v_pbft ?u1)\<lparr>n_sequence := 1\<rparr>\<rparr>" and ?v = "example_node ''node1''"
  have u: "sm_ok (v_app ?u)" "state_of (v_app ?u) ''T'' = Some StateValidated"
    using validated_at_responder [of "''node0''"] by simp_all
  have v: "sm_ok (v_app ?v)" by (simp add: sm_ok_def)
  obtain tickets where t: "GetAllTickets (v_app ?u) = Some tickets" using all_tickets [OF u(1)] by blast
  obtain payload where p: "Marshal (sc_response (d_sync mem_deps)) (sync_response ?u tickets) = Inr payload"
    by (simp add: mem_deps_def mem_sync_def numbering_def)
  have c: "codec_ok (sc_response (d_sync mem_deps))" using mem_sync_ok by (simp add: mem_deps_def)
  from state_sync_adds_missing_validated [OF u(1) v c t p] obtain v' where
    h: "handleStateSyncResponse mem_deps payload ?v = (None, v')"
    and a: "adds_validated (v_nodeID ?u) (validated_IDs (v_app ?u)) (v_app ?v) (v_app v')" by auto
  have "''T'' \<in> validated_IDs (v_app ?u)" using u(2) by (simp add: validated_IDs_def)
  with adds_validatedD(3,4) [OF a, of "''T''"] have "state_of (v_app v') ''T'' = Some StateValidated"
    by (auto simp: state_of_def)
  with h t p [unfolded mem_deps_sync] show ?thesis
    by (intro exI [of _ ?u] exI [of _ tickets] exI [of _ payload] exI [of _ v'] conjI)
qed

section \<open>What consensus records\<close>

text \<open>The machine keeps its changes and calls its handlers; the outcome of a validation.\<close>

lemma apply_validate:
  assumes "mget (sm_currentState app) (r_TicketID req) = Some t" and "t_State t = StateIssued"
    and "r_Operation req = ''VALIDATE''"
  shows "\<exists>t'. mget (sm_currentState (snd (apply_operation vid req app))) (r_TicketID req) = Some t' \<and>
    t_State t' = StateValidated \<and> t_ValidatorID t' = vid"
  using assms by (simp add: apply_operation_def Let_def ValidateTicket_def)

lemma handler_frame:
  assumes "sm_ok app" and "apply_operation (if r_NodeID req = '''' then nid else r_NodeID req) req app = (err, app1)"
  shows "sm_currentState (snd (consensus_handler D nid req app)) = sm_currentState app1"
proof -
  let ?vid = "if r_NodeID req = '''' then nid else r_NodeID req"
  have "sm_ok (snd (apply_operation ?vid req app))"
    using assms(1) run_op_ok [of "OValidate (w_now (app_world app)) (r_TicketID req) ?vid (r_Data req)" app]
      run_op_ok [of "OConsume (w_now (app_world app)) (r_TicketID req) ?vid" app]
      run_op_ok [of "ODispute (w_now (app_world app)) (r_TicketID req) ?vid" app]
    by (simp add: apply_operation_def Let_def)
  with assms(2) have ok: "sm_ok app1" by simp
  obtain app2 where "persistTicket D (r_TicketID req) app1 = Some app2" using persistTicket_ok [OF ok] by blast
  moreover from persistTicket_frame(1) [OF ok this] have "sm_currentState app2 = sm_currentState app1" .
  ultimately show ?thesis using assms(2) by (simp add: consensus_handler_def Let_def split: option.splits)
qed

lemma validation_records:
  assumes "sm_ok app" and "mget (sm_currentState app) (r_TicketID req) = Some t" and "t_State t = StateIssued"
    and "r_Operation req = ''VALIDATE''"
  shows "\<exists>t'. mget (sm_currentState (snd (consensus_handler D nid req app))) (r_TicketID req) = Some t' \<and>
    t_State t' = StateValidated \<and> t_ValidatorID t' = (if r_NodeID req = '''' then nid else r_NodeID req)"
proof -
  let ?vid = "if r_NodeID req = '''' then nid else r_NodeID req"
  obtain err app1 where a: "apply_operation ?vid req app = (err, app1)" by fastforce
  from apply_validate [OF assms(2-4), of ?vid] handler_frame [OF assms(1) a, of D] a show ?thesis by simp
qed

text \<open>
  A request that reaches a backup in a PRE-PREPARE has lost its node ID, so when the same
  validation executes at the primary and at a backup, the primary's copy of the ticket names
  the node that took the request and the backup's copy names the backup: the replicas of a
  committed validation differ in \<open>ValidatorID\<close>.
\<close>

theorem replicas_record_different_validators:
  assumes "codec_ok (cd_preprepare C)" and "SerializePrePrepare C msg = Inr b" and "b \<noteq> []"
    and "r_Operation (pp_Request msg) = ''VALIDATE''" and "r_NodeID (pp_Request msg) = origin" and "origin \<noteq> ''''"
    and "sm_ok app" and "sm_ok app'" and "i = r_TicketID (pp_Request msg)"
    and "mget (sm_currentState app) i = Some t" and "t_State t = StateIssued"
    and "mget (sm_currentState app') i = Some t'" and "t_State t' = StateIssued"
  shows "\<exists>msg' u u'. DeserializePrePrepare C b = Inr msg' \<and>
    mget (sm_currentState (snd (consensus_handler D primary (pp_Request msg) app))) i = Some u \<and>
    mget (sm_currentState (snd (consensus_handler D backup (pp_Request msg') app'))) i = Some u' \<and>
    t_State u = StateValidated \<and> t_State u' = StateValidated \<and>
    t_ValidatorID u = origin \<and> t_ValidatorID u' = backup"
proof -
  let ?req = "as_received (pp_Request msg)"
  have req: "r_TicketID ?req = i" "r_Operation ?req = ''VALIDATE''" "r_NodeID ?req = ''''"
    using assms(4,9) by (simp_all add: as_received_def known_operation_def)
  obtain u where "mget (sm_currentState (snd (consensus_handler D primary (pp_Request msg) app))) i = Some u"
    and "t_State u = StateValidated" and "t_ValidatorID u = origin"
    using validation_records [OF assms(7), of "pp_Request msg" t D primary] assms(4-6,9-11) by auto
  moreover obtain u' where "mget (sm_currentState (snd (consensus_handler D backup ?req app'))) i = Some u'"
    and "t_State u' = StateValidated" and "t_ValidatorID u' = backup"
    using validation_records [OF assms(8), of ?req t' D backup] assms(12,13) req by auto
  ultimately show ?thesis
    using PrePrepare_roundtrip [OF assms(1-3)] by (intro exI [of _ "msg\<lparr>pp_Request := ?req\<rparr>"] exI [of _ u] exI [of _ u']) simp
qed

definition example_request :: Request where
  "example_request = \<lparr>r_RequestID = ''node0-1-T'', r_TicketID = ''T'', r_Operation = ''VALIDATE'', r_Data = '''',
     r_Timestamp = 1, r_NodeID = ''node0''\<rparr>"

theorem replicas_record_different_validators_witness:
  "\<exists>b msg' u u'. SerializePrePrepare numbering_codecs
      \<lparr>pp_View = 0, pp_Sequence = 1, pp_Digest = ''d'', pp_Request = example_request\<rparr> = Inr b \<and>
    DeserializePrePrepare numbering_codecs b = Inr msg' \<and>
    mget (sm_currentState (snd (consensus_handler mem_deps ''node0'' example_request
      (v_app (issue_at ''T'' (example_node ''node0'')))))) ''T'' = Some u \<and>
    mget (sm_currentState (snd (consensus_handler mem_deps ''node1'' (pp_Request msg')
      (v_app (issue_at ''T'' (example_node ''node1'')))))) ''T'' = Some u' \<and>
    t_ValidatorID u = ''node0'' \<and> t_ValidatorID u' = ''node1''"
proof -
  let ?m = "\<lparr>pp_View = 0, pp_Sequence = 1, pp_Digest = ''d'', pp_Request = example_request\<rparr>"
  obtain b where b: "SerializePrePrepare numbering_codecs ?m = Inr b" "b \<noteq> []"
    by (auto simp: SerializePrePrepare_def Let_def marshal_as_def numbering_codecs_def numbering_def)
  have c: "codec_ok (cd_preprepare numbering_codecs)" using numbering_codecs_ok by (simp add: codecs_ok_def)
  have "\<exists>msg' u u'. DeserializePrePrepare numbering_codecs b = Inr msg' \<and>
    mget (sm_currentState (snd (consensus_handler mem_deps ''node0'' (pp_Request ?m)
      (v_app (issue_at ''T'' (example_node ''node0'')))))) ''T'' = Some u \<and>
    mget (sm_currentState (snd (consensus_handler mem_deps ''node1'' (pp_Request msg')
      (v_app (issue_at ''T'' (example_node ''node1'')))))) ''T'' = Some u' \<and>
    t_State u = StateValidated \<and> t_State u' = StateValidated \<and>
    t_ValidatorID u = ''node0'' \<and> t_ValidatorID u' = ''node1''"
    by (rule replicas_record_different_validators [OF c b])
      (simp_all add: example_request_def issue_at_ok issue_at_state, simp_all)
  with b show ?thesis by auto
qed

text \<open>
  The consensus handler recognises harmless errors by a text in the message, and the message
  contains the ticket ID: a validation of a ticket that does not exist succeeds, and changes
  nothing, when its ID contains the words the handler looks for.
\<close>

theorem ticket_ID_fakes_success:
  assumes "Contains (r_TicketID req) ''already validated''" and "r_Operation req = ''VALIDATE''"
    and "mget (sm_currentState app) (r_TicketID req) = None"
  shows "consensus_handler D nid req app = (None, app)"
proof -
  let ?t = "sm_error_text ''VALIDATE'' (TicketNotFound (r_TicketID req))"
  have "idempotent_error ?t"
    using Contains_mid [OF assms(1), of "''ticket ''"] by (simp add: idempotent_error_def)
  moreover have "GetTicket (r_TicketID req) app = Some (Inl (TicketNotFound (r_TicketID req)))"
    using assms(3) by (simp add: GetTicket_def)
  ultimately show ?thesis
    using assms(2,3)
    by (simp add: consensus_handler_def apply_operation_def ValidateTicket_def persistTicket_def Let_def
        del: sm_error_text.simps)
qed

theorem ticket_ID_fakes_success_witness:
  "fst (consensus_handler mem_deps ''node0'' (example_request\<lparr>r_TicketID := ''X already validated''\<rparr>)
     (v_app (example_node ''node0''))) = None"
proof -
  have "Contains (r_TicketID (example_request\<lparr>r_TicketID := ''X already validated''\<rparr>)) ''already validated''"
    by (simp, code_simp)
  from ticket_ID_fakes_success [OF this, of "v_app (example_node ''node0'')" mem_deps "''node0''"]
  show ?thesis by (simp add: example_request_def)
qed

section \<open>Recovery after a restart\<close>

text \<open>The disk works: saving into an existing bucket and reading succeed.\<close>

definition store_available :: "'d Deps \<Rightarrow> bool" where
  "store_available D \<longleftrightarrow>
     (\<forall>r d. bolt_Bucket (d_bolt D) BucketTickets d \<longrightarrow> fst (SaveTicket (d_bolt D) (d_json D) r d) = None) \<and>
     (\<forall>d. bolt_View (d_bolt D) d = None)"

lemma save_ticket_db:
  "ne_db (snd (save_ticket D r e)) = snd (SaveTicket (d_bolt D) (d_json D) r (ne_db e))"
  by (simp add: save_ticket_def split: prod.splits)

lemma save_ticket_bucket:
  "bolt_ok (d_bolt D) \<Longrightarrow> bolt_Bucket (d_bolt D) BucketTickets (ne_db (snd (save_ticket D r e))) =
     bolt_Bucket (d_bolt D) BucketTickets (ne_db e)"
  by (simp add: save_ticket_db SaveTicket_def save_record_bucket)

lemma save_ticket_saves:
  assumes "store_available D" and "bolt_Bucket (d_bolt D) BucketTickets (ne_db e)"
  shows "SaveTicket (d_bolt D) (d_json D) r (ne_db e) = (None, ne_db (snd (save_ticket D r e)))"
  using assms by (simp add: store_available_def save_ticket_db prod_eq_iff)

lemma persist_all_saves:
  assumes "bolt_ok (d_bolt D)" and "store_available D" and "sm_ok app"
    and "bolt_Bucket (d_bolt D) BucketTickets (ne_db (sm_env app))"
    and "\<forall>i \<in> set is. mhas (sm_currentState app) i" and "persist_all D is app = Some app'"
  shows "save_all (SaveTicket (d_bolt D) (d_json D))
      (map (\<lambda>i. ticket_record (the (mget (sm_currentState app) i))) is) (ne_db (sm_env app)) = Inr (ne_db (sm_env app'))"
  using assms(3-6)
proof (induction "is" arbitrary: app)
  case (Cons i "is")
  obtain t where t: "mget (sm_currentState app) i = Some t" using Cons.prems(3) by auto
  let ?e = "snd (save_ticket D (ticket_record t) (sm_env app))"
  have p: "persistTicket D i app = Some (with_env ?e app)" using persistTicket_ok [OF Cons.prems(1)] t by simp
  with Cons.prems(4) have rest: "persist_all D is (with_env ?e app) = Some app'" by simp
  have "bolt_Bucket (d_bolt D) BucketTickets (ne_db ?e)" using save_ticket_bucket [OF assms(1)] Cons.prems(2) by simp
  with Cons.IH [of "with_env ?e app"] rest Cons.prems
  have "save_all (SaveTicket (d_bolt D) (d_json D))
      (map (\<lambda>i. ticket_record (the (mget (sm_currentState app) i))) is) (ne_db ?e) = Inr (ne_db (sm_env app'))"
    by simp
  with save_ticket_saves [OF assms(2) Cons.prems(2), of "ticket_record t"] t show ?case by simp
qed simp

lemma latest_distinct:
  assumes "distinct (map f rs)"
  shows "latest f rs (f r) = Some r \<longleftrightarrow> r \<in> set rs"
proof
  show "latest f rs (f r) = Some r \<Longrightarrow> r \<in> set rs" by (rule latest_Some [THEN conjunct1])
  assume r: "r \<in> set rs"
  obtain r' where r': "latest f rs (f r) = Some r'" using latest_exists [OF r, of f] by (elim exE)
  have "r' \<in> set rs" and "f r' = f r"
    using latest_Some [OF r'] by (rule conjunct1, rule conjunct2)
  with assms r have "r' = r" by (auto simp: distinct_map dest: inj_onD)
  with r' show "latest f rs (f r) = Some r" by simp
qed

lemma merge_distinct:
  assumes "distinct (map t_ID ts)" and "\<forall>t \<in> set ts. has_clock t \<and> mget m (t_ID t) = None"
  shows "\<exists>m'. merge_tickets ts m = Some m' \<and>
    (\<forall>i. mget m' i = (case map_of (map (\<lambda>t. (t_ID t, t)) ts) i of None \<Rightarrow> mget m i | Some t \<Rightarrow> Some t))"
  using assms
proof (induction ts arbitrary: m)
  case (Cons t ts)
  let ?m = "fmupd (t_ID t) t m"
  have "merge_ticket t m = Some ?m" using Cons.prems by (simp add: merge_ticket_def copy_ticket_eq)
  moreover have "\<forall>u \<in> set ts. has_clock u \<and> mget ?m (t_ID u) = None" using Cons.prems by auto
  moreover have "map_of (map (\<lambda>t. (t_ID t, t)) ts) (t_ID t) = None"
    using Cons.prems(1) by (auto simp: map_of_eq_None_iff image_image)
  moreover obtain m' where "merge_tickets ts ?m = Some m'"
    and "\<forall>i. mget m' i = (case map_of (map (\<lambda>t. (t_ID t, t)) ts) i of None \<Rightarrow> mget ?m i | Some t \<Rightarrow> Some t)"
    using Cons.IH [of ?m] Cons.prems(1) calculation(2) by auto
  ultimately show ?case by (intro exI [of _ m']) (simp split: option.split)
qed simp

definition same_ticket :: "Ticket \<Rightarrow> Ticket \<Rightarrow> bool" where
  "same_ticket t t' \<longleftrightarrow> t_ID t' = t_ID t \<and> t_State t' = t_State t \<and> t_Data t' = t_Data t \<and>
     t_ValidatorID t' = t_ValidatorID t \<and> t_Timestamp t' = t_Timestamp t \<and> t_Metadata t' = t_Metadata t \<and>
     (\<exists>vc vc'. t_VectorClock t = Some vc \<and> t_VectorClock t' = Some vc' \<and> (\<forall>k. Get vc' k = Get vc k))"

lemma restored_ticket: "has_clock t \<Longrightarrow> same_ticket t (ticket_from_record n (ticket_record t))"
  by (auto simp: same_ticket_def ticket_from_record_def ticket_record_def has_clock_def Get_update_clock)
    (simp add: Get_def)

lemma ticket_from_record_simps [simp]:
  "t_ID (ticket_from_record n r) = tk_ID r" "has_clock (ticket_from_record n r)"
  by (simp_all add: ticket_from_record_def has_clock_def)

lemma ticket_record_ID [simp]: "tk_ID (ticket_record t) = t_ID t"
  by (simp add: ticket_record_def)

lemma NewValidatorNode_app:
  "sm_currentState (v_app (NewValidatorNode D cfg pid w db)) = fmempty"
  "ne_db (sm_env (v_app (NewValidatorNode D cfg pid w db))) = db"
  "v_nodeID (NewValidatorNode D cfg pid w db) = cfg_NodeID cfg"
  by (simp_all add: NewValidatorNode_def Let_def NewPBFTNode_def PBFT.RegisterHandler_def
      RegisterStateReplicator_def Ticket_State.RegisterHandler_def RegisterPublisher_def NewStateMachine_def)

text \<open>Loading a store whose ticket bucket was filled by saves into an empty machine.\<close>

lemma loaded_lookup:
  assumes set: "set ls = set rs" and dl: "distinct (map tk_ID ls)"
  shows "map_of (map (\<lambda>t. (t_ID t, t)) (map (ticket_from_record nid) ls)) i =
    map_option (ticket_from_record nid) (find (\<lambda>r. tk_ID r = i) rs)"
proof (cases "find (\<lambda>r. tk_ID r = i) rs")
  case None
  then have "\<forall>r \<in> set ls. tk_ID r \<noteq> i" using set by (auto simp: find_None_iff)
  then show ?thesis using None by (auto simp: map_of_eq_None_iff)
next
  case (Some r)
  let ?ts = "map (ticket_from_record nid) ls"
  have "r \<in> set ls" and "tk_ID r = i" using Some set find_SomeD by fast+
  then have "(i, ticket_from_record nid r) \<in> set (map (\<lambda>t. (t_ID t, t)) ?ts)" by auto
  moreover have "distinct (map fst (map (\<lambda>t. (t_ID t, t)) ?ts))" using dl by (simp add: comp_def)
  ultimately show ?thesis using Some by (simp add: map_of_is_SomeI del: map_map)
qed

lemma load_saved:
  assumes D: "bolt_ok (d_bolt D)" "json_ok (d_json D)" "store_available D"
    and "\<forall>r \<in> set rs. plain_ticket r" and "distinct (map tk_ID rs)"
    and "bolt_ForEach (d_bolt D) BucketTickets d = []" and "bolt_Bucket (d_bolt D) BucketTickets d"
    and saves: "save_all (SaveTicket (d_bolt D) (d_json D)) rs d = Inr (ne_db (sm_env app))"
    and "sm_currentState app = fmempty"
  shows "\<exists>app'. loadTicketsFromStore D nid app = Some app' \<and>
    (\<forall>i. mget (sm_currentState app') i = map_option (ticket_from_record nid) (find (\<lambda>r. tk_ID r = i) rs))"
proof -
  let ?B = "d_bolt D" and ?json = "js_ticket (d_json D)" and ?db = "ne_db (sm_env app)"
  have json: "json_codec_ok plain_ticket ?json" using D(2) by (simp add: json_ok_def)
  have sv: "save_all (\<lambda>r. save_record ?B ''ticket'' BucketTickets ?json (tk_ID r) r) rs d = Inr ?db"
    using saves by (simp add: SaveTicket_def [abs_def])
  obtain ls where "bolt_ForEach ?B BucketTickets ?db = map (\<lambda>r. (tk_ID r, projr (Marshal ?json r))) ls"
    and un: "unmarshal_all ?json (bolt_ForEach ?B BucketTickets ?db) = Inr ls"
    and sorted: "sorted_wrt (<) (map tk_ID ls)" and "set ls = {r. latest tk_ID rs (tk_ID r) = Some r}"
    by (rule bucket_after_saves [OF D(1) json assms(4,6) sv])
  then have set: "set ls = set rs" using latest_distinct [OF assms(5)] by auto
  have dl: "distinct (map tk_ID ls)" using sorted by (simp add: strict_sorted_iff)
  have "bolt_Bucket ?B BucketTickets ?db"
    using sv assms(7) save_all_content(3) [OF D(1) sv] by (cases rs) auto
  then have load: "store_GetAllTickets ?B (d_json D) ?db = Inr ls"
    using D(3) un by (simp add: store_GetAllTickets_def get_records_def db_View_def store_available_def)
  let ?ts = "map (ticket_from_record nid) ls"
  have "distinct (map t_ID ?ts)" using dl by (simp add: comp_def)
  with merge_distinct [of ?ts fmempty] obtain m' where m': "merge_tickets ?ts fmempty = Some m'"
    "\<And>i. mget m' i = map_of (map (\<lambda>t. (t_ID t, t)) ?ts) i"
    by (auto split: option.splits) (metis (no_types, lifting) fmempty_lookup option.case_eq_if option.collapse)
  note look = loaded_lookup [OF set dl]
  show ?thesis
  proof (cases "ls = []")
    case True
    then have "rs = []" using set by simp
    with True load assms(9) show ?thesis by (simp add: loadTicketsFromStore_def)
  next
    case False
    have clocks: "\<forall>t \<in> set ?ts. has_clock t" by simp
    obtain app' where app': "MergeState ?ts app = Some app'"
      using MergeState_None_iff [of app ?ts] clocks assms(9) by (fastforce simp: sm_ok_def)
    with MergeState_SomeD(1) [OF app'] m'(1) assms(9) have "sm_currentState app' = m'" by simp
    with app' load False m'(2) look show ?thesis by (simp add: loadTicketsFromStore_def)
  qed
qed

text \<open>
  C23: tickets survive a restart. When every ticket of a node was persisted into a store that held
  none, a node started on that store afterwards has exactly these tickets, in the same
  state, with the same data, validator, timestamp, metadata and clock readings, whatever its own node ID
  and whether or not its API server starts.
\<close>

theorem tickets_survive_restart:
  assumes D: "bolt_ok (d_bolt D)" "json_ok (d_json D)" "store_available D"
    and "sm_ok app" and "\<And>i t. mget (sm_currentState app) i = Some t \<Longrightarrow> plain_ticket (ticket_record t)"
    and "bolt_ForEach (d_bolt D) BucketTickets (ne_db (sm_env app)) = []"
    and "bolt_Bucket (d_bolt D) BucketTickets (ne_db (sm_env app))"
    and "persist_all D (keys (sm_currentState app)) app = Some app'"
  shows "\<exists>v. validator_Start D None err (NewValidatorNode D cfg pid w (ne_db (sm_env app'))) =
      Some (map_option ApiServerFailed err, v) \<and>
    (\<forall>i. rel_option same_ticket (mget (sm_currentState app) i) (mget (sm_currentState (v_app v)) i))"
proof -
  let ?m = "sm_currentState app" and ?new = "NewValidatorNode D cfg pid w (ne_db (sm_env app'))"
  let ?rs = "map (\<lambda>i. ticket_record (the (mget ?m i))) (keys ?m)"
  have tk: "ticket_ok i t" if "mget ?m i = Some t" for i t
    using that assms(4) by (auto simp: sm_ok_def dest: fmpredD)
  have ids: "map tk_ID ?rs = keys ?m"
    using tk by (auto simp: comp_def fmlookup_dom_iff ticket_ok_def intro!: map_idI)
  have saves: "save_all (SaveTicket (d_bolt D) (d_json D)) ?rs (ne_db (sm_env app)) = Inr (ne_db (sm_env (v_app ?new)))"
    using persist_all_saves [OF D(1,3) assms(4,7) _ assms(8)] by (simp add: NewValidatorNode_app)
  have plain: "\<forall>r \<in> set ?rs. plain_ticket r" using assms(5) by (auto simp: fmlookup_dom_iff)
  have "distinct (map tk_ID ?rs)" using ids by (metis distinct_keys)
  from load_saved [OF D plain this assms(6,7) saves, of "v_nodeID ?new"] obtain app2 where
    app2: "loadTicketsFromStore D (v_nodeID ?new) (v_app ?new) = Some app2"
    and look: "\<And>i. mget (sm_currentState app2) i =
      map_option (ticket_from_record (v_nodeID ?new)) (find (\<lambda>r. tk_ID r = i) ?rs)"
    by (auto simp: NewValidatorNode_app)
  have "rel_option same_ticket (mget ?m i) (mget (sm_currentState app2) i)" for i
  proof (cases "mget ?m i")
    case None
    then have "\<forall>r \<in> set ?rs. tk_ID r \<noteq> i" using tk by (auto simp: fmlookup_dom_iff ticket_ok_def)
    then have "find (\<lambda>r. tk_ID r = i) ?rs = None" by (simp add: find_None_iff)
    with None look show ?thesis by simp
  next
    case (Some t)
    then have "find (\<lambda>r. tk_ID r = i) ?rs \<noteq> None" using tk [OF Some]
      by (auto simp: find_None_iff fmlookup_dom_iff ticket_ok_def intro!: bexI [of _ i])
    then obtain r where r: "find (\<lambda>r. tk_ID r = i) ?rs = Some r" by blast
    then have "r \<in> set ?rs" and "tk_ID r = i" using find_SomeD by fast+
    then have "r = ticket_record t" using tk Some by (auto simp: fmlookup_dom_iff ticket_ok_def)
    moreover have "has_clock t" using tk [OF Some] by (simp add: ticket_ok_def has_clock_def)
    ultimately show ?thesis using Some look r restored_ticket by simp
  qed
  then show ?thesis using app2 by (simp add: validator_Start_def)
qed

lemma mem_deps_libraries: "bolt_ok (d_bolt mem_deps)" "json_ok (d_json mem_deps)" "store_available mem_deps"
proof -
  show "bolt_ok (d_bolt mem_deps)" "json_ok (d_json mem_deps)"
    by (simp_all add: mem_deps_def mem_bolt_ok mem_json_ok)
  show "store_available mem_deps"
    by (simp add: store_available_def mem_deps_def SaveTicket_def save_record_def mem_bolt_def mem_json_def
        numbering_def put_in_def)
qed

lemma mem_db_empty:
  "bolt_ForEach (d_bolt mem_deps) BucketTickets mem_db = []" "bolt_Bucket (d_bolt mem_deps) BucketTickets mem_db"
  by (simp_all add: mem_deps_def mem_bolt_def mem_db_def bucket_names)

lemma issue_at_env [simp]: "sm_env (v_app (issue_at t v)) = sm_env (v_app v)"
  by (simp add: issue_at_def IssueTicket_def Let_def)

theorem tickets_survive_restart_witness:
  "\<exists>app' v. persist_all mem_deps [''T''] (v_app (issue_at ''T'' (example_node ''node0''))) = Some app' \<and>
     validator_Start mem_deps None None (NewValidatorNode mem_deps
       \<lparr>cfg_NodeID = ''node0'', cfg_TotalNodes = 4, cfg_IsPrimary = False, cfg_ViewTimeout = 0\<rparr> ''p'' calm_world
       (ne_db (sm_env app'))) = Some (None, v) \<and>
     state_of (v_app v) ''T'' = Some StateIssued"
proof -
  let ?app = "v_app (issue_at ''T'' (example_node ''node0''))"
  let ?cfg = "\<lparr>cfg_NodeID = ''node0'', cfg_TotalNodes = 4, cfg_IsPrimary = False, cfg_ViewTimeout = 0\<rparr>"
  have keys: "keys (sm_currentState ?app) = [''T'']" unfolding issue_at_state by code_simp
  obtain app' where p: "persist_all mem_deps (keys (sm_currentState ?app)) ?app = Some app'"
    using persist_all_frame [OF issue_at_ok] by blast
  have plain: "plain_ticket (ticket_record t)" if "mget (sm_currentState ?app) i = Some t" for i t
    using that unfolding issue_at_state
    by (auto simp: plain_ticket_def ticket_record_def ascii_def ascii_map_def StateIssued_def NewVectorClock_def
        split: if_splits)
  have "\<exists>v. validator_Start mem_deps None None (NewValidatorNode mem_deps ?cfg ''p'' calm_world (ne_db (sm_env app'))) = Some (None, v) \<and>
      (\<forall>i. rel_option same_ticket (mget (sm_currentState ?app) i) (mget (sm_currentState (v_app v)) i))"
    by (rule tickets_survive_restart [where err = None, unfolded option.map, OF mem_deps_libraries issue_at_ok _ _ _ p])
      (fact plain, simp_all add: mem_db_empty)
  then obtain v where v: "validator_Start mem_deps None None (NewValidatorNode mem_deps ?cfg ''p'' calm_world (ne_db (sm_env app'))) = Some (None, v)"
    and r: "rel_option same_ticket (mget (sm_currentState ?app) ''T'') (mget (sm_currentState (v_app v)) ''T'')"
    by blast
  have "state_of (v_app v) ''T'' = Some StateIssued"
    using r unfolding issue_at_state by (auto simp: state_of_def option_rel_Some1 same_ticket_def)
  with p v show ?thesis unfolding keys by blast
qed

section \<open>Seeding again\<close>

lemma save_seeds_saves:
  assumes "bolt_ok (d_bolt D)" and "store_available D" and "bolt_Bucket (d_bolt D) BucketTickets (ne_db e)"
  shows "save_all (SaveTicket (d_bolt D) (d_json D)) (map seed_record ts) (ne_db e) = Inr (ne_db (save_seeds D ts e))"
  using assms(3)
proof (induction ts arbitrary: e)
  case (Cons t ts)
  let ?e = "snd (save_ticket D (seed_record t) e)"
  have "bolt_Bucket (d_bolt D) BucketTickets (ne_db ?e)" using save_ticket_bucket [OF assms(1)] Cons.prems by simp
  with Cons.IH [of ?e] save_ticket_saves [OF assms(2) Cons.prems, of "seed_record t"] show ?case by simp
qed simp

lemma GetTicket_after_saves:
  assumes "bolt_ok B" and "json_ok J" and "\<forall>r \<in> set rs. plain_ticket r" and "bolt_View B d' = None"
    and "save_all (SaveTicket B J) rs d = Inr d'" and "latest tk_ID rs i = Some r"
  shows "store_GetTicket B J i d' = Inr r"
proof -
  have json: "json_codec_ok plain_ticket (js_ticket J)" using assms(2) by (simp add: json_ok_def)
  have sv: "save_all (\<lambda>r. save_record B ''ticket'' BucketTickets (js_ticket J) (tk_ID r) r) rs d = Inr d'"
    using assms(5) by (simp add: SaveTicket_def [abs_def])
  have "rs \<noteq> []" and r: "r \<in> set rs" using assms(6) latest_Some [OF assms(6)] by auto
  then have "bolt_Bucket B BucketTickets d'" using save_all_content(3) [OF assms(1) sv] by simp
  moreover have "bolt_Get B BucketTickets i d' = Some (projr (Marshal (js_ticket J) r))"
    using save_all_content(1) [OF assms(1) sv, of i] assms(6) by simp
  moreover have "unmarshal_record (js_ticket J) (projr (Marshal (js_ticket J) r)) = Inr r"
    using r assms(3) save_all_content(2) [OF assms(1) sv] unmarshal_saved [OF json] by blast
  ultimately show ?thesis using assms(4) by (simp add: store_GetTicket_def get_record_def db_View_def)
qed

lemma ascii_append [simp]: "ascii (s @ t) \<longleftrightarrow> ascii s \<and> ascii t"
  by (auto simp: ascii_def)

lemma ascii_digits: "digits s \<Longrightarrow> ascii s"
  by (auto simp: digits_def ascii_def list_all_iff)

lemma plain_seed: "plain_ticket (seed_record (seed_ticket now k))"
proof -
  have "ascii (pad3 k)" by (simp add: pad3_def ascii_digits digits_dec_nat Let_def)
  moreover have "\<forall>v \<in> fset (fmran (fmupd ''source'' ''seed'' fmempty)). ascii v"
    by (auto simp: ascii_def elim!: fmranE split: if_splits)
  ultimately show ?thesis
    by (simp add: plain_ticket_def seed_record_def seed_ticket_def ascii_map_def StateIssued_def)
      (simp add: ascii_def)
qed

text \<open>
  Seeding writes every seed ticket to the store as issued, also when the node already has it
  in another state: the machine keeps the ticket as it is, but the store, from which a
  restart recovers, then says that it was never validated or consumed.
\<close>

theorem reseeding_resets_the_store:
  assumes D: "bolt_ok (d_bolt D)" "json_ok (d_json D)" "store_available D"
    and "bolt_Bucket (d_bolt D) BucketTickets (ne_db (sm_env (v_app v)))"
    and "k \<in> {1..500}" and "i = ''TICKET-'' @ pad3 k" and "mget (sm_currentState (v_app v)) i = Some t"
    and "api_SeedTickets D v = (n, v')"
  shows "mget (sm_currentState (v_app v')) i = Some t \<and>
    (\<exists>r. store_GetTicket (d_bolt D) (d_json D) i (ne_db (sm_env (v_app v'))) = Inr r \<and> tk_State r = StateIssued)"
proof -
  let ?ts = "map (seed_ticket (w_now (app_world (v_app v)))) [1..<501]"
  let ?app = "snd (SeedTickets ?ts (v_app v))"
  have env: "sm_env (snd (seed_loop ts c a)) = sm_env a" for ts c and a :: "'a App"
    by (induction ts c a rule: seed_loop.induct) simp_all
  have v': "v_app v' = with_env (save_seeds D ?ts (sm_env ?app)) ?app"
    using assms(8) by (auto simp: api_SeedTickets_def Let_def split: prod.splits)
  have "mget (sm_currentState (v_app v')) i = Some t"
    unfolding v' using seed_keeps [OF assms(7), of ?ts 0] by (simp add: SeedTickets_def)
  moreover have saves: "save_all (SaveTicket (d_bolt D) (d_json D)) (map seed_record ?ts) (ne_db (sm_env (v_app v))) =
      Inr (ne_db (sm_env (v_app v')))"
    using save_seeds_saves [OF D(1,3), of "sm_env (v_app v)" ?ts] assms(4) v' env by (simp add: SeedTickets_def)
  let ?r = "seed_record (seed_ticket (w_now (app_world (v_app v))) k)"
  have "?r \<in> set (map seed_record ?ts)" using assms(5) by auto
  from latest_exists [OF this, of tk_ID] obtain r where r: "latest tk_ID (map seed_record ?ts) (tk_ID ?r) = Some r"
    by (elim exE)
  have "tk_ID ?r = i" using assms(6) by (simp add: seed_record_def seed_ticket_def)
  moreover have "tk_State r = StateIssued"
    using latest_Some [OF r] by (auto simp: seed_record_def)
  moreover have "\<forall>r \<in> set (map seed_record ?ts). plain_ticket r" by (auto simp: plain_seed)
  ultimately show ?thesis
    using GetTicket_after_saves [OF D(1,2) _ _ saves, of i r] r D(3) by (auto simp: store_available_def)
qed

definition validated_node :: "mem_db ValidatorNode" where
  "validated_node = with_app ((v_app (example_node ''node0''))\<lparr>sm_currentState :=
     fmupd ''TICKET-001'' \<lparr>t_ID = ''TICKET-001'', t_State = StateValidated, t_Data = '''', t_ValidatorID = ''node0'',
       t_Timestamp = 1, t_VectorClock = Some (NewVectorClock ''node0''), t_Metadata = fmempty\<rparr> fmempty\<rparr>)
     (example_node ''node0'')"

theorem reseeding_resets_the_store_witness:
  "\<exists>n v' r. api_SeedTickets mem_deps validated_node = (n, v') \<and>
     state_of (v_app v') ''TICKET-001'' = Some StateValidated \<and>
     store_GetTicket mem_bolt mem_json ''TICKET-001'' (ne_db (sm_env (v_app v'))) = Inr r \<and> tk_State r = StateIssued"
proof -
  obtain n v' where s: "api_SeedTickets mem_deps validated_node = (n, v')" by fastforce
  have b: "bolt_Bucket (d_bolt mem_deps) BucketTickets (ne_db (sm_env (v_app validated_node)))"
    by (simp add: validated_node_def mem_db_empty)
  have i: "''TICKET-001'' = ''TICKET-'' @ pad3 1" by code_simp
  have k: "(1::nat) \<in> {1..500}" by simp
  obtain t where t: "mget (sm_currentState (v_app validated_node)) ''TICKET-001'' = Some t"
    and st: "t_State t = StateValidated" by (simp add: validated_node_def)
  from reseeding_resets_the_store [OF mem_deps_libraries b k i t s] s st show ?thesis
    by (auto simp: state_of_def mem_deps_def)
qed

section \<open>The waits of the API\<close>

fun decisive :: "string \<Rightarrow> wait_event \<Rightarrow> api_outcome option" where
  "decisive i Deadline = Some (ApiErr (ConsensusTimeout i))"
| "decisive i NodeDone = Some (ApiErr NodeShuttingDown)"
| "decisive i (StateChanged s) = (if s = StateValidated then Some ApiOk else None)"
| "decisive i _ = None"

lemma broadcast_from_env [simp]:
  "ne_broadcasts (sm_env (v_app (snd (broadcast_from m v)))) = ne_broadcasts (sm_env (v_app v)) @ [m]"
  "ne_broadcasts (sm_env (v_app (unsubscribe_ticket i ch v))) = ne_broadcasts (sm_env (v_app v))"
  by (simp_all add: broadcast_from_def unsubscribe_ticket_def Let_def)

lemma ClearPending_app [simp]: "n_app (ClearPendingRequest n) = n_app n"
  by (simp add: ClearPendingRequest_def)

text \<open>
  A forwarded validation waits until the first deciding event and not longer: the deadline, the
  end of the node, or the notification that the ticket is validated; that event alone fixes the
  answer. Until then the request is broadcast once more for every tick of the retry timer.
\<close>

theorem forwarded_wait_ends:
  assumes "await_state i ch m evs v = (out, v')"
  shows "out = (case find (\<lambda>e. decisive i e \<noteq> None) evs of None \<Rightarrow> None | Some e \<Rightarrow> decisive i e) \<and>
    ne_broadcasts (sm_env (v_app v')) = ne_broadcasts (sm_env (v_app v)) @
      replicate (length (filter (\<lambda>e. e = RetryTick) (takeWhile (\<lambda>e. decisive i e = None) evs))) m"
  using assms
proof (induction evs arbitrary: v)
  case (Cons ev evs)
  show ?case
  proof (cases ev)
    case RetryTick
    with Cons.IH [of "snd (broadcast_from m v)"] Cons.prems show ?thesis by simp
  next
    case (StateChanged s)
    with Cons.IH [of v] Cons.prems show ?thesis by (cases "s = StateValidated") auto
  next
    case (CallbackFired b e)
    with Cons.IH [of v] Cons.prems show ?thesis by simp
  qed (use Cons.prems in auto)
qed simp

theorem forwarded_wait_ends_witness:
  "fst (await_state ''T'' 0 ''req'' [RetryTick, StateChanged StateConsumed, RetryTick, Deadline, StateChanged StateValidated]
     (example_node ''node1'')) = Some (ApiErr (ConsensusTimeout ''T''))"
proof -
  let ?evs = "[RetryTick, StateChanged StateConsumed, RetryTick, Deadline, StateChanged StateValidated]"
  obtain out v' where "await_state ''T'' 0 ''req'' ?evs (example_node ''node1'') = (out, v')" by fastforce
  from this forwarded_wait_ends [OF this] show ?thesis by simp
qed

end
