(* ===== verification/Validator_Api.thy ===== *)
theory Validator_Api
  imports Api Validator_Properties
begin

text \<open>
  The validator node behind its API server: the implementation of \<open>api.ValidatorInterface\<close> in
  \<open>cmd/validator/main.go\<close>, and the proof that it keeps the contract the server relies on.

  \<open>NodeView\<close> is what the read-only descriptions take from the libraries: the connected peers,
  the size of the gossip cache, the statistics of the database, the public key and the listen
  addresses. The part of \<open>ValidateTicket\<close> that waits for consensus is the argument \<open>wait\<close>,
  which says how the wait ends and what happened to the node meanwhile. An error is handed on
  as its text.
\<close>

section \<open>Model\<close>

record NodeView =
  nv_peers :: "(string \<times> string list) list"
  nv_cacheSize :: int
  nv_storageStats :: string
  nv_publicKey :: "bytes option"
  nv_addrs :: "string list"

datatype node_data =
    TicketData Ticket
  | StatsData string int bool int int int string
  | PeerData string "string list"
  | ConfigData string int bool int
  | LogData ConsensusRecord
  | CryptoData string string string "string list"
  | EntriesData StorageEntries
  | Panicked

definition GetStats :: "NodeView \<Rightarrow> 'd ValidatorNode \<Rightarrow> node_data" where
  "GetStats V v =
     StatsData (v_nodeID v) (w_peerCount (app_world (v_app v))) (n_isPrimary (v_pbft v)) (n_view (v_pbft v))
       (n_sequence (v_pbft v)) (nv_cacheSize V) (nv_storageStats V)"

definition api_GetPeers :: "NodeView \<Rightarrow> node_data list" where
  "api_GetPeers V = map (\<lambda>(p, addrs). PeerData p addrs) (nv_peers V)"

definition GetConfig :: "'d ValidatorNode \<Rightarrow> node_data" where
  "GetConfig v = ConfigData (v_nodeID v) (v_totalNodes v) (n_isPrimary (v_pbft v)) (n_view (v_pbft v))"

definition GetNodeCryptoInfo :: "NodeView \<Rightarrow> 'd ValidatorNode \<Rightarrow> node_data" where
  "GetNodeCryptoInfo V v =
     CryptoData (v_nodeID v) (v_peerID v)
       (case nv_publicKey V of None \<Rightarrow> '''' | Some raw \<Rightarrow> EncodeToString raw) (nv_addrs V)"

definition validate_and_wait ::
  "'d Deps \<Rightarrow> nat \<Rightarrow> (int \<times> bool) list \<Rightarrow>
   (api_outcome \<Rightarrow> 'd ValidatorNode \<Rightarrow> val_error option \<times> 'd ValidatorNode) \<Rightarrow>
   string \<Rightarrow> bytes \<Rightarrow> 'd ValidatorNode \<Rightarrow> val_error option \<times> 'd ValidatorNode" where
  "validate_and_wait D cb attempts wait ticketID data v =
     (case api_ValidateTicket D cb attempts ticketID data v of
        (ApiOk, v') \<Rightarrow> (None, v')
      | (ApiErr err, v') \<Rightarrow> (Some err, v')
      | (out, v') \<Rightarrow> wait out v')"

definition node_interface ::
  "'d Deps \<Rightarrow> NodeView \<Rightarrow> (val_error \<Rightarrow> string) \<Rightarrow>
   (string \<Rightarrow> bytes \<Rightarrow> 'd ValidatorNode \<Rightarrow> val_error option \<times> 'd ValidatorNode) \<Rightarrow>
   ('d ValidatorNode, node_data) ValidatorInterface" where
  "node_interface D V show_err validate =
     \<lparr>vi_ValidateTicket = (\<lambda>i data v. apfst (map_option show_err) (validate i data v)),
      vi_ConsumeTicket = (\<lambda>i v. apfst (map_option show_err) (api_ConsumeTicket i v)),
      vi_DisputeTicket = (\<lambda>i v. apfst (map_option show_err) (api_DisputeTicket i v)),
      vi_SeedTickets = (\<lambda>v. apfst Inr (api_SeedTickets D v)),
      vi_GetTicket = (\<lambda>i v. case api_GetTicket i v of
         None \<Rightarrow> Inl ''panic: nil vector clock''
       | Some (Inl err) \<Rightarrow> Inl (sm_error_text '''' err)
       | Some (Inr t) \<Rightarrow> Inr (TicketData t)),
      vi_GetAllTickets = (\<lambda>v. case api_GetAllTickets v of
         None \<Rightarrow> Inl ''panic: nil vector clock'' | Some ts \<Rightarrow> Inr (map TicketData ts)),
      vi_GetStats = GetStats V,
      vi_GetPeers = (\<lambda>v. Inr (api_GetPeers V)),
      vi_GetConfig = (\<lambda>v. Inr (GetConfig v)),
      vi_GetConsensusLogs = (\<lambda>v. case api_GetConsensusLogs D v of
         Inl err \<Rightarrow> Inl (store_error_text err) | Inr ls \<Rightarrow> Inr (map LogData ls)),
      vi_GetNodeCryptoInfo = GetNodeCryptoInfo V,
      vi_GetStorageEntries = (\<lambda>v. case GetStorageEntries D v of None \<Rightarrow> Panicked | Some e \<Rightarrow> EntriesData e)\<rparr>"

text \<open>
  What else may happen to the node between two requests: an operation on its state machine (by
  the API, by consensus, by a state-sync response or by a merged state update), and any change
  of the rest of the node and of its surroundings.
\<close>

datatype 'd node_op =
    Machine sm_op
  | Surroundings "'d NodeEnv"
  | Rest "'d ValidatorNode"

fun node_act :: "'d node_op \<Rightarrow> 'd ValidatorNode \<Rightarrow> 'd ValidatorNode" where
  "node_act (Machine x) v = (case run_op x (v_app v) of None \<Rightarrow> v | Some app \<Rightarrow> with_app app v)"
| "node_act (Surroundings e) v = with_app (with_env e (v_app v)) v"
| "node_act (Rest v') v = with_app (v_app v) v'"

fun merges :: "'d node_op \<Rightarrow> bool" where
  "merges (Machine x) = is_merge x"
| "merges _ = False"

section \<open>The contract\<close>

lemma interface_get:
  assumes "sm_ok (v_app v)"
  shows "vi_GetTicket (node_interface D V show_err validate) i v =
    (case mget (sm_currentState (v_app v)) i of
       None \<Rightarrow> Inl (sm_error_text '''' (TicketNotFound i)) | Some t \<Rightarrow> Inr (TicketData t))"
  by (simp add: node_interface_def api_GetTicket_def GetTicket_ok [OF assms] split: option.splits)

lemma interface_consume:
  "vi_ConsumeTicket (node_interface D V show_err validate) i v = (err, v') \<Longrightarrow>
     v_app v' = snd (ConsumeTicket (w_now (app_world (v_app v))) i (v_nodeID v) (v_app v)) \<and>
     (err = None \<longleftrightarrow> fst (ConsumeTicket (w_now (app_world (v_app v))) i (v_nodeID v) (v_app v)) = None)"
  by (auto simp: node_interface_def api_ConsumeTicket_def lift_state_def)

lemma with_app_fields [simp]: "v_app (with_app app v) = app"
  by (simp add: with_app_def)

lemma consume_used:
  assumes "vi_ConsumeTicket (node_interface D V show_err validate) i v = (err, v')"
  shows "(sm_ok (v_app v) \<longrightarrow> sm_ok (v_app v')) \<and> (used (v_app v) j \<longrightarrow> used (v_app v') j) \<and>
    (err = None \<longrightarrow> \<not> used (v_app v) i \<and> used (v_app v') i)"
proof -
  let ?now = "w_now (app_world (v_app v))" and ?x = "OConsume (w_now (app_world (v_app v))) i (v_nodeID v)"
  note eff = interface_consume [OF assms]
  have run: "run_op ?x (v_app v) = Some (v_app v')" using eff by simp
  have "\<not> used (v_app v) i \<and> used (v_app v') i" if "err = None"
  proof (cases rule: ConsumeTicket_cases [of "v_app v" i ?now "v_nodeID v"])
    case (moved t)
    then show ?thesis using eff by (auto simp: used_def state_of_def moved_def)
  next
    case refused
    then show ?thesis using eff that by auto
  qed
  then show ?thesis using run_op_ok [OF run] run_op_used [OF run, of j] by simp
qed

lemma node_act_used:
  assumes "sm_ok (v_app v)" and "\<not> merges x"
  shows "sm_ok (v_app (node_act x v)) \<and> (used (v_app v) j \<longrightarrow> used (v_app (node_act x v)) j)"
proof (cases x)
  case (Machine y)
  with assms show ?thesis
    by (cases "run_op y (v_app v)") (auto intro: run_op_ok run_op_used)
qed (use assms(1) in \<open>auto simp: with_env_def sm_ok_def used_def state_of_def\<close>)

interpretation node_service: ticket_service "node_interface D V show_err validate" "\<lambda>v. sm_ok (v_app v)"
    "\<lambda>i v. used (v_app v) i" node_act "\<lambda>x. \<not> merges x"
  for D V show_err validate
proof unfold_locales
  fix v i err v' j
  assume "sm_ok (v_app v)" and c: "vi_ConsumeTicket (node_interface D V show_err validate) i v = (err, v')"
  then show "sm_ok (v_app v') \<and> (used (v_app v) j \<longrightarrow> used (v_app v') j)"
    using consume_used [OF c] by blast
next
  fix v i v'
  assume "vi_ConsumeTicket (node_interface D V show_err validate) i v = (None, v')"
  then show "\<not> used (v_app v) i \<and> used (v_app v') i" using consume_used by blast
qed (rule node_act_used)

text \<open>
  C27: at most one consume request per ticket is answered with success by the API of a node,
  for every sequence of consume requests for any tickets, with anything in between that is not
  the merge of a received state: other operations of the state machine (issue, seed, validate,
  consume or dispute by consensus, state sync), and any change of the rest of the node. A
  request is answered with success only if the ticket was not consumed or disputed when the
  sequence began, and once one is, the API shows the ticket as consumed or disputed at the
  end. (A merged state update may take a consumed ticket back to \<open>VALIDATED\<close>, so merging is
  excluded.)
\<close>

theorem consume_answered_once:
  assumes "sm_ok (v_app (sv_validator s))"
    and "\<forall>x. Other x \<in> set xs \<longrightarrow> \<not> merges x"
    and "api_run (node_interface D V show_err validate) DC node_act xs s = (resps, s')"
  shows "successes_for DC i resps \<le> 1 \<and>
    (successes_for DC i resps = 1 \<longrightarrow> \<not> used (v_app (sv_validator s)) i \<and>
      (\<exists>t. handleGetTicket (node_interface D V show_err validate) i s' =
         sendSuccess ''Ticket retrieved successfully'' (Single (TicketData t)) \<and>
         (t_State t = StateConsumed \<or> t_State t = StateDisputed)))"
proof -
  note run = node_service.spent_refused [OF assms, of i]
  have "\<exists>t. handleGetTicket (node_interface D V show_err validate) i s' =
         sendSuccess ''Ticket retrieved successfully'' (Single (TicketData t)) \<and>
         (t_State t = StateConsumed \<or> t_State t = StateDisputed)"
    if "used (v_app (sv_validator s')) i"
    using that run by (auto simp: handleGetTicket_def interface_get used_def state_of_def)
  then show ?thesis using run by (auto split: if_splits)
qed

definition body_is_ID :: Decoders where
  "body_is_ID = \<lparr>dc_validate = (\<lambda>b. Some (b, '''')), dc_ticket = (\<lambda>b. Some b)\<rparr>"

definition no_view :: NodeView where
  "no_view = \<lparr>nv_peers = [], nv_cacheSize = 0, nv_storageStats = '''', nv_publicKey = None, nv_addrs = []\<rparr>"

definition mem_interface :: "(mem_db ValidatorNode, node_data) ValidatorInterface" where
  "mem_interface = node_interface mem_deps no_view (\<lambda>e. ''error'') (validate_and_wait mem_deps 0 [] (\<lambda>out v. (None, v)))"

definition bare_node :: "mem_db ValidatorNode" where
  "bare_node = with_app ((v_app validated_node)\<lparr>sm_handlers := []\<rparr>) validated_node"

definition consume_request_for :: "string \<Rightarrow> HttpRequest" where
  "consume_request_for i = plain_request\<lparr>rq_Body := i\<rparr>"

definition consume_twice :: "mem_db node_op api_step list" where
  "consume_twice =
     [Consume 1 (consume_request_for ''TICKET-001''), Other (Machine (OValidate 2 ''TICKET-001'' ''node1'' [])),
      Other (Machine (OIssue 3 ''OTHER'' [])), Consume 4 (consume_request_for ''TICKET-001'')]"

lemma bare_node_consumes:
  "\<exists>s1 resp. handleConsumeTicket mem_interface body_is_ID 1 (consume_request_for ''TICKET-001'')
     (NewServer '''' bare_node) = (Some resp, s1) \<and> rs_Status resp = 200"
proof -
  have t: "mget (sm_currentState (v_app bare_node)) ''TICKET-001'' \<noteq> None" "state_of (v_app bare_node) ''TICKET-001'' = Some StateValidated"
      "sm_handlers (v_app bare_node) = []"
    by (simp_all add: bare_node_def validated_node_def state_of_def)
  have "fst (ConsumeTicket now ''TICKET-001'' v (v_app bare_node)) = None" for now v
    using t by (auto simp: ConsumeTicket_def state_of_def Let_def)
  then have "\<exists>v'. vi_ConsumeTicket mem_interface ''TICKET-001'' bare_node = (None, v')"
    by (simp add: mem_interface_def node_interface_def api_ConsumeTicket_def lift_state_def apfst_def map_prod_def
        split: prod.splits)
  then show ?thesis
    by (auto simp: handleConsumeTicket_def body_is_ID_def consume_request_for_def maxRequestBodySize_def NewServer_def
        respond_after_def push_event_def sendSuccess_def broadcast_capacity_def)
qed

theorem consume_answered_once_witness:
  "\<exists>resps s'. api_run mem_interface body_is_ID node_act consume_twice (NewServer '''' bare_node) = (resps, s') \<and>
     successes_for body_is_ID ''TICKET-001'' resps = 1 \<and>
     (\<exists>t. handleGetTicket mem_interface ''TICKET-001'' s' =
        sendSuccess ''Ticket retrieved successfully'' (Single (TicketData t)) \<and>
        (t_State t = StateConsumed \<or> t_State t = StateDisputed))"
proof -
  let ?s = "NewServer '''' bare_node"
  have ok: "sm_ok (v_app (sv_validator ?s))"
    by (auto simp: NewServer_def bare_node_def validated_node_def sm_ok_def ticket_ok_def fmpred_iff)
  have quiet: "\<forall>x. Other x \<in> set consume_twice \<longrightarrow> \<not> merges x"
    by (auto simp: consume_twice_def)
  obtain resps s' where run: "api_run mem_interface body_is_ID node_act consume_twice ?s = (resps, s')" by fastforce
  obtain s1 resp where h: "handleConsumeTicket mem_interface body_is_ID 1 (consume_request_for ''TICKET-001'') ?s = (Some resp, s1)"
    and "rs_Status resp = 200" using bare_node_consumes by blast
  then have a: "answered_ok body_is_ID ''TICKET-001'' (consume_request_for ''TICKET-001'') (Some resp)"
    by (simp add: answered_ok_def body_is_ID_def consume_request_for_def maxRequestBodySize_def)
  obtain rest where "resps = (consume_request_for ''TICKET-001'', Some resp) # rest"
    using run h unfolding consume_twice_def by (auto split: prod.splits)
  with a have one: "1 \<le> successes_for body_is_ID ''TICKET-001'' resps" by simp
  from consume_answered_once [OF ok quiet run [unfolded mem_interface_def], of "''TICKET-001''"] one
  show ?thesis unfolding mem_interface_def [symmetric] using run
    by (intro exI [of _ resps] exI [of _ s'] conjI) auto
qed

end
