(* ===== verification/Node_Manager.thy ===== *)
theory Node_Manager
  imports Go_Strings Go_Text
begin

text \<open>
  \<open>pkg/supervisor/manager.go\<close>: the manager of the validator processes.

  The map \<open>nodes\<close> holds pointers, and the goroutine of a process keeps its own pointer to its
  node after the map forgot it, so nodes live in a heap \<open>nm_heap\<close> and the map holds their
  addresses. The goroutine \<open>startNodeProcess\<close> is split where it waits for the operating
  system: \<open>process_begin\<close>, \<open>process_launch\<close> with the outcome of starting the command and
  \<open>process_exit\<close> with the outcome of \<open>cmd.Wait\<close>. \<open>mn_phase\<close> is its program counter,
  \<open>mn_bootstrapAddr\<close> and \<open>mn_args\<close> its variables; \<open>mn_ctx\<close> is the context made for the process:
  \<open>None\<close> before it exists (a nil \<open>cancelFunc\<close>), and otherwise whether it was cancelled.
  Calls of the callbacks are recorded in \<open>nm_calls\<close>. \<open>StopNode\<close>, \<open>StartCluster\<close> and
  \<open>startClusterAsync\<close> release their locks on the way; their pieces are definitions of their own,
  so that other operations may come in between.
\<close>

section \<open>Model\<close>

type_synonym NodeStatus = string

definition NodeStatusStopped :: NodeStatus where "NodeStatusStopped = ''stopped''"
definition NodeStatusStarting :: NodeStatus where "NodeStatusStarting = ''starting''"
definition NodeStatusRunning :: NodeStatus where "NodeStatusRunning = ''running''"
definition NodeStatusStopping :: NodeStatus where "NodeStatusStopping = ''stopping''"
definition NodeStatusError :: NodeStatus where "NodeStatusError = ''error''"

lemmas node_status_defs = NodeStatusStopped_def NodeStatusStarting_def NodeStatusRunning_def
  NodeStatusStopping_def NodeStatusError_def

type_synonym ClusterStatus = string

definition ClusterStatusIdle :: ClusterStatus where "ClusterStatusIdle = ''idle''"
definition ClusterStatusStarting :: ClusterStatus where "ClusterStatusStarting = ''starting''"
definition ClusterStatusRunning :: ClusterStatus where "ClusterStatusRunning = ''running''"

subsection \<open>Output buffers\<close>

record OutputBuffer =
  ob_lines :: "string list"
  ob_maxLines :: nat

definition NewOutputBuffer :: "nat \<Rightarrow> OutputBuffer" where
  "NewOutputBuffer maxLines = \<lparr>ob_lines = [], ob_maxLines = maxLines\<rparr>"

definition buffer_Write :: "string \<Rightarrow> OutputBuffer \<Rightarrow> OutputBuffer" where
  "buffer_Write line b =
     (let lines = ob_lines b @ [line]
      in b\<lparr>ob_lines := (if ob_maxLines b < length lines
                        then drop (length lines - ob_maxLines b) lines else lines)\<rparr>)"

definition GetLines :: "OutputBuffer \<Rightarrow> string list" where
  "GetLines b = ob_lines b"

definition buffer_Clear :: "OutputBuffer \<Rightarrow> OutputBuffer" where
  "buffer_Clear b = b\<lparr>ob_lines := []\<rparr>"

subsection \<open>Nodes and the manager\<close>

datatype phase = Spawned | Launching | Waiting | Finished

record ManagedNode =
  mn_ID :: string
  mn_Port :: int
  mn_APIPort :: int
  mn_Status :: NodeStatus
  mn_PeerID :: string
  mn_IsPrimary :: bool
  mn_IsBootstrap :: bool
  mn_StartedAt :: int
  mn_Error :: string
  mn_outputBuf :: OutputBuffer
  mn_ctx :: "bool option"
  mn_phase :: phase
  mn_bootstrapAddr :: string
  mn_args :: "string list"

datatype callback =
    StatusCall string NodeStatus
  | ClusterCall ClusterStatus int int
  | OutputCall string string

record NodeManager =
  nm_nodes :: "(string, nat) gomap"
  nm_heap :: "(nat, ManagedNode) gomap"
  nm_next :: nat
  nm_dataDir :: string
  nm_basePort :: int
  nm_baseAPIPort :: int
  nm_totalNodes :: int
  nm_clusterStatus :: ClusterStatus
  nm_clusterLocked :: bool
  nm_statusCallback :: bool
  nm_clusterCallback :: bool
  nm_outputCallback :: bool
  nm_calls :: "callback list"

record NodeManagerConfig =
  nc_DataDir :: string
  nc_BasePort :: int
  nc_BaseAPIPort :: int
  nc_StatusCallback :: bool
  nc_ClusterCallback :: bool
  nc_OutputCallback :: bool

datatype nm_error =
    AlreadyRunning string NodeStatus
  | NodeNotFound string
  | NodeNotRunning string NodeStatus
  | CannotRemoveRunning string
  | NodeCountTooSmall
  | ClusterBusy

definition NewNodeManager :: "NodeManagerConfig \<Rightarrow> NodeManager" where
  "NewNodeManager cfg =
     (let basePort = (if nc_BasePort cfg = 0 then 4001 else nc_BasePort cfg);
          baseAPIPort = (if nc_BaseAPIPort cfg = 0 then 9001 else nc_BaseAPIPort cfg);
          dataDir = (if nc_DataDir cfg = '''' then ''./data'' else nc_DataDir cfg)
      in \<lparr>nm_nodes = fmempty, nm_heap = fmempty, nm_next = 0, nm_dataDir = dataDir,
          nm_basePort = basePort, nm_baseAPIPort = baseAPIPort, nm_totalNodes = 0,
          nm_clusterStatus = ClusterStatusIdle, nm_clusterLocked = False,
          nm_statusCallback = nc_StatusCallback cfg, nm_clusterCallback = nc_ClusterCallback cfg,
          nm_outputCallback = nc_OutputCallback cfg, nm_calls = []\<rparr>)"

definition node_of :: "string \<Rightarrow> NodeManager \<Rightarrow> ManagedNode option" where
  "node_of nodeID m = (case mget (nm_nodes m) nodeID of None \<Rightarrow> None | Some a \<Rightarrow> mget (nm_heap m) a)"

definition change :: "nat \<Rightarrow> (ManagedNode \<Rightarrow> ManagedNode) \<Rightarrow> NodeManager \<Rightarrow> NodeManager" where
  "change a f m =
     (case mget (nm_heap m) a of None \<Rightarrow> m | Some n \<Rightarrow> m\<lparr>nm_heap := fmupd a (f n) (nm_heap m)\<rparr>)"

definition nm_notifyStatus :: "string \<Rightarrow> NodeStatus \<Rightarrow> NodeManager \<Rightarrow> NodeManager" where
  "nm_notifyStatus nodeID status m =
     (if nm_statusCallback m then m\<lparr>nm_calls := nm_calls m @ [StatusCall nodeID status]\<rparr> else m)"

definition notifyCluster :: "ClusterStatus \<Rightarrow> int \<Rightarrow> int \<Rightarrow> NodeManager \<Rightarrow> NodeManager" where
  "notifyCluster status nodesStarted nodesTotal m =
     (if nm_clusterCallback m
      then m\<lparr>nm_calls := nm_calls m @ [ClusterCall status nodesStarted nodesTotal]\<rparr> else m)"

subsection \<open>Starting a node\<close>

text \<open>The entry for the node after stale ones were removed.\<close>

definition startNodeWithTotal ::
  "string \<Rightarrow> bool \<Rightarrow> bool \<Rightarrow> string \<Rightarrow> int \<Rightarrow> NodeManager \<Rightarrow> nm_error option \<times> NodeManager" where
  "startNodeWithTotal nodeID isPrimary isBootstrap bootstrapAddr targetTotal m =
     (let status = map_option mn_Status (node_of nodeID m)
      in if status = Some NodeStatusRunning \<or> status = Some NodeStatusStarting
         then (Some (AlreadyRunning nodeID (the status)), m)
         else
           let nodes = (if status = Some NodeStatusStopped \<or> status = Some NodeStatusError
                        then fmdrop nodeID (nm_nodes m) else nm_nodes m);
               m1 = m\<lparr>nm_nodes := nodes\<rparr>;
               nodeIndex = (case node_of nodeID m1 of
                              None \<Rightarrow> golen nodes | Some existing \<Rightarrow> mn_Port existing - nm_basePort m);
               node = \<lparr>mn_ID = nodeID, mn_Port = nm_basePort m + nodeIndex,
                       mn_APIPort = nm_baseAPIPort m + nodeIndex, mn_Status = NodeStatusStarting,
                       mn_PeerID = '''', mn_IsPrimary = isPrimary, mn_IsBootstrap = isBootstrap,
                       mn_StartedAt = 0, mn_Error = '''', mn_outputBuf = NewOutputBuffer 1000,
                       mn_ctx = None, mn_phase = Spawned, mn_bootstrapAddr = bootstrapAddr, mn_args = []\<rparr>;
               m2 = m1\<lparr>nm_nodes := fmupd nodeID (nm_next m1) nodes,
                       nm_heap := fmupd (nm_next m1) node (nm_heap m1), nm_next := nm_next m1 + 1\<rparr>
           in (None, m2\<lparr>nm_totalNodes := (if 0 < targetTotal then targetTotal else golen (nm_nodes m2))\<rparr>))"

definition StartNode :: "string \<Rightarrow> bool \<Rightarrow> bool \<Rightarrow> string \<Rightarrow> NodeManager \<Rightarrow> nm_error option \<times> NodeManager" where
  "StartNode nodeID isPrimary isBootstrap bootstrapAddr m =
     startNodeWithTotal nodeID isPrimary isBootstrap bootstrapAddr 0 m"

subsection \<open>The goroutine of a process\<close>

definition process_begin :: "nat \<Rightarrow> NodeManager \<Rightarrow> NodeManager" where
  "process_begin a m = change a (\<lambda>n. n\<lparr>mn_ctx := Some False, mn_phase := Launching\<rparr>) m"

definition command_args :: "ManagedNode \<Rightarrow> NodeManager \<Rightarrow> string list" where
  "command_args n m =
     [''-id'', mn_ID n, ''-port'', FormatInt (mn_Port n), ''-api-port'', FormatInt (mn_APIPort n),
      ''-data-dir'', path_Join [nm_dataDir m, mn_ID n], ''-total-nodes'', FormatInt (nm_totalNodes m)] @
     (if mn_IsPrimary n then [''-primary''] else []) @
     (if mn_IsBootstrap n then [''-bootstrap-node''] else []) @
     (if mn_bootstrapAddr n \<noteq> '''' then [''-bootstrap'', mn_bootstrapAddr n] else [])"

definition setNodeError :: "nat \<Rightarrow> string \<Rightarrow> NodeManager \<Rightarrow> NodeManager" where
  "setNodeError a errMsg m =
     (case mget (nm_heap m) a of
        None \<Rightarrow> m
      | Some n \<Rightarrow>
          nm_notifyStatus (mn_ID n) NodeStatusError
            (change a (\<lambda>n. n\<lparr>mn_Status := NodeStatusError, mn_Error := errMsg, mn_phase := Finished\<rparr>) m))"

datatype launch_outcome =
    StdoutPipeFailed string
  | StderrPipeFailed string
  | StartFailed string
  | Launched int

definition process_launch :: "launch_outcome \<Rightarrow> nat \<Rightarrow> NodeManager \<Rightarrow> NodeManager" where
  "process_launch out a m =
     (case mget (nm_heap m) a of
        None \<Rightarrow> m
      | Some n \<Rightarrow>
          let args = command_args n m
          in case out of
               StdoutPipeFailed err \<Rightarrow> setNodeError a (''failed to create stdout pipe: '' @ err) m
             | StderrPipeFailed err \<Rightarrow> setNodeError a (''failed to create stderr pipe: '' @ err) m
             | StartFailed err \<Rightarrow> setNodeError a (''failed to start process: '' @ err) m
             | Launched now \<Rightarrow>
                 nm_notifyStatus (mn_ID n) NodeStatusRunning
                   (change a (\<lambda>n. n\<lparr>mn_Status := NodeStatusRunning, mn_StartedAt := now,
                                  mn_phase := Waiting, mn_args := args\<rparr>) m))"

definition process_exit :: "string option \<Rightarrow> nat \<Rightarrow> NodeManager \<Rightarrow> NodeManager" where
  "process_exit err a m =
     (case mget (nm_heap m) a of
        None \<Rightarrow> m
      | Some n \<Rightarrow>
          let n' = (if mn_ctx n = Some True then n\<lparr>mn_Status := NodeStatusStopped\<rparr>
                    else case err of
                      Some e \<Rightarrow> n\<lparr>mn_Status := NodeStatusError, mn_Error := ''process exited with error: '' @ e\<rparr>
                    | None \<Rightarrow> n\<lparr>mn_Status := NodeStatusStopped\<rparr>)
          in nm_notifyStatus (mn_ID n) (mn_Status n') (change a (\<lambda>_. n'\<lparr>mn_phase := Finished\<rparr>) m))"

text \<open>One line of \<open>streamOutput\<close>.\<close>

definition stream_line :: "string \<Rightarrow> string \<Rightarrow> nat \<Rightarrow> NodeManager \<Rightarrow> NodeManager" where
  "stream_line source line a m =
     (case mget (nm_heap m) a of
        None \<Rightarrow> m
      | Some n \<Rightarrow>
          let m' = change a (\<lambda>n. n\<lparr>mn_outputBuf := buffer_Write (''['' @ source @ ''] '' @ line) (mn_outputBuf n)\<rparr>) m
          in if nm_outputCallback m' then m'\<lparr>nm_calls := nm_calls m' @ [OutputCall (mn_ID n) line]\<rparr> else m')"

subsection \<open>Stopping and inspecting\<close>

text \<open>
  \<open>StopNode\<close> marks the node and fetches its \<open>cancelFunc\<close> under the lock, then calls the
  status callback and the fetched function without it, so anything may happen in between:
  \<open>stop_begin\<close> returns the address of the marked node, and \<open>stop_cancel\<close> cancels its context.
  \<open>StopNode\<close> is the call that is not interrupted.
\<close>

definition stop_begin :: "string \<Rightarrow> NodeManager \<Rightarrow> (nm_error + nat) \<times> NodeManager" where
  "stop_begin nodeID m =
     (case mget (nm_nodes m) nodeID of
        None \<Rightarrow> (Inl (NodeNotFound nodeID), m)
      | Some a \<Rightarrow>
          (case mget (nm_heap m) a of
             None \<Rightarrow> (Inl (NodeNotFound nodeID), m)
           | Some n \<Rightarrow>
               if mn_Status n \<noteq> NodeStatusRunning then (Inl (NodeNotRunning nodeID (mn_Status n)), m)
               else (Inr a, nm_notifyStatus nodeID NodeStatusStopping
                              (change a (\<lambda>n. n\<lparr>mn_Status := NodeStatusStopping\<rparr>) m))))"

definition stop_cancel :: "nat \<Rightarrow> NodeManager \<Rightarrow> NodeManager" where
  "stop_cancel a m = change a (\<lambda>n. n\<lparr>mn_ctx := map_option (\<lambda>_. True) (mn_ctx n)\<rparr>) m"

definition StopNode :: "string \<Rightarrow> NodeManager \<Rightarrow> nm_error option \<times> NodeManager" where
  "StopNode nodeID m =
     (case stop_begin nodeID m of
        (Inl err, m1) \<Rightarrow> (Some err, m1)
      | (Inr a, m1) \<Rightarrow> (None, stop_cancel a m1))"

fun stop_each :: "string list \<Rightarrow> NodeManager \<Rightarrow> NodeManager" where
  "stop_each [] m = m"
| "stop_each (i # is) m = stop_each is (snd (StopNode i m))"

definition StopAllNodes :: "NodeManager \<Rightarrow> NodeManager" where
  "StopAllNodes m = stop_each (keys (nm_nodes m)) m"

text \<open>The copy that the readers hand out has no output buffer and no goroutine.\<close>

definition copy_node :: "ManagedNode \<Rightarrow> ManagedNode" where
  "copy_node n =
     \<lparr>mn_ID = mn_ID n, mn_Port = mn_Port n, mn_APIPort = mn_APIPort n, mn_Status = mn_Status n,
      mn_PeerID = mn_PeerID n, mn_IsPrimary = mn_IsPrimary n, mn_IsBootstrap = mn_IsBootstrap n,
      mn_StartedAt = mn_StartedAt n, mn_Error = mn_Error n, mn_outputBuf = NewOutputBuffer 0,
      mn_ctx = None, mn_phase = Finished, mn_bootstrapAddr = '''', mn_args = []\<rparr>"

definition GetNode :: "string \<Rightarrow> NodeManager \<Rightarrow> nm_error + ManagedNode" where
  "GetNode nodeID m =
     (case node_of nodeID m of None \<Rightarrow> Inl (NodeNotFound nodeID) | Some n \<Rightarrow> Inr (copy_node n))"

definition GetAllNodes :: "NodeManager \<Rightarrow> ManagedNode list" where
  "GetAllNodes m = map copy_node (List.map_filter (\<lambda>i. node_of i m) (keys (nm_nodes m)))"

definition UpdatePrimaryStatus :: "string \<Rightarrow> bool \<Rightarrow> NodeManager \<Rightarrow> bool \<times> NodeManager" where
  "UpdatePrimaryStatus nodeID isPrimary m =
     (case mget (nm_nodes m) nodeID of
        None \<Rightarrow> (False, m)
      | Some a \<Rightarrow>
          (case mget (nm_heap m) a of
             None \<Rightarrow> (False, m)
           | Some n \<Rightarrow>
               if mn_IsPrimary n = isPrimary then (False, m)
               else (True, change a (\<lambda>n. n\<lparr>mn_IsPrimary := isPrimary\<rparr>) m)))"

definition GetNodeLogs :: "string \<Rightarrow> NodeManager \<Rightarrow> nm_error + string list" where
  "GetNodeLogs nodeID m =
     (case node_of nodeID m of
        None \<Rightarrow> Inl (NodeNotFound nodeID) | Some n \<Rightarrow> Inr (GetLines (mn_outputBuf n)))"

definition RemoveNode :: "string \<Rightarrow> NodeManager \<Rightarrow> nm_error option \<times> NodeManager" where
  "RemoveNode nodeID m =
     (case node_of nodeID m of
        None \<Rightarrow> (Some (NodeNotFound nodeID), m)
      | Some n \<Rightarrow>
          if mn_Status n = NodeStatusRunning \<or> mn_Status n = NodeStatusStarting
          then (Some (CannotRemoveRunning nodeID), m)
          else let nodes = fmdrop nodeID (nm_nodes m)
               in (None, m\<lparr>nm_nodes := nodes, nm_totalNodes := golen nodes\<rparr>))"

definition SetTotalNodes :: "int \<Rightarrow> NodeManager \<Rightarrow> NodeManager" where
  "SetTotalNodes count m = m\<lparr>nm_totalNodes := count\<rparr>"

definition GetClusterStatus :: "NodeManager \<Rightarrow> ClusterStatus" where
  "GetClusterStatus m = nm_clusterStatus m"

subsection \<open>Clusters\<close>

text \<open>
  \<open>StartCluster\<close> up to the wait for the processes to exit, and after it. The wait ends when
  \<open>all_stopped\<close> holds or after three seconds.
\<close>

definition cluster_lock :: "int \<Rightarrow> NodeManager \<Rightarrow> nm_error option \<times> NodeManager" where
  "cluster_lock nodeCount m =
     (if nodeCount < 1 then (Some NodeCountTooSmall, m)
      else if nm_clusterLocked m then (Some ClusterBusy, m)
      else (None, m\<lparr>nm_clusterLocked := True\<rparr>))"

definition cluster_begin :: "int \<Rightarrow> NodeManager \<Rightarrow> nm_error option \<times> NodeManager" where
  "cluster_begin nodeCount m =
     (case cluster_lock nodeCount m of
        (Some err, m1) \<Rightarrow> (Some err, m1)
      | (None, m1) \<Rightarrow> (None, StopAllNodes m1))"

definition all_stopped :: "NodeManager \<Rightarrow> bool" where
  "all_stopped m \<longleftrightarrow> list_all (\<lambda>n. mn_Status n \<notin> {NodeStatusRunning, NodeStatusStarting, NodeStatusStopping})
     (List.map_filter (\<lambda>i. node_of i m) (keys (nm_nodes m)))"

definition cluster_reset :: "int \<Rightarrow> NodeManager \<Rightarrow> NodeManager" where
  "cluster_reset nodeCount m =
     notifyCluster ClusterStatusStarting 0 nodeCount
       (m\<lparr>nm_nodes := fmempty, nm_totalNodes := nodeCount, nm_clusterStatus := ClusterStatusStarting\<rparr>)"

fun start_each :: "string list \<Rightarrow> string \<Rightarrow> int \<Rightarrow> NodeManager \<Rightarrow> NodeManager" where
  "start_each [] bootstrapAddr nodeCount m = m"
| "start_each (i # is) bootstrapAddr nodeCount m =
     start_each is bootstrapAddr nodeCount (snd (startNodeWithTotal i False False bootstrapAddr nodeCount m))"

definition batch_names :: "int \<Rightarrow> int \<Rightarrow> string list" where
  "batch_names batchStart batchEnd = map (\<lambda>i. ''node'' @ FormatInt i) [batchStart..batchEnd - 1]"

text \<open>
  The starts of a batch run concurrently; \<open>order\<close> says in which order they take the lock,
  given the names of the batch.
\<close>

function cluster_batches ::
  "(string list \<Rightarrow> string list) \<Rightarrow> string \<Rightarrow> int \<Rightarrow> int \<Rightarrow> NodeManager \<Rightarrow> NodeManager" where
  "cluster_batches order bootstrapAddr nodeCount batchStart m =
     (if batchStart < nodeCount
      then let batchEnd = min (batchStart + 10) nodeCount;
               m1 = start_each (order (batch_names batchStart batchEnd)) bootstrapAddr nodeCount m
           in cluster_batches order bootstrapAddr nodeCount (batchStart + 10)
                (notifyCluster ClusterStatusStarting batchEnd nodeCount m1)
      else m)"
  by pat_completeness auto
termination by (relation "measure (\<lambda>(order, addr, n, i, m). nat (n - i))") auto

declare cluster_batches.simps [simp del]

text \<open>
  \<open>peerID\<close> is the outcome of deriving the bootstrap node's peer ID from its deterministic key.
  \<open>nodesStarted\<close> after a batch is 1 plus the sizes of the batches so far, which is \<open>batchEnd\<close>.
\<close>

definition bootstrap_address :: "int \<Rightarrow> string \<Rightarrow> string" where
  "bootstrap_address port peerID = ''/ip4/127.0.0.1/tcp/'' @ FormatInt port @ ''/p2p/'' @ peerID"

text \<open>
  The goroutine \<open>startClusterAsync\<close> waits up to 5 s for the bootstrap node and sleeps between
  the batches, holding only \<open>clusterMu\<close>: its pieces are the starts of the nodes, the look-up of
  the bootstrap address after the wait, the notifications after a batch, and the two ends.
  \<open>startClusterAsync\<close> runs them without anything in between.
\<close>

definition async_address :: "string + string \<Rightarrow> NodeManager \<Rightarrow> string option" where
  "async_address peerID m =
     (case node_of ''node0'' m of
        None \<Rightarrow> None
      | Some bootstrapNode \<Rightarrow>
          (case peerID of Inl err \<Rightarrow> None | Inr p \<Rightarrow> Some (bootstrap_address (mn_Port bootstrapNode) p)))"

definition async_fail :: "int \<Rightarrow> NodeManager \<Rightarrow> NodeManager" where
  "async_fail nodeCount m = (notifyCluster ClusterStatusIdle 0 nodeCount m)\<lparr>nm_clusterLocked := False\<rparr>"

definition async_finish :: "int \<Rightarrow> NodeManager \<Rightarrow> NodeManager" where
  "async_finish nodeCount m =
     (notifyCluster ClusterStatusRunning nodeCount nodeCount (m\<lparr>nm_clusterStatus := ClusterStatusRunning\<rparr>))
       \<lparr>nm_clusterLocked := False\<rparr>"

definition startClusterAsync ::
  "(string list \<Rightarrow> string list) \<Rightarrow> string + string \<Rightarrow> int \<Rightarrow> NodeManager \<Rightarrow> NodeManager" where
  "startClusterAsync order peerID nodeCount m =
     (case startNodeWithTotal ''node0'' True True '''' nodeCount m of
        (Some err, m1) \<Rightarrow> async_fail nodeCount m1
      | (None, m1) \<Rightarrow>
          (case async_address peerID m1 of
             None \<Rightarrow> async_fail nodeCount m1
           | Some bootstrapAddr \<Rightarrow>
               async_finish nodeCount (cluster_batches order bootstrapAddr nodeCount 1 m1)))"

end
