(* ===== verification/Node_Manager_Properties.thy ===== *)
theory Node_Manager_Properties
  imports Node_Manager
begin

text \<open>
  What the node manager guarantees: the output buffer keeps the last lines, the status of a
  node follows the life of its process, and how ports, totals and roles are handed out.
\<close>

section \<open>Output buffers\<close>

lemma buffer_Write_lines:
  "ob_lines (buffer_Write line b) = (let ls = ob_lines b @ [line] in drop (length ls - ob_maxLines b) ls)"
  and buffer_Write_max [simp]: "ob_maxLines (buffer_Write line b) = ob_maxLines b"
  by (auto simp: buffer_Write_def Let_def)

text \<open>The buffer holds the last \<open>maxLines\<close> lines written, in the order they were written.\<close>

lemma buffer_keeps_last:
  "GetLines (fold buffer_Write ls (NewOutputBuffer k)) = drop (length ls - k) ls"
proof -
  have max: "ob_maxLines (fold buffer_Write ls b) = ob_maxLines b" for ls b
    by (induction ls arbitrary: b) simp_all
  have "ob_lines (fold buffer_Write ls (NewOutputBuffer k)) = drop (length ls - k) ls"
  proof (induction ls rule: rev_induct)
    case (snoc l ls)
    have "Suc (length ls) - (length ls - k + k) + (length ls - k) = Suc (length ls) - k" by arith
    then show ?case
      using snoc max [of ls "NewOutputBuffer k"]
      by (simp add: buffer_Write_lines Let_def NewOutputBuffer_def)
  qed (simp add: NewOutputBuffer_def)
  then show ?thesis by (simp add: GetLines_def)
qed

section \<open>Frames\<close>

lemma change_heap: "mget (nm_heap (change a f m)) b =
    (if a = b then map_option f (mget (nm_heap m) b) else mget (nm_heap m) b)"
  by (auto simp: change_def split: option.splits)

lemma change_fields [simp]:
  "nm_nodes (change a f m) = nm_nodes m" "nm_next (change a f m) = nm_next m"
  "nm_basePort (change a f m) = nm_basePort m" "nm_totalNodes (change a f m) = nm_totalNodes m"
  "nm_dataDir (change a f m) = nm_dataDir m" "nm_baseAPIPort (change a f m) = nm_baseAPIPort m"
  by (simp_all add: change_def split: option.splits)

lemma nm_notify_fields [simp]:
  "nm_nodes (nm_notifyStatus i s m) = nm_nodes m" "nm_heap (nm_notifyStatus i s m) = nm_heap m"
  "nm_next (nm_notifyStatus i s m) = nm_next m" "nm_basePort (nm_notifyStatus i s m) = nm_basePort m"
  "nm_totalNodes (nm_notifyStatus i s m) = nm_totalNodes m"
  "nm_baseAPIPort (nm_notifyStatus i s m) = nm_baseAPIPort m"
  "nm_dataDir (nm_notifyStatus i s m) = nm_dataDir m"
  by (simp_all add: nm_notifyStatus_def)

lemma notifyCluster_fields [simp]:
  "nm_nodes (notifyCluster s i t m) = nm_nodes m" "nm_heap (notifyCluster s i t m) = nm_heap m"
  "nm_next (notifyCluster s i t m) = nm_next m" "nm_basePort (notifyCluster s i t m) = nm_basePort m"
  "nm_totalNodes (notifyCluster s i t m) = nm_totalNodes m"
  "nm_baseAPIPort (notifyCluster s i t m) = nm_baseAPIPort m"
  "nm_clusterStatus (notifyCluster s i t m) = nm_clusterStatus m"
  by (simp_all add: notifyCluster_def)

section \<open>The life of a node\<close>

text \<open>How status, context and the goroutine of a node belong together.\<close>

fun node_inv :: "phase \<Rightarrow> NodeStatus \<Rightarrow> bool option \<Rightarrow> bool" where
  "node_inv Spawned s c \<longleftrightarrow> s = NodeStatusStarting \<and> c = None"
| "node_inv Launching s c \<longleftrightarrow> s = NodeStatusStarting \<and> c = Some False"
| "node_inv Waiting s c \<longleftrightarrow> s = NodeStatusRunning \<and> c = Some False \<or> s = NodeStatusStopping \<and> c \<noteq> None"
| "node_inv Finished s c \<longleftrightarrow> s = NodeStatusStopped \<or> s = NodeStatusError"

definition nm_inv :: "NodeManager \<Rightarrow> bool" where
  "nm_inv m \<longleftrightarrow>
     (\<forall>a n. mget (nm_heap m) a = Some n \<longrightarrow> a < nm_next m \<and> node_inv (mn_phase n) (mn_Status n) (mn_ctx n)) \<and>
     (\<forall>i a. mget (nm_nodes m) i = Some a \<longrightarrow> (\<exists>n. mget (nm_heap m) a = Some n \<and> mn_ID n = i))"

text \<open>The statuses a node may move between.\<close>

inductive moves :: "NodeStatus \<Rightarrow> NodeStatus \<Rightarrow> bool" where
  stay: "moves s s"
| launched: "moves NodeStatusStarting NodeStatusRunning"
| failed: "moves NodeStatusStarting NodeStatusError"
| crashed: "moves NodeStatusRunning NodeStatusError"
| exited: "moves NodeStatusRunning NodeStatusStopped"
| stopping: "moves NodeStatusRunning NodeStatusStopping"
| stopped: "moves NodeStatusStopping NodeStatusStopped"
| interrupted: "moves NodeStatusStopping NodeStatusError"

inductive_simps moves_iff: "moves s t"

text \<open>The manager keeps its invariant and every node object moves along a relation of statuses.\<close>

definition nm_evolves :: "(NodeStatus \<Rightarrow> NodeStatus \<Rightarrow> bool) \<Rightarrow> NodeManager \<Rightarrow> NodeManager \<Rightarrow> bool" where
  "nm_evolves R m m' \<longleftrightarrow> nm_inv m' \<and>
     (\<forall>a n. mget (nm_heap m) a = Some n \<longrightarrow>
        (\<exists>n'. mget (nm_heap m') a = Some n' \<and> R (mn_Status n) (mn_Status n') \<and>
          mn_ID n' = mn_ID n \<and> mn_Port n' = mn_Port n \<and> mn_APIPort n' = mn_APIPort n))"

text \<open>
  The steps of the manager: requests and turns of the goroutines. The calls that hold no lock
  throughout appear whole and in their pieces, so that every interleaving is a run:
  \<open>StopNode\<close> (and with it \<open>StopAllNodes\<close>), \<open>StartCluster\<close> and \<open>startClusterAsync\<close>. A pending
  \<open>stop_cancel\<close> belongs to a node that its \<open>StopNode\<close> marked as stopping, and such a node never
  runs again.
\<close>

inductive nm_step :: "NodeManager \<Rightarrow> NodeManager \<Rightarrow> bool" where
  start: "nm_step m (snd (StartNode i p b addr m))"
| begun: "mget (nm_heap m) a = Some n \<Longrightarrow> mn_phase n = Spawned \<Longrightarrow> nm_step m (process_begin a m)"
| launch: "mget (nm_heap m) a = Some n \<Longrightarrow> mn_phase n = Launching \<Longrightarrow> nm_step m (process_launch out a m)"
| exit: "mget (nm_heap m) a = Some n \<Longrightarrow> mn_phase n = Waiting \<Longrightarrow> nm_step m (process_exit err a m)"
| line: "nm_step m (stream_line source text a m)"
| stop: "nm_step m (snd (StopNode i m))"
| stop_begin: "nm_step m (snd (stop_begin i m))"
| stop_cancel: "mget (nm_heap m) a = Some n \<Longrightarrow>
    mn_Status n \<in> {NodeStatusStopping, NodeStatusStopped, NodeStatusError} \<Longrightarrow> nm_step m (stop_cancel a m)"
| stop_all: "nm_step m (StopAllNodes m)"
| remove: "nm_step m (snd (RemoveNode i m))"
| primary: "nm_step m (snd (UpdatePrimaryStatus i p m))"
| total: "nm_step m (SetTotalNodes k m)"
| cluster: "nm_step m (snd (cluster_begin k m))"
| reset: "nm_step m (cluster_reset k m)"
| lock: "nm_step m (snd (cluster_lock k m))"
| async: "nm_step m (startClusterAsync order peer k m)"
| async_start: "nm_step m (snd (startNodeWithTotal i p b addr k m))"
| async_note: "nm_step m (notifyCluster c j k m)"
| async_fail: "nm_step m (async_fail k m)"
| async_finish: "nm_step m (async_finish k m)"

lemma nm_invD: "nm_inv m \<Longrightarrow> mget (nm_heap m) a = Some n \<Longrightarrow>
    a < nm_next m \<and> node_inv (mn_phase n) (mn_Status n) (mn_ctx n)"
  by (simp add: nm_inv_def)

lemma nm_inv_node:
  assumes "nm_inv m" and "mget (nm_nodes m) i = Some a"
  obtains n where "mget (nm_heap m) a = Some n" and "mn_ID n = i"
  using assms unfolding nm_inv_def by blast

lemma nm_evolvesE:
  assumes "nm_evolves R m m'" and "mget (nm_heap m) a = Some n"
  obtains n' where "mget (nm_heap m') a = Some n'" and "R (mn_Status n) (mn_Status n')"
    and "mn_ID n' = mn_ID n" and "mn_Port n' = mn_Port n" and "mn_APIPort n' = mn_APIPort n"
  using assms unfolding nm_evolves_def by blast

lemma nm_evolvesI:
  assumes "nm_inv m"
    and "\<And>a n. mget (nm_heap m) a = Some n \<Longrightarrow> \<exists>n'. mget (nm_heap m') a = Some n' \<and>
      R (mn_Status n) (mn_Status n') \<and> mn_ID n' = mn_ID n \<and> mn_Port n' = mn_Port n \<and>
      mn_APIPort n' = mn_APIPort n \<and> node_inv (mn_phase n') (mn_Status n') (mn_ctx n')"
    and "\<And>a. mget (nm_heap m) a = None \<Longrightarrow> mget (nm_heap m') a = None"
    and "nm_next m' = nm_next m" and "\<And>i a. mget (nm_nodes m') i = Some a \<Longrightarrow> mget (nm_nodes m) i = Some a"
  shows "nm_evolves R m m'"
proof -
  have "a < nm_next m' \<and> node_inv (mn_phase n) (mn_Status n) (mn_ctx n)" if "mget (nm_heap m') a = Some n" for a n
    using that assms(1-4) by (cases "mget (nm_heap m) a") (fastforce simp: nm_inv_def)+
  moreover have "\<exists>n. mget (nm_heap m') a = Some n \<and> mn_ID n = i" if "mget (nm_nodes m') i = Some a" for i a
  proof -
    have "mget (nm_nodes m) i = Some a" using that by (rule assms(5))
    with assms(1) obtain n where "mget (nm_heap m) a = Some n" and "mn_ID n = i" by (rule nm_inv_node)
    with assms(2) show ?thesis by blast
  qed
  ultimately show ?thesis unfolding nm_evolves_def nm_inv_def using assms(2) by blast
qed

lemma nm_evolves_refl: "nm_inv m \<Longrightarrow> (\<And>s. R s s) \<Longrightarrow> nm_evolves R m m"
  by (auto simp: nm_evolves_def)

lemma nm_evolves_trans:
  assumes "nm_evolves R m m'" and "nm_evolves R m' m''" and "transp R"
  shows "nm_evolves R m m''"
proof -
  have "\<exists>n''. mget (nm_heap m'') a = Some n'' \<and> R (mn_Status n) (mn_Status n'') \<and>
      mn_ID n'' = mn_ID n \<and> mn_Port n'' = mn_Port n \<and> mn_APIPort n'' = mn_APIPort n"
    if h: "mget (nm_heap m) a = Some n" for a n
  proof -
    obtain n' where n': "mget (nm_heap m') a = Some n'" "R (mn_Status n) (mn_Status n')"
      "mn_ID n' = mn_ID n" "mn_Port n' = mn_Port n" "mn_APIPort n' = mn_APIPort n"
      using assms(1) h by (rule nm_evolvesE)
    then obtain n'' where "mget (nm_heap m'') a = Some n''" "R (mn_Status n') (mn_Status n'')"
      "mn_ID n'' = mn_ID n'" "mn_Port n'' = mn_Port n'" "mn_APIPort n'' = mn_APIPort n'"
      using assms(2) by (auto elim: nm_evolvesE)
    with n' assms(3) show ?thesis by (auto dest: transpD)
  qed
  with assms(2) show ?thesis by (auto simp: nm_evolves_def)
qed

lemma nm_evolves_mono: "nm_evolves R m m' \<Longrightarrow> (\<And>s t. R s t \<Longrightarrow> S s t) \<Longrightarrow> nm_evolves S m m'"
  unfolding nm_evolves_def by blast

lemma nm_evolves_inv: "nm_evolves R m m' \<Longrightarrow> nm_inv m'"
  by (simp add: nm_evolves_def)

section \<open>Every step keeps the life cycle\<close>

lemma change_evolves:
  assumes "nm_inv m" and "\<And>s. R s s"
    and "\<And>n. mget (nm_heap m) a = Some n \<Longrightarrow> R (mn_Status n) (mn_Status (f n)) \<and> mn_ID (f n) = mn_ID n \<and>
      mn_Port (f n) = mn_Port n \<and> mn_APIPort (f n) = mn_APIPort n \<and>
      node_inv (mn_phase (f n)) (mn_Status (f n)) (mn_ctx (f n))"
  shows "nm_evolves R m (change a f m)"
  using assms(1)
proof (rule nm_evolvesI)
  fix b n assume "mget (nm_heap m) b = Some n"
  then show "\<exists>n'. mget (nm_heap (change a f m)) b = Some n' \<and> R (mn_Status n) (mn_Status n') \<and>
      mn_ID n' = mn_ID n \<and> mn_Port n' = mn_Port n \<and> mn_APIPort n' = mn_APIPort n \<and>
      node_inv (mn_phase n') (mn_Status n') (mn_ctx n')"
    using assms nm_invD [OF assms(1)] by (auto simp: change_heap)
qed (auto simp: change_heap)

lemma evolves_fields:
  assumes "nm_evolves R m m'" and "nm_heap m'' = nm_heap m'" and "nm_next m'' = nm_next m'"
    and "\<And>i a. mget (nm_nodes m'') i = Some a \<Longrightarrow> mget (nm_nodes m') i = Some a"
  shows "nm_evolves R m m''"
proof -
  have inv: "nm_inv m'" using assms(1) by (rule nm_evolves_inv)
  have "nm_inv m''"
    unfolding nm_inv_def assms(2,3)
    using nm_invD [OF inv] assms(4) nm_inv_node [OF inv] by meson
  with assms(1) show ?thesis by (simp add: nm_evolves_def assms(2))
qed

lemma node_addr:
  assumes "node_of i m = Some n"
  obtains a where "mget (nm_nodes m) i = Some a" and "mget (nm_heap m) a = Some n"
  using assms by (auto simp: node_of_def split: option.splits)

lemma startNodeWithTotal_evolves:
  assumes "nm_inv m" and "\<And>s. R s s"
  shows "nm_evolves R m (snd (startNodeWithTotal i p b addr k m))"
proof (cases "fst (startNodeWithTotal i p b addr k m) = None")
  case False
  then have "snd (startNodeWithTotal i p b addr k m) = m"
    by (auto simp: startNodeWithTotal_def Let_def split: if_splits)
  with assms show ?thesis by (simp add: nm_evolves_refl)
next
  case True
  let ?m = "snd (startNodeWithTotal i p b addr k m)"
  obtain n where n: "nm_heap ?m = fmupd (nm_next m) n (nm_heap m)" "nm_next ?m = nm_next m + 1"
      "mn_ID n = i" "node_inv (mn_phase n) (mn_Status n) (mn_ctx n)"
    and nodes: "nm_nodes ?m = fmupd i (nm_next m) (nm_nodes m) \<or>
      nm_nodes ?m = fmupd i (nm_next m) (fmdrop i (nm_nodes m))"
    using True by (auto simp: startNodeWithTotal_def Let_def split: if_splits)
  have fresh: "mget (nm_heap m) (nm_next m) = None"
    using nm_invD [OF assms(1), of "nm_next m"] by (cases "mget (nm_heap m) (nm_next m)") auto
  have "nm_inv ?m"
    unfolding nm_inv_def
  proof (intro conjI allI impI)
    fix a n' assume "mget (nm_heap ?m) a = Some n'"
    then show "a < nm_next ?m" and "node_inv (mn_phase n') (mn_Status n') (mn_ctx n')"
      using n nm_invD [OF assms(1), of a] by (auto split: if_splits intro: less_SucI)
  next
    fix j a assume j: "mget (nm_nodes ?m) j = Some a"
    show "\<exists>n'. mget (nm_heap ?m) a = Some n' \<and> mn_ID n' = j"
    proof (cases "j = i")
      case False
      with j nodes have "mget (nm_nodes m) j = Some a" by (auto split: if_splits)
      with assms(1) obtain n' where "mget (nm_heap m) a = Some n'" and "mn_ID n' = j" by (rule nm_inv_node)
      with n fresh show ?thesis by (auto simp: fmlookup_dom_iff)
    qed (use j nodes n in \<open>auto split: if_splits\<close>)
  qed
  with n fresh assms(2) show ?thesis by (auto simp: nm_evolves_def)
qed

lemma notify_evolves [simp]: "nm_evolves R m (nm_notifyStatus i s m') = nm_evolves R m m'"
  by (simp add: nm_evolves_def nm_inv_def)

lemma notifyCluster_evolves [simp]: "nm_evolves R m (notifyCluster s i t m') = nm_evolves R m m'"
  by (simp add: nm_evolves_def nm_inv_def)

lemma flag_evolves [simp]:
  "nm_evolves R m (m'\<lparr>nm_clusterLocked := l\<rparr>) = nm_evolves R m m'"
  "nm_evolves R m (m'\<lparr>nm_clusterStatus := c\<rparr>) = nm_evolves R m m'"
  "nm_evolves R m (m'\<lparr>nm_totalNodes := t\<rparr>) = nm_evolves R m m'"
  by (simp_all add: nm_evolves_def nm_inv_def)

lemma status_distinct [simp]:
  "NodeStatusRunning \<noteq> NodeStatusStopping" "NodeStatusStarting \<noteq> NodeStatusRunning"
  "NodeStatusStarting \<noteq> NodeStatusStopping" "NodeStatusStopped \<noteq> NodeStatusRunning"
  "NodeStatusError \<noteq> NodeStatusRunning" "NodeStatusStopped \<noteq> NodeStatusStopping"
  "NodeStatusError \<noteq> NodeStatusStopping" "NodeStatusStopped \<noteq> NodeStatusStarting"
  "NodeStatusError \<noteq> NodeStatusStarting" "NodeStatusError \<noteq> NodeStatusStopped"
  by (simp_all add: node_status_defs)

lemmas status_distinct' [simp] = status_distinct [symmetric]

lemma node_inv_running [simp]: "node_inv ph NodeStatusRunning c \<longleftrightarrow> ph = Waiting \<and> c = Some False"
  by (cases ph) auto

lemma node_inv_stopping [simp]: "node_inv ph NodeStatusStopping c \<longleftrightarrow> ph = Waiting \<and> c \<noteq> None"
  by (cases ph) auto

lemma process_begin_evolves:
  assumes "nm_inv m" and "mget (nm_heap m) a = Some n" and "mn_phase n = Spawned"
  shows "nm_evolves moves m (process_begin a m)"
  unfolding process_begin_def using assms nm_invD [OF assms(1,2)]
  by (intro change_evolves) (auto intro: moves.intros)

lemma setNodeError_evolves:
  assumes "nm_inv m" and "mget (nm_heap m) a = Some n" and "mn_phase n = Launching"
  shows "nm_evolves moves m (setNodeError a e m)"
  using assms nm_invD [OF assms(1,2)]
  by (auto simp: setNodeError_def intro!: change_evolves intro: moves.intros)

lemma process_launch_evolves:
  assumes "nm_inv m" and "mget (nm_heap m) a = Some n" and "mn_phase n = Launching"
  shows "nm_evolves moves m (process_launch out a m)"
proof (cases out)
  case (Launched now)
  with assms nm_invD [OF assms(1,2)] show ?thesis
    by (auto simp: process_launch_def Let_def intro!: change_evolves intro: moves.intros)
qed (use setNodeError_evolves [OF assms] assms in \<open>auto simp: process_launch_def Let_def\<close>)

lemma process_exit_evolves:
  assumes "nm_inv m" and "mget (nm_heap m) a = Some n" and "mn_phase n = Waiting"
  shows "nm_evolves moves m (process_exit err a m)"
  using assms nm_invD [OF assms(1,2)]
  by (auto simp: process_exit_def Let_def intro!: change_evolves intro: moves.intros split: option.splits)

lemma stream_line_evolves: "nm_inv m \<Longrightarrow> nm_evolves moves m (stream_line src l a m)"
proof -
  assume inv: "nm_inv m"
  have c: "nm_evolves moves m (change a (\<lambda>n. n\<lparr>mn_outputBuf := buffer_Write w (mn_outputBuf n)\<rparr>) m)" for w
    using inv nm_invD [OF inv] by (intro change_evolves) (auto intro: moves.intros)
  show ?thesis
  proof (cases "mget (nm_heap m) a")
    case None
    with inv show ?thesis by (simp add: stream_line_def nm_evolves_refl moves.stay)
  next
    case (Some n)
    then show ?thesis
      by (auto simp: stream_line_def Let_def intro: c evolves_fields [OF c])
  qed
qed

text \<open>Stopping: only running nodes change, and they change to stopping.\<close>

definition stop_moves :: "NodeStatus \<Rightarrow> NodeStatus \<Rightarrow> bool" where
  "stop_moves s t \<longleftrightarrow> s = t \<or> s = NodeStatusRunning \<and> t = NodeStatusStopping"

lemma stop_moves_trans: "transp stop_moves"
  by (auto simp: stop_moves_def transp_def)

lemma stop_moves_moves: "stop_moves s t \<Longrightarrow> moves s t"
  by (auto simp: stop_moves_def intro: moves.intros)

lemma stop_begin_evolves:
  assumes "nm_inv m"
  shows "nm_evolves stop_moves m (snd (stop_begin i m))"
proof -
  have refl: "nm_evolves stop_moves m m" using assms by (simp add: nm_evolves_refl stop_moves_def)
  show ?thesis
  proof (cases "mget (nm_nodes m) i")
    case (Some a)
    with assms obtain n where n: "mget (nm_heap m) a = Some n" by (rule nm_inv_node)
    show ?thesis
    proof (cases "mn_Status n = NodeStatusRunning")
      case True
      with nm_invD [OF assms n] n
      have "nm_evolves stop_moves m (change a (\<lambda>n. n\<lparr>mn_Status := NodeStatusStopping\<rparr>) m)"
        by (intro change_evolves [OF assms]) (simp_all add: stop_moves_def)
      with True Some n show ?thesis by (simp add: stop_begin_def)
    qed (use Some n refl in \<open>simp add: stop_begin_def\<close>)
  qed (use refl in \<open>simp add: stop_begin_def\<close>)
qed

lemma stop_begin_marks:
  assumes "stop_begin i m = (Inr a, m1)"
  shows "\<exists>n. mget (nm_heap m1) a = Some n \<and> mn_Status n = NodeStatusStopping"
  using assms by (auto simp: stop_begin_def change_heap split: option.splits if_splits)

text \<open>A context is cancelled only after the node was marked.\<close>

lemma stop_cancel_evolves:
  assumes "nm_inv m" and "mget (nm_heap m) a = Some n"
    and "mn_Status n \<in> {NodeStatusStopping, NodeStatusStopped, NodeStatusError}" and "\<And>s. R s s"
  shows "nm_evolves R m (stop_cancel a m)"
proof -
  have "node_inv (mn_phase n) (mn_Status n) (map_option (\<lambda>_. True) (mn_ctx n))"
    using nm_invD [OF assms(1,2)] assms(3) by (cases "mn_phase n") auto
  with assms show ?thesis unfolding stop_cancel_def by (intro change_evolves) auto
qed

lemma StopNode_evolves:
  assumes "nm_inv m"
  shows "nm_evolves stop_moves m (snd (StopNode i m))"
proof -
  note b = stop_begin_evolves [OF assms, of i]
  obtain r m1 where s: "stop_begin i m = (r, m1)" by force
  show ?thesis
  proof (cases r)
    case (Inl err)
    with b s show ?thesis by (simp add: StopNode_def)
  next
    case (Inr a)
    obtain n where n: "mget (nm_heap m1) a = Some n" "mn_Status n = NodeStatusStopping"
      using stop_begin_marks s Inr by blast
    have inv1: "nm_inv m1" using b s nm_evolves_inv by force
    have "nm_evolves stop_moves m1 (stop_cancel a m1)"
      using n by (intro stop_cancel_evolves [OF inv1 n(1)]) (simp_all add: stop_moves_def)
    with b s Inr show ?thesis using nm_evolves_trans [OF _ _ stop_moves_trans] by (auto simp: StopNode_def)
  qed
qed

lemma stop_each_evolves: "nm_inv m \<Longrightarrow> nm_evolves stop_moves m (stop_each is m)"
proof (induction "is" arbitrary: m)
  case (Cons i "is")
  show ?case
    using nm_evolves_trans [OF StopNode_evolves [OF Cons.prems] Cons.IH stop_moves_trans]
      nm_evolves_inv [OF StopNode_evolves [OF Cons.prems]] by simp
qed (simp add: nm_evolves_refl stop_moves_def)

lemma start_each_evolves: "nm_inv m \<Longrightarrow> nm_evolves (=) m (start_each is addr k m)"
proof (induction "is" arbitrary: m)
  case (Cons i "is")
  have s: "nm_evolves (=) m (snd (startNodeWithTotal i False False addr k m))"
    using Cons.prems by (rule startNodeWithTotal_evolves) simp
  show ?case using nm_evolves_trans [OF s Cons.IH [OF nm_evolves_inv [OF s]]] by (simp add: transp_def)
qed (simp add: nm_evolves_refl)

lemma cluster_batches_evolves: "nm_inv m \<Longrightarrow> nm_evolves (=) m (cluster_batches order addr k j m)"
proof (induction order addr k j m rule: cluster_batches.induct)
  case (1 order addr k j m)
  show ?case
  proof (cases "j < k")
    case True
    let ?m = "start_each (order (batch_names j (min (j + 10) k))) addr k m"
    have s: "nm_evolves (=) m (notifyCluster ClusterStatusStarting (min (j + 10) k) k ?m)"
      using start_each_evolves [OF "1.prems"] by simp
    show ?thesis
      using nm_evolves_trans [OF s "1.IH" [OF True refl refl nm_evolves_inv [OF s]]] True
      by (simp add: cluster_batches.simps [of order addr k j m] transp_def Let_def)
  qed (use "1.prems" in \<open>simp add: cluster_batches.simps [of order addr k j m] nm_evolves_refl\<close>)
qed

lemma startClusterAsync_evolves:
  assumes "nm_inv m"
  shows "nm_evolves (=) m (startClusterAsync order peer k m)"
proof -
  let ?s = "startNodeWithTotal ''node0'' True True '''' k m"
  have s: "nm_evolves (=) m (snd ?s)" using assms by (rule startNodeWithTotal_evolves) simp
  have b: "nm_evolves (=) m (cluster_batches order addr k 1 (snd ?s))" for addr
    using nm_evolves_trans [OF s cluster_batches_evolves [OF nm_evolves_inv [OF s]]] by (simp add: transp_def)
  obtain err m1 where e: "?s = (err, m1)" by (cases ?s)
  show ?thesis
    using s b e
    by (auto simp: startClusterAsync_def async_fail_def async_finish_def split: option.splits)
qed

lemma StopAll_evolves: "nm_inv m \<Longrightarrow> nm_evolves stop_moves m (snd (cluster_begin k m))"
proof -
  assume inv: "nm_inv m"
  have l: "nm_evolves stop_moves m (m\<lparr>nm_clusterLocked := True\<rparr>)"
    using inv by (simp add: nm_evolves_refl stop_moves_def)
  have "nm_evolves stop_moves m (StopAllNodes (m\<lparr>nm_clusterLocked := True\<rparr>))"
    unfolding StopAllNodes_def
    by (rule nm_evolves_trans [OF l stop_each_evolves [OF nm_evolves_inv [OF l]] stop_moves_trans])
  with inv show ?thesis by (simp add: cluster_begin_def cluster_lock_def nm_evolves_refl stop_moves_def)
qed

lemma nm_step_evolves: "nm_step m m' \<Longrightarrow> nm_inv m \<Longrightarrow> nm_evolves moves m m'"
proof (induction rule: nm_step.induct)
  case (start m i p b addr)
  then show ?case by (simp add: StartNode_def startNodeWithTotal_evolves moves.stay)
next
  case (stop m i)
  then show ?case using StopNode_evolves stop_moves_moves by (blast intro: nm_evolves_mono)
next
  case (stop_begin m i)
  then show ?case using stop_begin_evolves stop_moves_moves by (blast intro: nm_evolves_mono)
next
  case (stop_cancel m a n)
  then show ?case by (intro stop_cancel_evolves) (auto intro: moves.stay)
next
  case (stop_all m)
  then show ?case unfolding StopAllNodes_def using stop_each_evolves stop_moves_moves by (blast intro: nm_evolves_mono)
next
  case (remove m i)
  then have "nm_evolves moves m m" by (simp add: nm_evolves_refl moves.stay)
  then show ?case
    by (rule evolves_fields) (auto simp: RemoveNode_def Let_def split: option.splits if_splits)
next
  case (primary m i p)
  then have r: "nm_evolves moves m m" by (simp add: nm_evolves_refl moves.stay)
  have "nm_evolves moves m (change a (\<lambda>n. n\<lparr>mn_IsPrimary := p\<rparr>) m)" for a
    using primary nm_invD [OF primary] by (intro change_evolves) (auto intro: moves.intros)
  with r show ?case by (auto simp: UpdatePrimaryStatus_def split: option.splits)
next
  case (cluster m k)
  then show ?case using StopAll_evolves stop_moves_moves by (blast intro: nm_evolves_mono)
next
  case (reset m k)
  then have "nm_evolves moves m m" by (simp add: nm_evolves_refl moves.stay)
  then show ?case by (rule evolves_fields) (auto simp: cluster_reset_def)
next
  case (async m order peer k)
  then show ?case using startClusterAsync_evolves by (blast intro: nm_evolves_mono moves.stay)
next
  case (lock m k)
  then show ?case by (simp add: cluster_lock_def nm_evolves_refl moves.stay)
next
  case (async_start m i p b addr k)
  then show ?case by (simp add: startNodeWithTotal_evolves moves.stay)
qed (simp_all add: async_fail_def async_finish_def process_begin_evolves process_launch_evolves process_exit_evolves stream_line_evolves
      SetTotalNodes_def nm_evolves_refl moves.stay)

lemma nm_reachable_inv:
  assumes "nm_step\<^sup>*\<^sup>* (NewNodeManager cfg) m"
  shows "nm_inv m"
  using assms
proof induction
  case base
  show ?case by (simp add: NewNodeManager_def Let_def nm_inv_def)
next
  case (step m m')
  then show ?case using nm_step_evolves nm_evolves_inv by blast
qed

text \<open>
  C29: the status of a node tells the truth about its process in every run of the manager,
  whatever requests, process events and cluster starts interleave, between the two halves of
  \<open>StopNode\<close> too. A node is running or stopping exactly while its process runs; the process of a
  running node was not told to stop, so a process that was is shown as stopping; every step
  moves the status only along the life cycle (starting to running or error, running to
  stopping, stopped or error, stopping to stopped or error) and never changes the ports of a
  node object. When the process of a stopping node exits, the node ends as stopped if its
  context was cancelled by then or the process returned no error; a process that fails in
  the window before the cancellation leaves it in error.
\<close>

theorem node_status_follows_process:
  assumes "nm_step\<^sup>*\<^sup>* (NewNodeManager cfg) m" and "mget (nm_heap m) a = Some n"
  shows "(mn_Status n \<in> {NodeStatusRunning, NodeStatusStopping} \<longleftrightarrow> mn_phase n = Waiting) \<and>
    (mn_phase n = Waiting \<longrightarrow> mn_ctx n \<noteq> None \<and> (mn_ctx n = Some True \<longrightarrow> mn_Status n = NodeStatusStopping)) \<and>
    (\<forall>m'. nm_step m m' \<longrightarrow> (\<exists>n'. mget (nm_heap m') a = Some n' \<and> moves (mn_Status n) (mn_Status n') \<and>
       mn_Port n' = mn_Port n \<and> mn_APIPort n' = mn_APIPort n)) \<and>
    (mn_Status n = NodeStatusStopping \<longrightarrow>
       (\<forall>err. map_option mn_Status (mget (nm_heap (process_exit err a m)) a) =
          Some (if mn_ctx n = Some True \<or> err = None then NodeStatusStopped else NodeStatusError)))"
proof -
  have inv: "nm_inv m" using assms(1) by (rule nm_reachable_inv)
  have n: "node_inv (mn_phase n) (mn_Status n) (mn_ctx n)" using nm_invD [OF inv assms(2)] by simp
  have "\<exists>n'. mget (nm_heap m') a = Some n' \<and> moves (mn_Status n) (mn_Status n') \<and>
      mn_Port n' = mn_Port n \<and> mn_APIPort n' = mn_APIPort n"
    if s: "nm_step m m'" for m'
    using nm_step_evolves [OF s inv] assms(2) by (rule nm_evolvesE) blast
  moreover have "mn_Status n \<in> {NodeStatusRunning, NodeStatusStopping} \<longleftrightarrow> mn_phase n = Waiting"
    and "mn_phase n = Waiting \<longrightarrow> mn_ctx n \<noteq> None \<and> (mn_ctx n = Some True \<longrightarrow> mn_Status n = NodeStatusStopping)"
    using n by (cases "mn_phase n"; auto)+
  moreover have "map_option mn_Status (mget (nm_heap (process_exit err a m)) a) =
      Some (if mn_ctx n = Some True \<or> err = None then NodeStatusStopped else NodeStatusError)"
    if "mn_Status n = NodeStatusStopping" for err
    using n that assms(2) by (cases err) (simp_all add: process_exit_def change_heap Let_def)
  ultimately show ?thesis by blast
qed

definition quiet_config :: NodeManagerConfig where
  "quiet_config = \<lparr>nc_DataDir = '''', nc_BasePort = 0, nc_BaseAPIPort = 0, nc_StatusCallback = True,
     nc_ClusterCallback = True, nc_OutputCallback = False\<rparr>"

definition one_running :: NodeManager where
  "one_running = process_launch (Launched 5) 0 (process_begin 0
     (snd (StartNode ''node0'' True True '''' (NewNodeManager quiet_config))))"

lemma one_running_reachable: "nm_step\<^sup>*\<^sup>* (NewNodeManager quiet_config) one_running"
proof -
  let ?m1 = "snd (StartNode ''node0'' True True '''' (NewNodeManager quiet_config))"
  let ?m2 = "process_begin 0 ?m1"
  have "nm_step (NewNodeManager quiet_config) ?m1" by (rule nm_step.start)
  moreover obtain n1 where "mget (nm_heap ?m1) 0 = Some n1" and "mn_phase n1 = Spawned"
    by (simp add: StartNode_def startNodeWithTotal_def Let_def node_of_def NewNodeManager_def)
  then have "nm_step ?m1 ?m2" by (rule nm_step.begun)
  moreover from \<open>mget (nm_heap ?m1) 0 = Some n1\<close> obtain n2 where "mget (nm_heap ?m2) 0 = Some n2" and "mn_phase n2 = Launching"
    by (simp add: process_begin_def change_heap)
  then have "nm_step ?m2 one_running" unfolding one_running_def by (rule nm_step.launch)
  ultimately show ?thesis by simp
qed

definition half_stopped :: NodeManager where
  "half_stopped = snd (stop_begin ''node0'' one_running)"

lemma half_stopped_node:
  "\<exists>n. mget (nm_heap half_stopped) 0 = Some n \<and> mn_Status n = NodeStatusStopping \<and> mn_ctx n = Some False"
  by (simp add: half_stopped_def one_running_def stop_begin_def StartNode_def startNodeWithTotal_def process_begin_def
      process_launch_def NewNodeManager_def quiet_config_def node_of_def change_heap Let_def)

theorem node_status_follows_process_witness:
  "map_option mn_Status (mget (nm_heap (process_exit (Some ''signal: killed'') 0 (stop_cancel 0 half_stopped))) 0) =
     Some NodeStatusStopped \<and>
   map_option mn_Status (mget (nm_heap (process_exit (Some ''exit status 1'') 0 half_stopped)) 0) =
     Some NodeStatusError"
proof -
  have r: "nm_step\<^sup>*\<^sup>* (NewNodeManager quiet_config) half_stopped"
    unfolding half_stopped_def using one_running_reachable nm_step.stop_begin by (rule rtranclp.rtrancl_into_rtrancl)
  obtain n where n: "mget (nm_heap half_stopped) 0 = Some n" "mn_Status n = NodeStatusStopping" "mn_ctx n = Some False"
    using half_stopped_node by blast
  have "nm_step half_stopped (stop_cancel 0 half_stopped)" using n by (intro nm_step.stop_cancel [OF n(1)]) simp
  with r have r': "nm_step\<^sup>*\<^sup>* (NewNodeManager quiet_config) (stop_cancel 0 half_stopped)"
    by (rule rtranclp.rtrancl_into_rtrancl)
  obtain n' where n': "mget (nm_heap (stop_cancel 0 half_stopped)) 0 = Some n'" "mn_Status n' = NodeStatusStopping"
      "mn_ctx n' = Some True"
    using n by (simp add: stop_cancel_def change_heap)
  note f = node_status_follows_process [OF r n(1), THEN conjunct2, THEN conjunct2, THEN conjunct2]
    and f' = node_status_follows_process [OF r' n'(1), THEN conjunct2, THEN conjunct2, THEN conjunct2]
  show ?thesis
    using spec [OF mp [OF f n(2)], of "Some ''exit status 1''"] spec [OF mp [OF f' n'(2)], of "Some ''signal: killed''"]
      n(3) n'(3) by simp
qed

section \<open>Ports\<close>

text \<open>The nodes of the map have exactly the ports from the base port on, each one once.\<close>

definition port_of :: "NodeManager \<Rightarrow> string \<Rightarrow> int" where
  "port_of m i = (case node_of i m of None \<Rightarrow> 0 | Some n \<Rightarrow> mn_Port n)"

definition consecutive :: "NodeManager \<Rightarrow> bool" where
  "consecutive m \<longleftrightarrow> bij_betw (port_of m) (fset (fmdom (nm_nodes m))) {nm_basePort m..<nm_basePort m + golen (nm_nodes m)}"

lemma node_of_inv:
  assumes "nm_inv m" and "mhas (nm_nodes m) i"
  obtains n where "node_of i m = Some n" and "mn_ID n = i"
proof -
  from assms(2) obtain a where a: "mget (nm_nodes m) i = Some a" by auto
  with assms(1) obtain n where "mget (nm_heap m) a = Some n" and "mn_ID n = i" by (rule nm_inv_node)
  with a that show ?thesis by (simp add: node_of_def)
qed

lemma node_of_ID: "nm_inv m \<Longrightarrow> node_of i m = Some n \<Longrightarrow> mn_ID n = i"
  by (auto simp: node_of_def split: option.splits elim: nm_inv_node)

lemma node_of_dom: "node_of i m = Some n \<Longrightarrow> mhas (nm_nodes m) i"
  by (auto simp: node_of_def fmlookup_dom_iff split: option.splits)

text \<open>What a successful start does to the map and to the other nodes.\<close>

lemma start_success:
  assumes inv: "nm_inv m" and ok: "startNodeWithTotal i p b addr k m = (None, m')"
    and gone: "node_of i m = None \<or> (\<exists>n. node_of i m = Some n \<and> mn_Status n \<in> {NodeStatusStopped, NodeStatusError})"
  shows "fset (fmdom (nm_nodes m')) = insert i (fset (fmdom (nm_nodes m)))"
    and "\<exists>n. node_of i m' = Some n \<and> mn_ID n = i \<and> mn_Port n = nm_basePort m + golen (fmdrop i (nm_nodes m)) \<and>
      mn_IsPrimary n = p \<and> mn_IsBootstrap n = b \<and> mn_bootstrapAddr n = addr \<and> mn_Status n = NodeStatusStarting"
    and "j \<noteq> i \<Longrightarrow> node_of j m' = node_of j m"
    and "nm_totalNodes m' = (if 0 < k then k else golen (nm_nodes m'))"
    and "nm_basePort m' = nm_basePort m"
proof -
  have drop: "fmdrop i (nm_nodes m) = nm_nodes m" if "node_of i m = None"
  proof -
    have "\<not> mhas (nm_nodes m) i" using that inv by (auto elim: node_of_inv)
    then show ?thesis by (rule fmdrop_idle)
  qed
  define x where "x = \<lparr>mn_ID = i, mn_Port = nm_basePort m + golen (fmdrop i (nm_nodes m)),
      mn_APIPort = nm_baseAPIPort m + golen (fmdrop i (nm_nodes m)), mn_Status = NodeStatusStarting,
      mn_PeerID = '''', mn_IsPrimary = p, mn_IsBootstrap = b, mn_StartedAt = 0, mn_Error = '''',
      mn_outputBuf = NewOutputBuffer 1000, mn_ctx = None, mn_phase = Spawned, mn_bootstrapAddr = addr, mn_args = []\<rparr>"
  have none: "node_of i (m\<lparr>nm_nodes := fmdrop i (nm_nodes m)\<rparr>) = None" by (simp add: node_of_def)
  have eff: "nm_nodes m' = fmupd i (nm_next m) (fmdrop i (nm_nodes m)) \<and>
      nm_heap m' = fmupd (nm_next m) x (nm_heap m) \<and> nm_basePort m' = nm_basePort m \<and>
      nm_totalNodes m' = (if 0 < k then k else golen (nm_nodes m'))"
  proof (cases "node_of i m")
    case n: None
    then have "node_of i (m\<lparr>nm_nodes := nm_nodes m\<rparr>) = None" by (simp add: node_of_def)
    with ok n drop [OF n] show ?thesis by (auto simp: startNodeWithTotal_def Let_def x_def)
  next
    case (Some n)
    with gone have "mn_Status n = NodeStatusStopped \<or> mn_Status n = NodeStatusError" by auto
    with Some ok none show ?thesis by (auto simp: startNodeWithTotal_def Let_def x_def)
  qed
  then have m': "nm_nodes m' = fmupd i (nm_next m) (fmdrop i (nm_nodes m))"
      "nm_heap m' = fmupd (nm_next m) x (nm_heap m)" "nm_basePort m' = nm_basePort m" by simp_all
  show "fset (fmdom (nm_nodes m')) = insert i (fset (fmdom (nm_nodes m)))" using m' by auto
  show "nm_totalNodes m' = (if 0 < k then k else golen (nm_nodes m'))" "nm_basePort m' = nm_basePort m"
    using eff by blast+
  have "node_of i m' = Some x" using m' by (simp add: node_of_def)
  then show "\<exists>n. node_of i m' = Some n \<and> mn_ID n = i \<and> mn_Port n = nm_basePort m + golen (fmdrop i (nm_nodes m)) \<and>
      mn_IsPrimary n = p \<and> mn_IsBootstrap n = b \<and> mn_bootstrapAddr n = addr \<and> mn_Status n = NodeStatusStarting"
    by (simp add: x_def)
  show "node_of j m' = node_of j m" if "j \<noteq> i"
  proof (cases "mget (nm_nodes m) j")
    case (Some a)
    with inv obtain n where "mget (nm_heap m) a = Some n" by (rule nm_inv_node)
    then have "a \<noteq> nm_next m" using nm_invD [OF inv] by blast
    with Some that m' show ?thesis by (simp add: node_of_def)
  qed (use that m' in \<open>simp add: node_of_def\<close>)
qed

lemma port_of_node: "node_of i m = Some n \<Longrightarrow> port_of m i = mn_Port n"
  by (simp add: port_of_def)

lemma start_new_consecutive:
  assumes inv: "nm_inv m" and "consecutive m" and new: "\<not> mhas (nm_nodes m) i"
    and ok: "startNodeWithTotal i p b addr k m = (None, m')"
  shows "consecutive m'" and "golen (nm_nodes m') = golen (nm_nodes m) + 1"
proof -
  have gone: "node_of i m = None" using new node_of_dom by (cases "node_of i m") auto
  note s = start_success [OF inv ok disjI1 [OF gone]]
  show len: "golen (nm_nodes m') = golen (nm_nodes m) + 1" using s(1) new by (simp add: golen_card)
  have "fmdrop i (nm_nodes m) = nm_nodes m" using new by (rule fmdrop_idle)
  with s(2) have pi: "port_of m' i = nm_basePort m + golen (nm_nodes m)" by (auto simp: port_of_def)
  have pj: "port_of m' j = port_of m j" if "j \<in> fset (fmdom (nm_nodes m))" for j
  proof -
    have "j \<noteq> i" using that new by auto
    then show ?thesis using s(3) [of j] by (simp add: port_of_def)
  qed
  have "bij_betw (port_of m') (fset (fmdom (nm_nodes m))) {nm_basePort m..<nm_basePort m + golen (nm_nodes m)}"
    using assms(2) bij_betw_cong [of "fset (fmdom (nm_nodes m))" "port_of m'" "port_of m"] pj
    by (simp add: consecutive_def)
  from notIn_Un_bij_betw [OF new _ this] pi
  have "bij_betw (port_of m') (insert i (fset (fmdom (nm_nodes m))))
      (insert (nm_basePort m + golen (nm_nodes m)) {nm_basePort m..<nm_basePort m + golen (nm_nodes m)})" by simp
  moreover have "insert (nm_basePort m + golen (nm_nodes m)) {nm_basePort m..<nm_basePort m + golen (nm_nodes m)} =
      {nm_basePort m..<nm_basePort m + (golen (nm_nodes m) + 1)}"
    using golen_nonneg [of "nm_nodes m"] by (auto simp del: golen_nonneg)
  ultimately show "consecutive m'" unfolding consecutive_def s(1,5) len by simp
qed

text \<open>
  Restarting a node can give it the ports of another node. The manager derives the port of a
  restarted node from the number of other nodes in the map, not from the ports in use: when
  the nodes occupy the consecutive ports that successive starts give them, and any node but
  the one with the highest port is restarted after it stopped or failed, it gets exactly the
  port of the node with the highest port, which still has it.
\<close>

theorem restart_takes_used_port:
  assumes inv: "nm_inv m" and "consecutive m"
    and i: "node_of i m = Some n" "mn_Status n \<in> {NodeStatusStopped, NodeStatusError}"
    and low: "mn_Port n < nm_basePort m + golen (nm_nodes m) - 1"
    and ok: "StartNode i p b addr m = (None, m')"
  shows "\<exists>j n1 n2. j \<noteq> i \<and> node_of i m' = Some n1 \<and> node_of j m' = Some n2 \<and> node_of j m = Some n2 \<and>
    mn_Port n1 = mn_Port n2"
proof -
  have ok': "startNodeWithTotal i p b addr 0 m = (None, m')" using ok by (simp add: StartNode_def)
  note s = start_success [OF inv ok' disjI2]
  have dom: "mhas (nm_nodes m) i" using i(1) by (rule node_of_dom)
  let ?top = "nm_basePort m + golen (nm_nodes m) - 1"
  have "1 \<le> golen (nm_nodes m)" using dom by (auto simp: golen_card Suc_le_eq card_gt_0_iff)
  then have "?top \<in> {nm_basePort m..<nm_basePort m + golen (nm_nodes m)}" by simp
  with assms(2) obtain j where j: "mhas (nm_nodes m) j" "port_of m j = ?top"
    unfolding consecutive_def bij_betw_def by (metis imageE)
  obtain n2 where n2: "node_of j m = Some n2" using inv j(1) by (rule node_of_inv)
  have "j \<noteq> i" using j(2) i(1) low by (auto simp: port_of_def)
  moreover obtain n1 where "node_of i m' = Some n1" "mn_Port n1 = ?top"
    using s(2) i dom by (auto simp: golen_drop)
  moreover have "mn_Port n2 = ?top" using j(2) n2 by (simp add: port_of_def)
  ultimately show ?thesis using s(3) [of j] i n2 by metis
qed

lemma New_consecutive: "consecutive (NewNodeManager cfg)" "nm_inv (NewNodeManager cfg)"
  by (simp_all add: consecutive_def NewNodeManager_def Let_def nm_inv_def bij_betw_def)

text \<open>Changes of node objects that keep the port.\<close>

lemma consecutive_change:
  assumes "\<And>n. mn_Port (f n) = mn_Port n"
  shows "consecutive (change a f m) = consecutive m"
proof -
  have "node_of i (change a f m) =
      (if mget (nm_nodes m) i = Some a then map_option f (node_of i m) else node_of i m)" for i
    by (auto simp: node_of_def change_heap split: option.splits)
  then have "port_of (change a f m) = port_of m"
    using assms by (auto simp: port_of_def fun_eq_iff split: option.splits)
  then show ?thesis by (simp add: consecutive_def)
qed

lemma consecutive_notify [simp]: "consecutive (nm_notifyStatus i s m) = consecutive m"
proof -
  have "port_of (nm_notifyStatus i s m) = port_of m" by (auto simp: port_of_def node_of_def fun_eq_iff split: option.splits)
  then show ?thesis by (simp add: consecutive_def)
qed

definition first_failed :: NodeManager where
  "first_failed = process_launch (StartFailed ''no such file'') 0 (process_begin 0
     (snd (StartNode ''node0'' True True '''' (NewNodeManager quiet_config))))"

definition two_nodes :: NodeManager where
  "two_nodes = snd (StartNode ''node1'' False False '''' first_failed)"

lemma first_failed_node:
  "map_option (\<lambda>n. (mn_Status n, mn_Port n)) (node_of ''node0'' first_failed) = Some (NodeStatusError, 4001)"
  "fmdom (nm_nodes first_failed) = {|''node0''|}" "nm_basePort first_failed = 4001"
  by (simp_all add: first_failed_def StartNode_def startNodeWithTotal_def process_begin_def process_launch_def
      setNodeError_def NewNodeManager_def quiet_config_def node_of_def change_heap Let_def)

lemma first_failed_inv: "nm_inv first_failed"
proof -
  let ?m1 = "snd (StartNode ''node0'' True True '''' (NewNodeManager quiet_config))"
  have i1: "nm_inv ?m1" using nm_step_evolves [OF nm_step.start New_consecutive(2)] by (rule nm_evolves_inv)
  obtain n1 where n1: "mget (nm_heap ?m1) 0 = Some n1" "mn_phase n1 = Spawned"
    by (simp add: StartNode_def startNodeWithTotal_def Let_def node_of_def NewNodeManager_def)
  have i2: "nm_inv (process_begin 0 ?m1)" using nm_step_evolves [OF nm_step.begun [OF n1] i1] by (rule nm_evolves_inv)
  obtain n2 where n2: "mget (nm_heap (process_begin 0 ?m1)) 0 = Some n2" "mn_phase n2 = Launching"
    using n1 by (simp add: process_begin_def change_heap)
  show ?thesis
    unfolding first_failed_def using nm_step_evolves [OF nm_step.launch [OF n2] i2] by (rule nm_evolves_inv)
qed

lemma start_fails_iff:
  "fst (startNodeWithTotal i p b addr k m) = None \<longleftrightarrow>
     map_option mn_Status (node_of i m) \<notin> {Some NodeStatusRunning, Some NodeStatusStarting}"
  by (simp add: startNodeWithTotal_def Let_def)

theorem restart_takes_used_port_witness:
  "\<exists>m'. StartNode ''node0'' True True '''' two_nodes = (None, m') \<and>
     (\<exists>j n1 n2. j \<noteq> ''node0'' \<and> node_of ''node0'' m' = Some n1 \<and> node_of j m' = Some n2 \<and> mn_Port n1 = mn_Port n2)"
proof -
  have new: "\<not> mhas (nm_nodes first_failed) ''node1''" using first_failed_node(2) by simp
  have none: "node_of ''node1'' first_failed = None" using new node_of_dom by (cases "node_of ''node1'' first_failed") auto
  obtain m where m: "startNodeWithTotal ''node1'' False False '''' 0 first_failed = (None, m)"
    using start_fails_iff [of "''node1''" False False "''''" 0 first_failed] none
    by (cases "startNodeWithTotal ''node1'' False False '''' 0 first_failed") auto
  then have two: "two_nodes = m" by (simp add: two_nodes_def StartNode_def)
  have ports: "port_of first_failed ''node0'' = 4001" using first_failed_node(1) by (auto simp: port_of_def)
  have one: "golen (nm_nodes first_failed) = 1" using first_failed_node(2) by (simp add: golen_card)
  have cons: "consecutive first_failed"
    unfolding consecutive_def one first_failed_node(2,3) using ports by (auto simp: bij_betw_def)
  note s = start_success [OF first_failed_inv m disjI1 [OF none]]
  have "node_of ''node0'' two_nodes = node_of ''node0'' first_failed" using s(3) [of "''node0''"] two by simp
  then obtain n where n: "node_of ''node0'' two_nodes = Some n" "mn_Status n = NodeStatusError" "mn_Port n = 4001"
    using first_failed_node(1) by auto
  have inv: "nm_inv two_nodes"
    unfolding two_nodes_def using nm_step_evolves [OF nm_step.start first_failed_inv] by (rule nm_evolves_inv)
  obtain m' where m': "StartNode ''node0'' True True '''' two_nodes = (None, m')"
    using start_fails_iff [of "''node0''" True True "''''" 0 two_nodes] n
    by (cases "StartNode ''node0'' True True '''' two_nodes") (auto simp: StartNode_def)
  have "consecutive two_nodes" "golen (nm_nodes two_nodes) = 2" "nm_basePort two_nodes = 4001"
    using start_new_consecutive [OF first_failed_inv cons new m] one s(5) first_failed_node(3) two by simp_all
  then show ?thesis
    using restart_takes_used_port [OF inv _ n(1) _ _ m'] n(2,3) m' by auto
qed

section \<open>Clusters\<close>

definition nth_node :: "int \<Rightarrow> string" where "nth_node k = ''node'' @ FormatInt k"

lemma nth_node_inj [simp]: "nth_node j = nth_node k \<longleftrightarrow> j = k"
  by (simp add: nth_node_def)

lemma nth_node_0: "nth_node 0 = ''node0''"
  unfolding nth_node_def by code_simp

lemma batch_names_nth: "batch_names j k = map nth_node [j..k - 1]"
  by (simp add: batch_names_def nth_node_def)

text \<open>The nodes of a cluster under construction.\<close>

definition cluster_state :: "int set \<Rightarrow> string \<Rightarrow> int \<Rightarrow> NodeManager \<Rightarrow> bool" where
  "cluster_state K addr tot m \<longleftrightarrow> nm_inv m \<and> consecutive m \<and>
     fset (fmdom (nm_nodes m)) = nth_node ` K \<and> nm_totalNodes m = tot \<and>
     (\<forall>k n. node_of (nth_node k) m = Some n \<longrightarrow> mn_IsPrimary n = (k = 0) \<and> mn_IsBootstrap n = (k = 0) \<and>
        mn_bootstrapAddr n = (if k = 0 then '''' else addr)) \<and>
     (0 \<in> K \<longrightarrow> port_of m (nth_node 0) = nm_basePort m)"

lemma cluster_state_notify [simp]: "cluster_state K addr tot (notifyCluster s i t m) = cluster_state K addr tot m"
proof -
  have "node_of j (notifyCluster s i t m) = node_of j m" for j by (simp add: node_of_def split: option.splits)
  then show ?thesis by (simp add: cluster_state_def consecutive_def port_of_def [abs_def] nm_inv_def)
qed

lemma start_in_cluster:
  assumes c: "cluster_state K addr tot m" and "k \<notin> K" and "0 < tot" and "k = 0 \<longleftrightarrow> p" and "p \<longrightarrow> K = {}"
  shows "\<exists>m'. startNodeWithTotal (nth_node k) p p (if p then '''' else addr) tot m = (None, m') \<and>
    cluster_state (insert k K) addr tot m' \<and> nm_basePort m' = nm_basePort m"
proof -
  note c' = c [unfolded cluster_state_def]
  have new: "\<not> mhas (nm_nodes m) (nth_node k)" using c' assms(2) by auto
  have none: "node_of (nth_node k) m = None" using new node_of_dom by (cases "node_of (nth_node k) m") auto
  obtain m' where m': "startNodeWithTotal (nth_node k) p p (if p then '''' else addr) tot m = (None, m')"
    using start_fails_iff [of "nth_node k" p p "if p then '''' else addr" tot m] none
    by (cases "startNodeWithTotal (nth_node k) p p (if p then '''' else addr) tot m") auto
  note s = start_success [OF _ m' disjI1 [OF none]]
  have inv: "nm_inv m'"
    using startNodeWithTotal_evolves [of m "(=)" "nth_node k" p p "if p then '''' else addr" tot] c' m'
      nm_evolves_inv by force
  have "mn_IsPrimary n = (j = 0) \<and> mn_IsBootstrap n = (j = 0) \<and> mn_bootstrapAddr n = (if j = 0 then '''' else addr)"
    if "node_of (nth_node j) m' = Some n" for j n
    using that s(2) s(3) [of "nth_node j"] c' assms(4) by (cases "j = k") auto
  moreover have "port_of m' (nth_node 0) = nm_basePort m'" if "0 \<in> insert k K"
  proof (cases p)
    case True
    then have "k = 0" "nm_nodes m = fmempty" using assms(4,5) c' by (auto simp: fmdom_notD intro!: fmap_ext)
    then show ?thesis using s(2,5) c' by (auto simp: port_of_def)
  next
    case False
    then have "0 \<in> K" "nth_node 0 \<noteq> nth_node k" using that assms(4) by auto
    then show ?thesis using s(3) [of "nth_node 0"] s(5) c' by (simp add: port_of_def)
  qed
  ultimately have "cluster_state (insert k K) addr tot m'"
    using inv start_new_consecutive(1) [OF _ _ new m'] s(1,4) c' assms(3) by (auto simp: cluster_state_def)
  with m' s(5) c' show ?thesis by blast
qed

lemma start_each_in_cluster:
  assumes "cluster_state K addr tot m" and "set ks \<inter> insert 0 K = {}" and "distinct ks" and "0 < tot"
  shows "cluster_state (K \<union> set ks) addr tot (start_each (map nth_node ks) addr tot m)"
  using assms
proof (induction ks arbitrary: K m)
  case (Cons k ks)
  obtain m' where "startNodeWithTotal (nth_node k) False False addr tot m = (None, m')"
    and "cluster_state (insert k K) addr tot m'"
    using start_in_cluster [OF Cons.prems(1), of k False] Cons.prems by auto
  with Cons.IH [of "insert k K" m'] Cons.prems show ?case by auto
qed simp

text \<open>An order in which concurrent starts may happen.\<close>

definition some_order :: "(string list \<Rightarrow> string list) \<Rightarrow> bool" where
  "some_order order \<longleftrightarrow> (\<forall>xs. distinct xs \<longrightarrow> distinct (order xs) \<and> set (order xs) = set xs)"

lemma ordered_names:
  assumes "some_order order" and "distinct ks"
  obtains ks' where "order (map nth_node ks) = map nth_node ks'" and "distinct ks'" and "set ks' = set ks"
proof -
  have "distinct (map nth_node ks)" using assms(2) by (simp add: distinct_map inj_on_def)
  with assms(1) have d: "distinct (order (map nth_node ks))" and s: "set (order (map nth_node ks)) = nth_node ` set ks"
    by (auto simp: some_order_def)
  let ?g = "inv nth_node"
  have g: "?g (nth_node k) = k" for k by (simp add: inv_f_f inj_on_def)
  have "map nth_node (map ?g (order (map nth_node ks))) = order (map nth_node ks)"
    using s g by (auto intro!: map_idI)
  moreover from this d have "distinct (map ?g (order (map nth_node ks)))" by (metis distinct_map)
  moreover have "set (map ?g (order (map nth_node ks))) = set ks" using s g by (auto simp: image_image)
  ultimately show ?thesis by (metis that)
qed

lemma cluster_batches_state:
  assumes "some_order order" and "0 < tot" and "1 \<le> j"
    and "cluster_state {0..<min j tot} addr tot m"
  shows "cluster_state {0..<tot} addr tot (cluster_batches order addr tot j m)"
  using assms
proof (induction order addr tot j m rule: cluster_batches.induct)
  case (1 order addr tot j m)
  show ?case
  proof (cases "j < tot")
    case True
    let ?e = "min (j + 10) tot"
    obtain ks where ks: "order (batch_names j ?e) = map nth_node ks" "distinct ks" "set ks = {j..?e - 1}"
      using ordered_names [OF "1.prems"(1), of "[j..?e - 1]"] by (auto simp: batch_names_nth)
    let ?m = "start_each (map nth_node ks) addr tot m"
    have "cluster_state ({0..<min j tot} \<union> set ks) addr tot ?m"
      using "1.prems" ks(2,3) True by (intro start_each_in_cluster) auto
    moreover have "{0..<min j tot} \<union> set ks = {0..<min (j + 10) tot}" using ks(3) True "1.prems"(3) by auto
    ultimately have "cluster_state {0..<?e} addr tot ?m" by simp
    then show ?thesis
      using "1.IH" [OF True refl refl] "1.prems" True ks(1)
      by (simp add: cluster_batches.simps [of order addr tot j m] Let_def)
  next
    case False
    then have "min j tot = tot" by simp
    with False "1.prems"(4) show ?thesis by (simp add: cluster_batches.simps [of order addr tot j m])
  qed
qed

lemma base_kept [simp]:
  "nm_basePort (snd (startNodeWithTotal i p b addr k m)) = nm_basePort m"
  "nm_basePort (start_each is addr k m) = nm_basePort m"
  "nm_basePort (cluster_batches order addr k j m) = nm_basePort m"
proof -
  show one: "nm_basePort (snd (startNodeWithTotal i p b addr k m)) = nm_basePort m" for i p b addr k m
    by (simp add: startNodeWithTotal_def Let_def)
  show each: "nm_basePort (start_each is addr k m) = nm_basePort m" for "is" addr k m
    by (induction "is" arbitrary: m) (simp_all add: one)
  show "nm_basePort (cluster_batches order addr k j m) = nm_basePort m"
    by (induction order addr k j m rule: cluster_batches.induct)
       (subst cluster_batches.simps, simp add: Let_def each)
qed

lemma cluster_node:
  assumes "cluster_state K addr tot m" and "k \<in> K"
  obtains nd where "node_of (nth_node k) m = Some nd" and "mn_ID nd = nth_node k" and "mn_IsPrimary nd = (k = 0)"
    and "mn_IsBootstrap nd = (k = 0)" and "mn_bootstrapAddr nd = (if k = 0 then '''' else addr)"
proof -
  have inv: "nm_inv m" and "mhas (nm_nodes m) (nth_node k)" using assms by (simp_all add: cluster_state_def)
  then obtain nd where nd: "node_of (nth_node k) m = Some nd" by (rule node_of_inv)
  moreover have "mn_ID nd = nth_node k"
    using inv nd by (rule node_of_ID)
  moreover have "mn_IsPrimary nd = (k = 0)" "mn_IsBootstrap nd = (k = 0)" "mn_bootstrapAddr nd = (if k = 0 then '''' else addr)"
    using assms(1) nd unfolding cluster_state_def by blast+
  ultimately show thesis by (rule that)
qed

lemma cluster_started:
  assumes "nm_inv m" and "some_order order" and "1 \<le> n"
    and "m' = startClusterAsync order (Inr peer) n (cluster_reset n m)"
  shows "cluster_state {0..<n} (bootstrap_address (nm_basePort m) peer) n m'"
    and "nm_clusterStatus m' = ClusterStatusRunning" and "\<not> nm_clusterLocked m'" and "nm_basePort m' = nm_basePort m"
proof -
  let ?r = "cluster_reset n m" and ?a = "bootstrap_address (nm_basePort m) peer"
  have "nm_inv ?r" using nm_step_evolves [OF nm_step.reset assms(1)] by (rule nm_evolves_inv)
  then have r: "cluster_state {} ?a n ?r"
    by (auto simp: cluster_state_def consecutive_def cluster_reset_def bij_betw_def node_of_def)
  have base: "nm_basePort ?r = nm_basePort m" by (simp add: cluster_reset_def)
  obtain m1 where m1: "startNodeWithTotal ''node0'' True True '''' n ?r = (None, m1)"
    and c1: "cluster_state {0} ?a n m1" and b1: "nm_basePort m1 = nm_basePort m"
    using start_in_cluster [OF r, of 0 True] assms(3) base by (auto simp: nth_node_0)
  obtain nd where nd: "node_of ''node0'' m1 = Some nd" using cluster_node [OF c1, of 0] by (metis nth_node_0 singletonI)
  then have port: "mn_Port nd = nm_basePort m" using c1 b1 by (simp add: cluster_state_def nth_node_0 port_of_def)
  let ?b = "cluster_batches order ?a n 1 m1"
  have "{0..<min 1 n} = {0}" using assms(3) by auto
  then have b: "cluster_state {0..<n} ?a n ?b"
    using cluster_batches_state [OF assms(2), of n 1 ?a m1] assms(3) c1 by simp
  have m': "m' = (notifyCluster ClusterStatusRunning n n (?b\<lparr>nm_clusterStatus := ClusterStatusRunning\<rparr>))
      \<lparr>nm_clusterLocked := False\<rparr>"
    using assms(4) m1 nd port by (simp add: startClusterAsync_def async_address_def async_finish_def)
  have same: "node_of i m' = node_of i ?b" "nm_nodes m' = nm_nodes ?b" "nm_basePort m' = nm_basePort ?b"
      "nm_totalNodes m' = nm_totalNodes ?b" "nm_heap m' = nm_heap ?b" "nm_next m' = nm_next ?b" for i
    by (simp_all add: m' node_of_def split: option.splits)
  have ports: "port_of m' = port_of ?b" by (simp add: port_of_def fun_eq_iff same)
  then have "consecutive m' = consecutive ?b" "nm_inv m' = nm_inv ?b" by (simp_all add: consecutive_def nm_inv_def same)
  with b show "cluster_state {0..<n} ?a n m'" by (simp add: cluster_state_def same ports)
  show "nm_basePort m' = nm_basePort m" using same(3) b1 by (simp add: base_kept)
  show "nm_clusterStatus m' = ClusterStatusRunning" "\<not> nm_clusterLocked m'" by (simp_all add: m')
qed

text \<open>
  Starting a cluster of \<open>n\<close> nodes gives, whatever the order in which the starts of a batch
  run and whatever nodes were there before, exactly the nodes \<open>node0\<close> to \<open>node(n-1)\<close>, on
  distinct consecutive ports from the base port on, all configured for \<open>n\<close> nodes; only
  \<open>node0\<close> is primary and bootstrap node and every other node is pointed at its address; the
  cluster is then running and can be started again.
\<close>

theorem cluster_start_is_uniform:
  assumes "nm_inv m" and "some_order order" and "1 \<le> n"
    and "m' = startClusterAsync order (Inr peer) n (cluster_reset n m)"
  shows "fset (fmdom (nm_nodes m')) = nth_node ` {0..<n} \<and> consecutive m' \<and> nm_totalNodes m' = n \<and>
    (\<forall>k \<in> {0..<n}. \<exists>nd. node_of (nth_node k) m' = Some nd \<and> mn_IsPrimary nd = (k = 0) \<and>
       mn_IsBootstrap nd = (k = 0) \<and>
       mn_bootstrapAddr nd = (if k = 0 then '''' else bootstrap_address (nm_basePort m) peer)) \<and>
    nm_clusterStatus m' = ClusterStatusRunning \<and> \<not> nm_clusterLocked m'"
proof -
  note c = cluster_started [OF assms]
  have "\<exists>nd. node_of (nth_node k) m' = Some nd \<and> mn_IsPrimary nd = (k = 0) \<and> mn_IsBootstrap nd = (k = 0) \<and>
      mn_bootstrapAddr nd = (if k = 0 then '''' else bootstrap_address (nm_basePort m) peer)" if "k \<in> {0..<n}" for k
    using cluster_node [OF c(1) that] by metis
  with c show ?thesis by (auto simp: cluster_state_def)
qed

theorem cluster_start_is_uniform_witness:
  "nm_totalNodes (startClusterAsync rev (Inr ''Qm'') 4 (cluster_reset 4 two_nodes)) = 4 \<and>
     fset (fmdom (nm_nodes (startClusterAsync rev (Inr ''Qm'') 4 (cluster_reset 4 two_nodes)))) = nth_node ` {0..<4}"
proof -
  have "nm_inv two_nodes"
    unfolding two_nodes_def using nm_step_evolves [OF nm_step.start first_failed_inv] by (rule nm_evolves_inv)
  moreover have "some_order rev" by (simp add: some_order_def)
  ultimately show ?thesis using cluster_start_is_uniform [of two_nodes rev 4 _ "''Qm''"] by simp
qed

section \<open>Nodes added one at a time\<close>

text \<open>A node is started and its process launched before anything else happens.\<close>

definition add_node :: "string \<Rightarrow> NodeManager \<Rightarrow> NodeManager" where
  "add_node i m =
     (let a = nm_next m
      in process_launch (Launched 0) a (process_begin a (snd (StartNode i False False '''' m))))"

lemma started_address:
  assumes "startNodeWithTotal i p b addr k m = (None, m')"
  shows "mget (nm_nodes m') i = Some (nm_next m)"
    and "\<exists>n. mget (nm_heap m') (nm_next m) = Some n \<and> mn_phase n = Spawned \<and> mn_ID n = i \<and> mn_bootstrapAddr n = addr \<and>
      (node_of i m = None \<longrightarrow> mn_Port n = nm_basePort m + golen (nm_nodes m) \<and> mn_APIPort n = nm_baseAPIPort m + golen (nm_nodes m))"
    and "nm_basePort m' = nm_basePort m" and "nm_baseAPIPort m' = nm_baseAPIPort m"
  using assms by (auto simp: startNodeWithTotal_def Let_def node_of_def split: if_splits option.splits)

text \<open>The network size and the ports a validator is started with.\<close>

definition launched_with :: "int \<Rightarrow> int \<Rightarrow> int \<Rightarrow> ManagedNode \<Rightarrow> bool" where
  "launched_with k port apiPort n \<longleftrightarrow> (\<exists>n0 m0. mn_args n = command_args n0 m0 \<and> nm_totalNodes m0 = k \<and>
     mn_Port n0 = port \<and> mn_APIPort n0 = apiPort)"

lemma other_address:
  assumes "nm_inv m" and "mget (nm_nodes m) i = Some a" and "j \<noteq> i"
  shows "mget (nm_nodes m) j \<noteq> Some a"
  using assms by (metis nm_inv_node option.inject)

lemma add_node_effect:
  assumes inv: "nm_inv m" and new: "\<not> mhas (nm_nodes m) i"
  shows "nm_inv (add_node i m)" and "golen (nm_nodes (add_node i m)) = golen (nm_nodes m) + 1"
    and "fset (fmdom (nm_nodes (add_node i m))) = insert i (fset (fmdom (nm_nodes m)))"
    and "\<exists>n. node_of i (add_node i m) = Some n \<and> launched_with (golen (nm_nodes m) + 1)
      (nm_basePort m + golen (nm_nodes m)) (nm_baseAPIPort m + golen (nm_nodes m)) n"
    and "nm_basePort (add_node i m) = nm_basePort m" and "nm_baseAPIPort (add_node i m) = nm_baseAPIPort m"
    and "j \<noteq> i \<Longrightarrow> node_of j (add_node i m) = node_of j m"
proof -
  let ?a = "nm_next m"
  have none: "node_of i m = None" using new node_of_dom by (cases "node_of i m") auto
  obtain m1 where m1: "startNodeWithTotal i False False '''' 0 m = (None, m1)"
    using start_fails_iff [of i False False "''''" 0 m] none
    by (cases "startNodeWithTotal i False False '''' 0 m") auto
  note s = start_success [OF inv m1 disjI1 [OF none]] and ad = started_address [OF m1]
  obtain n1 where n1: "mget (nm_heap m1) ?a = Some n1" "mn_phase n1 = Spawned"
    and ports: "mn_Port n1 = nm_basePort m + golen (nm_nodes m)" "mn_APIPort n1 = nm_baseAPIPort m + golen (nm_nodes m)"
    using ad(2) none by blast
  have i1: "nm_inv m1"
    using startNodeWithTotal_evolves [OF inv, of "(=)" i False False "''''" 0] m1 nm_evolves_inv by force
  have i2: "nm_inv (process_begin ?a m1)" using nm_step_evolves [OF nm_step.begun [OF n1] i1] by (rule nm_evolves_inv)
  obtain n2 where n2: "mget (nm_heap (process_begin ?a m1)) ?a = Some n2" "mn_phase n2 = Launching"
    using n1 by (simp add: process_begin_def change_heap)
  have add: "add_node i m = process_launch (Launched 0) ?a (process_begin ?a m1)"
    using m1 by (simp add: add_node_def StartNode_def Let_def)
  show "nm_inv (add_node i m)"
    unfolding add using nm_step_evolves [OF nm_step.launch [OF n2] i2] by (rule nm_evolves_inv)
  have nodes: "nm_nodes (add_node i m) = nm_nodes m1"
    using n2 by (simp add: add process_launch_def process_begin_def Let_def)
  show "fset (fmdom (nm_nodes (add_node i m))) = insert i (fset (fmdom (nm_nodes m)))" using nodes s(1) by simp
  have len: "golen (nm_nodes m1) = golen (nm_nodes m) + 1" using s(1) new by (simp add: golen_card)
  then show "golen (nm_nodes (add_node i m)) = golen (nm_nodes m) + 1" using nodes by simp
  obtain n where n: "mget (nm_heap (add_node i m)) ?a = Some n" "mn_args n = command_args n2 (process_begin ?a m1)"
    using n2 by (simp add: add process_launch_def change_heap Let_def)
  moreover have "mn_Port n2 = mn_Port n1" "mn_APIPort n2 = mn_APIPort n1" "nm_totalNodes (process_begin ?a m1) = nm_totalNodes m1"
    using n1 n2 by (auto simp: process_begin_def change_heap)
  ultimately show "\<exists>n. node_of i (add_node i m) = Some n \<and> launched_with (golen (nm_nodes m) + 1)
      (nm_basePort m + golen (nm_nodes m)) (nm_baseAPIPort m + golen (nm_nodes m)) n"
    using ad(1) nodes s(4) len ports by (auto simp: node_of_def launched_with_def)
  show "nm_basePort (add_node i m) = nm_basePort m" "nm_baseAPIPort (add_node i m) = nm_baseAPIPort m"
    using n2 ad(3,4) by (simp_all add: add process_launch_def process_begin_def Let_def)
  have "node_of j (add_node i m) = node_of j m1" if "j \<noteq> i"
    using other_address [OF i1 ad(1) that] nodes n1
    by (auto simp: node_of_def add process_launch_def process_begin_def change_heap Let_def split: option.splits)
  then show "node_of j (add_node i m) = node_of j m" if "j \<noteq> i" using s(3) that by simp
qed

lemma add_nodes:
  assumes "distinct is"
  shows "nm_inv (fold add_node is (NewNodeManager cfg)) \<and>
    fset (fmdom (nm_nodes (fold add_node is (NewNodeManager cfg)))) = set is \<and>
    nm_basePort (fold add_node is (NewNodeManager cfg)) = nm_basePort (NewNodeManager cfg) \<and>
    nm_baseAPIPort (fold add_node is (NewNodeManager cfg)) = nm_baseAPIPort (NewNodeManager cfg) \<and>
    (\<forall>k < length is. \<exists>n. node_of (is ! k) (fold add_node is (NewNodeManager cfg)) = Some n \<and>
       launched_with (int k + 1) (nm_basePort (NewNodeManager cfg) + int k) (nm_baseAPIPort (NewNodeManager cfg) + int k) n)"
    (is "_ \<and> _ \<and> _ \<and> _ \<and> (\<forall>k < length is. ?P is k)")
  using assms
proof (induction "is" rule: rev_induct)
  case (snoc i "is")
  let ?m = "fold add_node is (NewNodeManager cfg)"
  have ih: "nm_inv ?m" "fset (fmdom (nm_nodes ?m)) = set is" "nm_basePort ?m = nm_basePort (NewNodeManager cfg)"
    "nm_baseAPIPort ?m = nm_baseAPIPort (NewNodeManager cfg)" "\<And>k. k < length is \<Longrightarrow> ?P is k"
    using snoc by auto
  have new: "\<not> mhas (nm_nodes ?m) i" using ih(2) snoc.prems by auto
  note e = add_node_effect [OF ih(1) new]
  have len: "golen (nm_nodes ?m) = int (length is)" using ih(2) snoc.prems by (simp add: golen_card distinct_card)
  have "?P (is @ [i]) k" if "k < length (is @ [i])" for k
  proof (cases "k < length is")
    case True
    then have "is ! k \<noteq> i" using snoc.prems nth_mem by force
    with True ih(5) e(7) show ?thesis by (simp add: nth_append)
  next
    case False
    with that have "k = length is" by simp
    with e(4) len ih(3,4) show ?thesis by (simp add: nth_append)
  qed
  with e(1,3,5,6) ih show ?case by auto
qed (simp add: New_consecutive(2), simp add: NewNodeManager_def Let_def)

end
