(* ===== verification/Simulator.thy ===== *)
theory Simulator
  imports Go_Text
begin

text \<open>
  \<open>cmd/simulator/main.go\<close>: the stand-alone simulation of a validator network.

  The goroutines are the handlers of the nodes, the delayed deliveries of \<open>broadcast\<close> and the
  healing of partitions; they appear as steps: \<open>si_inFlight\<close> are the deliveries that sleep,
  \<open>si_unsent\<close> counts deliveries that put their message into a queue and have yet to count it.
  Random draws are arguments. Counters grow by at most one per delivered message and stay far
  below the bounds of \<open>int\<close>, so they do not wrap. Go panics for a negative number of nodes. The honest nodes, a list of pointers in the
  code, are indices into the list of nodes.
\<close>

section \<open>Model\<close>

record SimulatedMessage =
  ms_From :: string
  ms_To :: string
  ms_Type :: string
  ms_Payload :: string

record ConsensusEntry =
  ce_Sequence :: nat
  ce_TicketID :: string
  ce_Operation :: string

record SimulatedNode =
  sn_ID :: string
  sn_IsByzantine :: bool
  sn_IsPartitioned :: bool
  sn_MessageQueue :: "SimulatedMessage list"
  sn_TicketState :: "(string, string) gomap"
  sn_ConsensusLog :: "ConsensusEntry list"

record SimulationStats =
  st_TotalTickets :: int
  st_ValidatedTickets :: int
  st_ConsensusRounds :: int
  st_SuccessfulRounds :: int
  st_FailedRounds :: int
  st_MessagesSent :: int
  st_MessagesReceived :: int
  st_PartitionEvents :: int

record SimConfig =
  sg_NodeCount :: nat
  sg_ByzantineCount :: int
  sg_TicketCount :: int
  sg_PartitionEnabled :: bool

record Simulator =
  si_config :: SimConfig
  si_nodes :: "SimulatedNode list"
  si_honest :: "nat list"
  si_threshold :: int
  si_validations :: "(string, (string, unit) gomap) gomap"
  si_stats :: SimulationStats
  si_inFlight :: "(nat \<times> SimulatedMessage) list"
  si_unsent :: nat
  si_ticketIndex :: int
  si_round :: int

text \<open>The check of \<open>main\<close> on the number of Byzantine nodes.\<close>

definition byzantine_allowed :: "SimConfig \<Rightarrow> bool" where
  "byzantine_allowed cfg \<longleftrightarrow> \<not> sg_ByzantineCount cfg > (int (sg_NodeCount cfg) - 1) sdiv 3"

definition new_node :: "SimConfig \<Rightarrow> nat \<Rightarrow> SimulatedNode" where
  "new_node cfg i =
     \<lparr>sn_ID = ''node-'' @ FormatInt (int i), sn_IsByzantine = (int i < sg_ByzantineCount cfg),
      sn_IsPartitioned = False, sn_MessageQueue = [], sn_TicketState = fmempty, sn_ConsensusLog = []\<rparr>"

definition createNodes :: "SimConfig \<Rightarrow> SimulatedNode list" where
  "createNodes cfg = map (new_node cfg) [0..<sg_NodeCount cfg]"

definition honest_nodes :: "SimulatedNode list \<Rightarrow> nat list" where
  "honest_nodes nodes = filter (\<lambda>i. \<not> sn_IsByzantine (nodes ! i)) [0..<length nodes]"

definition quorum_threshold :: "nat list \<Rightarrow> int" where
  "quorum_threshold honest = (if 2 \<le> length honest then int (length honest) * 2 div 3 + 1 else 0)"

definition NewSimulator :: "SimConfig \<Rightarrow> Simulator" where
  "NewSimulator cfg =
     (let nodes = createNodes cfg; honest = honest_nodes nodes
      in \<lparr>si_config = cfg, si_nodes = nodes, si_honest = honest, si_threshold = quorum_threshold honest,
          si_validations = fmempty,
          si_stats = \<lparr>st_TotalTickets = sg_TicketCount cfg, st_ValidatedTickets = 0, st_ConsensusRounds = 0,
             st_SuccessfulRounds = 0, st_FailedRounds = 0, st_MessagesSent = 0, st_MessagesReceived = 0,
             st_PartitionEvents = 0\<rparr>,
          si_inFlight = [], si_unsent = 0, si_ticketIndex = 0, si_round = 0\<rparr>)"

subsection \<open>Messages\<close>

definition change_node :: "nat \<Rightarrow> (SimulatedNode \<Rightarrow> SimulatedNode) \<Rightarrow> Simulator \<Rightarrow> Simulator" where
  "change_node i f s = (if i < length (si_nodes s) then s\<lparr>si_nodes := (si_nodes s)[i := f (si_nodes s ! i)]\<rparr> else s)"

text \<open>\<open>lost i\<close> says that the message to the \<open>i\<close>-th node is lost.\<close>

definition sim_broadcast :: "(nat \<Rightarrow> bool) \<Rightarrow> SimulatedMessage \<Rightarrow> Simulator \<Rightarrow> Simulator" where
  "sim_broadcast lost msg s =
     s\<lparr>si_inFlight := si_inFlight s @
        map (\<lambda>i. (i, msg)) (filter (\<lambda>i. \<not> sn_IsPartitioned (si_nodes s ! i) \<and> \<not> lost i) [0..<length (si_nodes s)])\<rparr>"

text \<open>The primary is the first honest node, or the first node; with no nodes at all Go panics.\<close>

definition simulateTicketValidation :: "(nat \<Rightarrow> bool) \<Rightarrow> string \<Rightarrow> Simulator \<Rightarrow> Simulator option" where
  "simulateTicketValidation lost ticketID s =
     (case find (\<lambda>n. \<not> sn_IsByzantine n) (si_nodes s) of
        Some primary \<Rightarrow> Some (sim_broadcast lost
          \<lparr>ms_From = sn_ID primary, ms_To = ''all'', ms_Type = ''VALIDATE'', ms_Payload = ticketID\<rparr> s)
      | None \<Rightarrow>
          (case si_nodes s of
             [] \<Rightarrow> None
           | n # ns \<Rightarrow> Some (sim_broadcast lost
               \<lparr>ms_From = sn_ID n, ms_To = ''all'', ms_Type = ''VALIDATE'', ms_Payload = ticketID\<rparr> s)))"

text \<open>The \<open>k\<close>-th sleeping delivery wakes up; a full queue drops its message.\<close>

definition deliver :: "nat \<Rightarrow> Simulator \<Rightarrow> Simulator" where
  "deliver k s =
     (if k < length (si_inFlight s) then
        let (i, msg) = si_inFlight s ! k;
            s1 = s\<lparr>si_inFlight := take k (si_inFlight s) @ drop (Suc k) (si_inFlight s)\<rparr>
        in if i < length (si_nodes s) \<and> length (sn_MessageQueue (si_nodes s ! i)) < 100
           then (change_node i (\<lambda>n. n\<lparr>sn_MessageQueue := sn_MessageQueue n @ [msg]\<rparr>) s1)
                  \<lparr>si_unsent := si_unsent s + 1\<rparr>
           else s1
      else s)"

definition count_delivery :: "Simulator \<Rightarrow> Simulator" where
  "count_delivery s =
     (case si_unsent s of
        0 \<Rightarrow> s
      | Suc k \<Rightarrow> s\<lparr>si_unsent := k, si_stats := (si_stats s)\<lparr>st_MessagesSent := st_MessagesSent (si_stats s) + 1\<rparr>\<rparr>)"

text \<open>A Byzantine node draws a coin: it stores a conflicting state or does nothing.\<close>

definition handleByzantineNode :: "bool \<Rightarrow> SimulatedMessage \<Rightarrow> SimulatedNode \<Rightarrow> SimulatedNode" where
  "handleByzantineNode coin msg n =
     (if coin then n\<lparr>sn_TicketState := fmupd (ms_Payload msg) ''INVALID'' (sn_TicketState n)\<rparr> else n)"

definition handleHonestNode :: "SimulatedMessage \<Rightarrow> SimulatedNode \<Rightarrow> SimulatedNode" where
  "handleHonestNode msg n =
     (if ms_Type msg = ''VALIDATE'' then
        n\<lparr>sn_TicketState := fmupd (ms_Payload msg) ''VALIDATED'' (sn_TicketState n),
          sn_ConsensusLog := sn_ConsensusLog n @
            [\<lparr>ce_Sequence = length (sn_ConsensusLog n), ce_TicketID = ms_Payload msg, ce_Operation = ''VALIDATE''\<rparr>]\<rparr>
      else n)"

text \<open>One message of \<open>handleNodeMessages\<close>.\<close>

definition handle_message :: "bool \<Rightarrow> nat \<Rightarrow> Simulator \<Rightarrow> Simulator" where
  "handle_message coin i s =
     (if i < length (si_nodes s) then
        case sn_MessageQueue (si_nodes s ! i) of
          [] \<Rightarrow> s
        | msg # q \<Rightarrow>
            change_node i
              (\<lambda>n. let n' = n\<lparr>sn_MessageQueue := q\<rparr>
                   in if sn_IsByzantine n' then handleByzantineNode coin msg n' else handleHonestNode msg n')
              (s\<lparr>si_stats := (si_stats s)\<lparr>st_MessagesReceived := st_MessagesReceived (si_stats s) + 1\<rparr>\<rparr>)
      else s)"

subsection \<open>Partitions\<close>

definition partition_size :: "Simulator \<Rightarrow> nat" where
  "partition_size s = length (si_nodes s) div 3"

definition set_partitioned :: "bool \<Rightarrow> nat \<Rightarrow> SimulatedNode list \<Rightarrow> SimulatedNode list" where
  "set_partitioned b k nodes =
     map (\<lambda>n. n\<lparr>sn_IsPartitioned := b\<rparr>) (take k nodes) @ drop k nodes"

definition simulateNetworkPartition :: "Simulator \<Rightarrow> Simulator" where
  "simulateNetworkPartition s =
     s\<lparr>si_stats := (si_stats s)\<lparr>st_PartitionEvents := st_PartitionEvents (si_stats s) + 1\<rparr>,
       si_nodes := set_partitioned True (partition_size s) (si_nodes s)\<rparr>"

definition heal_partition :: "Simulator \<Rightarrow> Simulator" where
  "heal_partition s = s\<lparr>si_nodes := set_partitioned False (partition_size s) (si_nodes s)\<rparr>"

subsection \<open>Statistics\<close>

fun mark_tickets :: "string \<Rightarrow> string list \<Rightarrow> (string, (string, unit) gomap) gomap \<Rightarrow> (string, (string, unit) gomap) gomap" where
  "mark_tickets nid [] m = m"
| "mark_tickets nid (t # ts) m = mark_tickets nid ts (vote t nid () m)"

fun mark_nodes :: "SimulatedNode list \<Rightarrow> (string, (string, unit) gomap) gomap \<Rightarrow> (string, (string, unit) gomap) gomap" where
  "mark_nodes [] m = m"
| "mark_nodes (n # ns) m = mark_nodes ns (mark_tickets (sn_ID n) (keys (sn_TicketState n)) m)"

definition updateStats :: "int \<Rightarrow> Simulator \<Rightarrow> Simulator" where
  "updateStats rnd s =
     (let st = (si_stats s)\<lparr>st_ConsensusRounds := rnd\<rparr>;
          s1 = s\<lparr>si_stats := st\<rparr>;
          s2 = (if 2 \<le> length (si_honest s) then
                  let validations = mark_nodes (map ((!) (si_nodes s)) (si_honest s)) (si_validations s);
                      successful = int (length (filter (\<lambda>(t, vs). si_threshold s \<le> golen vs) (entries validations)))
                  in s1\<lparr>si_validations := validations,
                        si_stats := st\<lparr>st_SuccessfulRounds := successful, st_FailedRounds := rnd - successful\<rparr>\<rparr>
                else s1);
          validated = sum_list (map (\<lambda>n. golen (sn_TicketState n)) (si_nodes s))
      in if 0 < length (si_nodes s)
         then s2\<lparr>si_stats := (si_stats s2)\<lparr>st_ValidatedTickets := validated sdiv int (length (si_nodes s))\<rparr>\<rparr>
         else s2)"

text \<open>
  A turn of the loop of \<open>Run\<close> on a tick of the clock: \<open>None\<close> for the panic without nodes, and
  whether the loop ends. \<open>timedOut\<close> says that the simulation time is over; \<open>split_net\<close> that a
  partition is drawn.
\<close>

definition run_tick :: "bool \<Rightarrow> bool \<Rightarrow> (nat \<Rightarrow> bool) \<Rightarrow> Simulator \<Rightarrow> (bool \<times> Simulator) option" where
  "run_tick timedOut split_net lost s =
     (if sg_TicketCount (si_config s) \<le> si_ticketIndex s then Some (True, updateStats (si_round s) s)
      else if timedOut then Some (True, s)
      else
        case simulateTicketValidation lost (''ticket-'' @ FormatInt (si_ticketIndex s)) s of
          None \<Rightarrow> None
        | Some s1 \<Rightarrow>
            let s2 = s1\<lparr>si_ticketIndex := si_ticketIndex s1 + 1, si_round := si_round s1 + 1\<rparr>;
                s3 = (if sg_PartitionEnabled (si_config s2) \<and> split_net then simulateNetworkPartition s2 else s2)
            in Some (False, updateStats (si_round s3) s3))"

subsection \<open>Output\<close>

text \<open>The progress report of \<open>Run\<close>, and when a turn of the loop prints one.\<close>

definition progress_text :: "Simulator \<Rightarrow> string" where
  "progress_text s =
     CHR 0x0D # ''Progress: '' @ FormatInt (si_ticketIndex s) @ ''/'' @ FormatInt (sg_TicketCount (si_config s)) @
     '' tickets | Rounds: '' @ FormatInt (st_ConsensusRounds (si_stats s)) @
     '' | Success: '' @ FormatInt (st_SuccessfulRounds (si_stats s)) @
     '' | Failed: '' @ FormatInt (st_FailedRounds (si_stats s))"

text \<open>\<open>rateText\<close> is the success rate printed with two decimals, or \<open>NaN\<close> without a round.\<close>

definition result_lines :: "string \<Rightarrow> SimulationStats \<Rightarrow> string list" where
  "result_lines rateText st =
     [''Total Tickets: '' @ FormatInt (st_TotalTickets st),
      ''Validated Tickets: '' @ FormatInt (st_ValidatedTickets st),
      ''Consensus Rounds: '' @ FormatInt (st_ConsensusRounds st),
      ''Successful Rounds: '' @ FormatInt (st_SuccessfulRounds st),
      ''Failed Rounds: '' @ FormatInt (st_FailedRounds st),
      ''Success Rate: '' @ rateText @ ''%'',
      ''Messages Sent: '' @ FormatInt (st_MessagesSent st),
      ''Messages Received: '' @ FormatInt (st_MessagesReceived st),
      ''Partition Events: '' @ FormatInt (st_PartitionEvents st)]"

definition PrintResults :: "string \<Rightarrow> Simulator \<Rightarrow> string" where
  "PrintResults rateText s =
     concat (map (\<lambda>l. l @ [CHR 0x0A])
       (['''', '''', ''=== Simulation Results ===''] @ result_lines rateText (si_stats s) @ ['''']))"

text \<open>
  What a tick prints: at its end the loop reports and announces the end, after every tenth
  round and the last one it reports.
\<close>

definition tick_text :: "bool \<Rightarrow> bool \<Rightarrow> Simulator \<Rightarrow> string" where
  "tick_text timedOut over s =
     (if over then
        if timedOut \<and> si_ticketIndex s < sg_TicketCount (si_config s)
        then CHR 0x0A # ''Simulation timed out'' @ [CHR 0x0A]
        else progress_text s @ CHR 0x0A # ''All tickets processed'' @ [CHR 0x0A]
      else if si_round s smod 10 = 0 \<or> si_round s = sg_TicketCount (si_config s) then progress_text s
      else '''')"

section \<open>The simulation in steps\<close>

inductive sim_step :: "Simulator \<Rightarrow> Simulator \<Rightarrow> bool" where
  tick: "run_tick timedOut c lost s = Some (over, s') \<Longrightarrow> sim_step s s'"
| woken: "sim_step s (deliver k s)"
| counted: "sim_step s (count_delivery s)"
| handled: "sim_step s (handle_message coin i s)"
| healed: "sim_step s (heal_partition s)"

definition sim_ticket :: "int \<Rightarrow> string" where "sim_ticket j = ''ticket-'' @ FormatInt j"

definition tickets_upto :: "int \<Rightarrow> string set" where "tickets_upto k = sim_ticket ` {0..<k}"

definition node_tickets :: "SimulatedNode \<Rightarrow> string set" where "node_tickets n = fset (fmdom (sn_TicketState n))"

text \<open>
  What every step keeps: identities and roles of the nodes, that nodes only know tickets that
  were proposed, that validations were seen at the nodes they name, and that every message
  counted as received was put into a queue.
\<close>

definition node_fixed :: "SimConfig \<Rightarrow> nat \<Rightarrow> SimulatedNode \<Rightarrow> bool" where
  "node_fixed cfg i n \<longleftrightarrow> sn_ID n = ''node-'' @ FormatInt (int i) \<and> sn_IsByzantine n = (int i < sg_ByzantineCount cfg)"

definition sim_inv :: "Simulator \<Rightarrow> bool" where
  "sim_inv s \<longleftrightarrow> length (si_nodes s) = sg_NodeCount (si_config s) \<and>
     (\<forall>i < length (si_nodes s). node_fixed (si_config s) i (si_nodes s ! i)) \<and>
     si_honest s = honest_nodes (si_nodes s) \<and> si_threshold s = quorum_threshold (si_honest s) \<and>
     0 \<le> si_ticketIndex s \<and> si_round s = si_ticketIndex s \<and>
     (\<forall>n \<in> set (si_nodes s). node_tickets n \<subseteq> tickets_upto (si_ticketIndex s) \<and>
        (\<forall>m \<in> set (sn_MessageQueue n). ms_Payload m \<in> tickets_upto (si_ticketIndex s))) \<and>
     (\<forall>(i, m) \<in> set (si_inFlight s). ms_Payload m \<in> tickets_upto (si_ticketIndex s)) \<and>
     (\<forall>t. fset (fmdom (inner (si_validations s) t)) \<subseteq>
        {sn_ID (si_nodes s ! i) | i. i \<in> set (si_honest s) \<and> t \<in> node_tickets (si_nodes s ! i)})"

lemma honest_nodes_less: "i \<in> set (honest_nodes nodes) \<Longrightarrow> i < length nodes"
  by (simp add: honest_nodes_def)

lemma honest_nodes_cong:
  assumes "length ns' = length ns" and "\<And>i. i < length ns \<Longrightarrow> sn_IsByzantine (ns' ! i) = sn_IsByzantine (ns ! i)"
  shows "honest_nodes ns' = honest_nodes ns"
  unfolding honest_nodes_def using assms by (intro filter_cong) auto

text \<open>A step that changes the nodes one by one, keeping what is fixed and only adding tickets.\<close>

lemma sim_inv_nodes:
  assumes inv: "sim_inv s" and len: "length ns = length (si_nodes s)"
    and nodes: "\<And>i. i < length (si_nodes s) \<Longrightarrow> sn_ID (ns ! i) = sn_ID (si_nodes s ! i) \<and>
      sn_IsByzantine (ns ! i) = sn_IsByzantine (si_nodes s ! i) \<and>
      node_tickets (si_nodes s ! i) \<subseteq> node_tickets (ns ! i) \<and>
      node_tickets (ns ! i) \<subseteq> tickets_upto (si_ticketIndex s) \<and>
      (\<forall>m \<in> set (sn_MessageQueue (ns ! i)). ms_Payload m \<in> tickets_upto (si_ticketIndex s))"
  shows "sim_inv (s\<lparr>si_nodes := ns\<rparr>)"
proof -
  have h: "honest_nodes ns = si_honest s"
    using inv honest_nodes_cong [OF len] nodes by (simp add: sim_inv_def)
  have "fset (fmdom (inner (si_validations s) t)) \<subseteq> {sn_ID (ns ! i) | i. i \<in> set (si_honest s) \<and> t \<in> node_tickets (ns ! i)}" for t
  proof
    fix x assume "x \<in> fset (fmdom (inner (si_validations s) t))"
    then obtain i where i: "x = sn_ID (si_nodes s ! i)" "i \<in> set (si_honest s)" "t \<in> node_tickets (si_nodes s ! i)"
      using inv unfolding sim_inv_def by blast
    then have "i < length (si_nodes s)" using inv honest_nodes_less [of i "si_nodes s"] by (simp add: sim_inv_def)
    with i nodes show "x \<in> {sn_ID (ns ! i) | i. i \<in> set (si_honest s) \<and> t \<in> node_tickets (ns ! i)}" by force
  qed
  moreover have "node_fixed (si_config s) i (ns ! i)" if "i < length ns" for i
    using that nodes inv len by (simp add: sim_inv_def node_fixed_def)
  moreover have "node_tickets n \<subseteq> tickets_upto (si_ticketIndex s) \<and>
      (\<forall>m \<in> set (sn_MessageQueue n). ms_Payload m \<in> tickets_upto (si_ticketIndex s))" if "n \<in> set ns" for n
    using that nodes len by (auto simp: in_set_conv_nth)
  ultimately show ?thesis using inv h len by (simp add: sim_inv_def)
qed

lemma tickets_upto_mono: "k \<le> k' \<Longrightarrow> tickets_upto k \<subseteq> tickets_upto k'"
  by (auto simp: tickets_upto_def)

lemma sim_inv_nth:
  assumes "sim_inv s" and "i < length (si_nodes s)"
  shows "node_tickets (si_nodes s ! i) \<subseteq> tickets_upto (si_ticketIndex s)"
    and "\<forall>m \<in> set (sn_MessageQueue (si_nodes s ! i)). ms_Payload m \<in> tickets_upto (si_ticketIndex s)"
  using assms by (auto simp: sim_inv_def)

lemma change_node_inv:
  assumes inv: "sim_inv s"
    and "i < length (si_nodes s) \<Longrightarrow> sn_ID (f (si_nodes s ! i)) = sn_ID (si_nodes s ! i) \<and>
      sn_IsByzantine (f (si_nodes s ! i)) = sn_IsByzantine (si_nodes s ! i) \<and>
      node_tickets (si_nodes s ! i) \<subseteq> node_tickets (f (si_nodes s ! i)) \<and>
      node_tickets (f (si_nodes s ! i)) \<subseteq> tickets_upto (si_ticketIndex s) \<and>
      (\<forall>m \<in> set (sn_MessageQueue (f (si_nodes s ! i))). ms_Payload m \<in> tickets_upto (si_ticketIndex s))"
  shows "sim_inv (change_node i f s)"
proof (cases "i < length (si_nodes s)")
  case True
  have "sim_inv (s\<lparr>si_nodes := (si_nodes s)[i := f (si_nodes s ! i)]\<rparr>)"
    using inv
  proof (rule sim_inv_nodes)
    fix j assume "j < length (si_nodes s)"
    then show "sn_ID ((si_nodes s)[i := f (si_nodes s ! i)] ! j) = sn_ID (si_nodes s ! j) \<and>
        sn_IsByzantine ((si_nodes s)[i := f (si_nodes s ! i)] ! j) = sn_IsByzantine (si_nodes s ! j) \<and>
        node_tickets (si_nodes s ! j) \<subseteq> node_tickets ((si_nodes s)[i := f (si_nodes s ! i)] ! j) \<and>
        node_tickets ((si_nodes s)[i := f (si_nodes s ! i)] ! j) \<subseteq> tickets_upto (si_ticketIndex s) \<and>
        (\<forall>m \<in> set (sn_MessageQueue ((si_nodes s)[i := f (si_nodes s ! i)] ! j)).
           ms_Payload m \<in> tickets_upto (si_ticketIndex s))"
      using assms(2) [OF True] sim_inv_nth [OF inv, of j] by (cases "i = j") simp_all
  qed simp
  with True show ?thesis by (simp add: change_node_def)
qed (use inv in \<open>simp add: change_node_def\<close>)

lemma set_partitioned_nth [simp]: "length (set_partitioned b k ns) = length ns"
  "i < length ns \<Longrightarrow> set_partitioned b k ns ! i = (if i < k then (ns ! i)\<lparr>sn_IsPartitioned := b\<rparr> else ns ! i)"
  by (auto simp: set_partitioned_def nth_append)

lemma set_partitioned_inv:
  assumes "sim_inv s"
  shows "sim_inv (s\<lparr>si_nodes := set_partitioned b k (si_nodes s)\<rparr>)"
  using assms sim_inv_nth [OF assms] by (intro sim_inv_nodes) (auto simp: node_tickets_def)

lemma sim_inv_stats [simp]:
  "sim_inv (s\<lparr>si_stats := x\<rparr>) = sim_inv s" "sim_inv (s\<lparr>si_unsent := u\<rparr>) = sim_inv s"
  by (simp_all add: sim_inv_def)

section \<open>Every step keeps the invariant\<close>

lemma inner_mark_tickets:
  "fset (fmdom (inner (mark_tickets nid ts m) t)) = fset (fmdom (inner m t)) \<union> (if t \<in> set ts then {nid} else {})"
  by (induction ts arbitrary: m) auto

lemma inner_mark_nodes:
  "fset (fmdom (inner (mark_nodes ns m) t)) = fset (fmdom (inner m t)) \<union> {sn_ID n | n. n \<in> set ns \<and> t \<in> node_tickets n}"
  by (induction ns arbitrary: m) (auto simp: inner_mark_tickets node_tickets_def)

lemma updateStats_fields [simp]:
  "si_nodes (updateStats r s) = si_nodes s" "si_honest (updateStats r s) = si_honest s"
  "si_config (updateStats r s) = si_config s" "si_ticketIndex (updateStats r s) = si_ticketIndex s"
  "si_round (updateStats r s) = si_round s" "si_inFlight (updateStats r s) = si_inFlight s"
  "si_threshold (updateStats r s) = si_threshold s"
  by (simp_all add: updateStats_def Let_def)

lemma updateStats_validations:
  "si_validations (updateStats r s) =
     (if 2 \<le> length (si_honest s) then mark_nodes (map ((!) (si_nodes s)) (si_honest s)) (si_validations s)
      else si_validations s)"
  by (simp add: updateStats_def Let_def)

lemma updateStats_inv:
  assumes "sim_inv s"
  shows "sim_inv (updateStats r s)"
proof -
  have "fset (fmdom (inner (si_validations (updateStats r s)) t)) \<subseteq>
      {sn_ID (si_nodes s ! i) | i. i \<in> set (si_honest s) \<and> t \<in> node_tickets (si_nodes s ! i)}" for t
  proof -
    have "fset (fmdom (inner (si_validations s) t)) \<subseteq>
        {sn_ID (si_nodes s ! i) | i. i \<in> set (si_honest s) \<and> t \<in> node_tickets (si_nodes s ! i)}"
      using assms unfolding sim_inv_def by blast
    then show ?thesis by (auto simp: updateStats_validations inner_mark_nodes)
  qed
  then show ?thesis using assms unfolding sim_inv_def updateStats_fields by blast
qed

lemma sim_broadcast_fields [simp]:
  "si_nodes (sim_broadcast l m s) = si_nodes s" "si_ticketIndex (sim_broadcast l m s) = si_ticketIndex s"
  "si_round (sim_broadcast l m s) = si_round s" "si_config (sim_broadcast l m s) = si_config s"
  "si_honest (sim_broadcast l m s) = si_honest s" "si_threshold (sim_broadcast l m s) = si_threshold s"
  "si_validations (sim_broadcast l m s) = si_validations s"
  by (simp_all add: sim_broadcast_def)

lemma propose_inv:
  assumes inv: "sim_inv s" and "ms_Payload m = sim_ticket (si_ticketIndex s)"
  shows "sim_inv ((sim_broadcast l m s)\<lparr>si_ticketIndex := si_ticketIndex s + 1, si_round := si_round s + 1\<rparr>)"
proof -
  let ?k = "si_ticketIndex s"
  have up: "tickets_upto ?k \<subseteq> tickets_upto (?k + 1)" by (rule tickets_upto_mono) simp
  have new: "sim_ticket ?k \<in> tickets_upto (?k + 1)" using inv by (auto simp: tickets_upto_def sim_inv_def)
  have "\<forall>n \<in> set (si_nodes s). node_tickets n \<subseteq> tickets_upto (?k + 1) \<and>
      (\<forall>m \<in> set (sn_MessageQueue n). ms_Payload m \<in> tickets_upto (?k + 1))"
    using inv up unfolding sim_inv_def by blast
  moreover have "\<forall>(i, m') \<in> set (si_inFlight (sim_broadcast l m s)). ms_Payload m' \<in> tickets_upto (?k + 1)"
    using inv up new assms(2) by (auto simp: sim_inv_def sim_broadcast_def)
  moreover have "\<forall>t. fset (fmdom (inner (si_validations s) t)) \<subseteq>
        {sn_ID (si_nodes s ! i) | i. i \<in> set (si_honest s) \<and> t \<in> node_tickets (si_nodes s ! i)}"
    using inv unfolding sim_inv_def by blast
  moreover have "length (si_nodes s) = sg_NodeCount (si_config s)" "si_honest s = honest_nodes (si_nodes s)"
    "\<forall>i < length (si_nodes s). node_fixed (si_config s) i (si_nodes s ! i)"
    "si_threshold s = quorum_threshold (si_honest s)" "0 \<le> ?k" "si_round s = ?k"
    using inv unfolding sim_inv_def by blast+
  ultimately show ?thesis unfolding sim_inv_def by simp
qed

lemma simulateTicketValidation_broadcasts:
  assumes "simulateTicketValidation lost t s = Some s'"
  obtains m where "ms_Payload m = t" and "s' = sim_broadcast lost m s"
proof (cases "find (\<lambda>n. \<not> sn_IsByzantine n) (si_nodes s)")
  case None
  with assms obtain n ns where "si_nodes s = n # ns" by (cases "si_nodes s") (auto simp: simulateTicketValidation_def)
  with None assms show ?thesis
    by (intro that [of "\<lparr>ms_From = sn_ID n, ms_To = ''all'', ms_Type = ''VALIDATE'', ms_Payload = t\<rparr>"])
       (simp_all add: simulateTicketValidation_def)
next
  case (Some n)
  with assms show ?thesis
    by (intro that [of "\<lparr>ms_From = sn_ID n, ms_To = ''all'', ms_Type = ''VALIDATE'', ms_Payload = t\<rparr>"])
       (simp_all add: simulateTicketValidation_def)
qed

lemma run_tick_inv:
  assumes "run_tick timedOut c lost s = Some (over, s')" and inv: "sim_inv s"
  shows "sim_inv s'"
proof -
  consider "s' = updateStats (si_round s) s" | "s' = s"
    | m s2 where "ms_Payload m = sim_ticket (si_ticketIndex s)"
      "s2 = (sim_broadcast lost m s)\<lparr>si_ticketIndex := si_ticketIndex s + 1, si_round := si_round s + 1\<rparr>"
      "s' = updateStats (si_round (if sg_PartitionEnabled (si_config s2) \<and> c then simulateNetworkPartition s2 else s2))
         (if sg_PartitionEnabled (si_config s2) \<and> c then simulateNetworkPartition s2 else s2)"
  proof (cases "sg_TicketCount (si_config s) \<le> si_ticketIndex s \<or> timedOut")
    case True
    with assms(1) that(1,2) show ?thesis by (auto simp: run_tick_def split: if_splits)
  next
    case False
    with assms(1) obtain s1 where s1: "simulateTicketValidation lost (sim_ticket (si_ticketIndex s)) s = Some s1"
      and s': "s' = (let s2 = s1\<lparr>si_ticketIndex := si_ticketIndex s1 + 1, si_round := si_round s1 + 1\<rparr>;
                s3 = (if sg_PartitionEnabled (si_config s2) \<and> c then simulateNetworkPartition s2 else s2) in updateStats (si_round s3) s3)"
      by (auto simp: run_tick_def sim_ticket_def Let_def split: option.splits)
    from s1 obtain m where "ms_Payload m = sim_ticket (si_ticketIndex s)" "s1 = sim_broadcast lost m s"
      by (rule simulateTicketValidation_broadcasts)
    with s' that(3) show ?thesis by (simp add: Let_def)
  qed
  then show ?thesis
  proof cases
    case (3 m s2)
    have s2: "sim_inv s2" unfolding 3(2) using inv 3(1) by (rule propose_inv)
    have "sim_inv (simulateNetworkPartition s2)"
      using set_partitioned_inv [of "s2\<lparr>si_stats := (si_stats s2)\<lparr>st_PartitionEvents := st_PartitionEvents (si_stats s2) + 1\<rparr>\<rparr>"] s2
      by (simp add: simulateNetworkPartition_def)
    with s2 show ?thesis unfolding 3(3) by (simp add: updateStats_inv)
  qed (use inv updateStats_inv in simp_all)
qed

lemma sim_inv_inFlight:
  assumes "sim_inv s" and "set q \<subseteq> set (si_inFlight s)"
  shows "sim_inv (s\<lparr>si_inFlight := q\<rparr>)"
proof -
  have "\<forall>(i, m) \<in> set q. ms_Payload m \<in> tickets_upto (si_ticketIndex s)"
    using assms unfolding sim_inv_def by blast
  moreover have "\<forall>t. fset (fmdom (inner (si_validations s) t)) \<subseteq>
        {sn_ID (si_nodes s ! i) | i. i \<in> set (si_honest s) \<and> t \<in> node_tickets (si_nodes s ! i)}"
    using assms(1) unfolding sim_inv_def by blast
  ultimately show ?thesis using assms(1) unfolding sim_inv_def by simp
qed

lemma deliver_inv:
  assumes inv: "sim_inv s"
  shows "sim_inv (deliver k s)"
proof (cases "k < length (si_inFlight s)")
  case True
  obtain i msg where f: "si_inFlight s ! k = (i, msg)" by fastforce
  have p: "ms_Payload msg \<in> tickets_upto (si_ticketIndex s)"
    using inv nth_mem [OF True] f by (auto simp: sim_inv_def)
  let ?s1 = "s\<lparr>si_inFlight := take k (si_inFlight s) @ drop (Suc k) (si_inFlight s)\<rparr>"
  have s1: "sim_inv ?s1"
    using inv by (rule sim_inv_inFlight) (auto dest: in_set_takeD in_set_dropD)
  have "sim_inv (change_node i (\<lambda>n. n\<lparr>sn_MessageQueue := sn_MessageQueue n @ [msg]\<rparr>) ?s1)"
    using s1 p sim_inv_nth [OF inv, of i] by (intro change_node_inv) (auto simp: node_tickets_def)
  with s1 True f show ?thesis by (simp add: deliver_def Let_def)
qed (use inv in \<open>simp add: deliver_def\<close>)

lemma handle_message_inv:
  assumes inv: "sim_inv s"
  shows "sim_inv (handle_message coin i s)"
proof (cases "i < length (si_nodes s) \<and> sn_MessageQueue (si_nodes s ! i) \<noteq> []")
  case True
  then obtain msg q where q: "sn_MessageQueue (si_nodes s ! i) = msg # q" by (cases "sn_MessageQueue (si_nodes s ! i)") auto
  note nth = sim_inv_nth [OF inv, of i]
  have p: "ms_Payload msg \<in> tickets_upto (si_ticketIndex s)" "\<forall>m \<in> set q. ms_Payload m \<in> tickets_upto (si_ticketIndex s)"
    using nth True q by auto
  let ?s1 = "s\<lparr>si_stats := (si_stats s)\<lparr>st_MessagesReceived := st_MessagesReceived (si_stats s) + 1\<rparr>\<rparr>"
  let ?f = "\<lambda>n. let n' = n\<lparr>sn_MessageQueue := q\<rparr>
      in if sn_IsByzantine n' then handleByzantineNode coin msg n' else handleHonestNode msg n'"
  have "sim_inv (change_node i ?f ?s1)"
    using inv p nth True
    by (intro change_node_inv) (auto simp: Let_def handleByzantineNode_def handleHonestNode_def node_tickets_def)
  then show ?thesis using True q by (simp add: handle_message_def)
qed (use inv in \<open>auto simp: handle_message_def split: list.splits\<close>)

lemma sim_step_inv: "sim_step s s' \<Longrightarrow> sim_inv s \<Longrightarrow> sim_inv s'"
proof (induction rule: sim_step.induct)
  case (tick timedOut c lost s over s')
  then show ?case by (rule run_tick_inv)
next
  case (counted s)
  then show ?case by (simp add: count_delivery_def split: nat.splits)
qed (simp_all add: deliver_inv handle_message_inv heal_partition_def set_partitioned_inv)

lemma New_inv: "sim_inv (NewSimulator cfg)"
  by (auto simp: sim_inv_def NewSimulator_def createNodes_def Let_def node_fixed_def new_node_def node_tickets_def)

lemma sim_reachable_inv: "sim_step\<^sup>*\<^sup>* (NewSimulator cfg) s \<Longrightarrow> sim_inv s"
  by (induction rule: rtranclp_induct) (auto intro: New_inv sim_step_inv)

section \<open>The incremental statistics\<close>

text \<open>A ticket has a quorum when enough honest nodes hold it: the count taken from scratch.\<close>

definition honest_holders :: "Simulator \<Rightarrow> string \<Rightarrow> nat set" where
  "honest_holders s t = {i \<in> set (si_honest s). t \<in> node_tickets (si_nodes s ! i)}"

definition quorum_tickets :: "Simulator \<Rightarrow> string set" where
  "quorum_tickets s = {t. si_threshold s \<le> int (card (honest_holders s t))}"

lemma finite_holders [simp]: "finite (honest_holders s t)"
  by (simp add: honest_holders_def)

lemma sim_inv_honest:
  assumes "sim_inv s" and "i \<in> set (si_honest s)"
  shows "i < length (si_nodes s)" and "sn_ID (si_nodes s ! i) = ''node-'' @ FormatInt (int i)"
    and "sg_ByzantineCount (si_config s) \<le> int i"
proof -
  have i: "i \<in> set (honest_nodes (si_nodes s))" using assms unfolding sim_inv_def by simp
  then show l: "i < length (si_nodes s)" by (rule honest_nodes_less)
  then have f: "node_fixed (si_config s) i (si_nodes s ! i)" using assms(1) unfolding sim_inv_def by blast
  then show "sn_ID (si_nodes s ! i) = ''node-'' @ FormatInt (int i)" by (simp add: node_fixed_def)
  show "sg_ByzantineCount (si_config s) \<le> int i" using f i by (simp add: node_fixed_def honest_nodes_def)
qed

lemma golen_validations:
  assumes inv: "sim_inv s" and two: "2 \<le> length (si_honest s)"
  shows "golen (inner (si_validations (updateStats r s)) t) = int (card (honest_holders s t))"
proof -
  have "fset (fmdom (inner (si_validations s) t)) \<subseteq>
      {sn_ID (si_nodes s ! i) | i. i \<in> set (si_honest s) \<and> t \<in> node_tickets (si_nodes s ! i)}"
    using inv unfolding sim_inv_def by blast
  then have "fset (fmdom (inner (si_validations (updateStats r s)) t)) = (\<lambda>i. sn_ID (si_nodes s ! i)) ` honest_holders s t"
    using two by (auto simp: updateStats_validations inner_mark_nodes honest_holders_def)
  moreover have "inj_on (\<lambda>i. sn_ID (si_nodes s ! i)) (honest_holders s t)"
    using sim_inv_honest(2) [OF inv] by (auto simp: inj_on_def honest_holders_def)
  ultimately show ?thesis by (simp add: golen_def fcard.rep_eq card_image)
qed

lemma quorum_threshold_pos: "2 \<le> length hs \<Longrightarrow> 0 < quorum_threshold hs"
  by (simp add: quorum_threshold_def)

lemma length_filter_entries:
  "length (filter (\<lambda>(t, v). P v) (entries m)) = card {t. \<exists>v. mget m t = Some v \<and> P v}"
proof -
  have "length (filter (\<lambda>(t, v). P v) (entries m)) = card (set (filter (\<lambda>k. P (the (mget m k))) (keys m)))"
    using distinct_card [of "filter (\<lambda>k. P (the (mget m k))) (keys m)"] by (simp add: entries_def filter_map comp_def)
  also have "set (filter (\<lambda>k. P (the (mget m k))) (keys m)) = {t. \<exists>v. mget m t = Some v \<and> P v}"
    by (auto simp: fmlookup_dom_iff)
  finally show ?thesis .
qed

lemma successful_is_quorum:
  assumes inv: "sim_inv s" and two: "2 \<le> length (si_honest s)"
  shows "st_SuccessfulRounds (si_stats (updateStats r s)) = int (card (quorum_tickets s))"
proof -
  let ?v = "si_validations (updateStats r s)"
  have pos: "0 < si_threshold s" using inv quorum_threshold_pos [OF two] unfolding sim_inv_def by simp
  have "st_SuccessfulRounds (si_stats (updateStats r s)) =
      int (length (filter (\<lambda>(t, vs). si_threshold s \<le> golen vs) (entries ?v)))"
    using two by (simp add: updateStats_def Let_def)
  also have "\<dots> = int (card {t. \<exists>vs. mget ?v t = Some vs \<and> si_threshold s \<le> golen vs})"
    by (simp only: length_filter_entries)
  also have "{t. \<exists>vs. mget ?v t = Some vs \<and> si_threshold s \<le> golen vs} = {t. si_threshold s \<le> golen (inner ?v t)}"
    using pos by (auto simp: inner_def split: option.splits)
  also have "\<dots> = quorum_tickets s"
    by (simp only: quorum_tickets_def golen_validations [OF inv two])
  finally show ?thesis .
qed

lemma quorum_tickets_bound:
  assumes inv: "sim_inv s" and two: "2 \<le> length (si_honest s)"
  shows "int (card (quorum_tickets s)) \<le> si_round s"
proof -
  have pos: "0 < si_threshold s" using inv quorum_threshold_pos [OF two] unfolding sim_inv_def by simp
  have "quorum_tickets s \<subseteq> tickets_upto (si_ticketIndex s)"
  proof
    fix t assume "t \<in> quorum_tickets s"
    with pos have "card (honest_holders s t) \<noteq> 0" by (auto simp: quorum_tickets_def)
    then obtain i where "i \<in> honest_holders s t" by fastforce
    then show "t \<in> tickets_upto (si_ticketIndex s)"
      using sim_inv_honest(1) [OF inv, of i] sim_inv_nth(1) [OF inv, of i] by (auto simp: honest_holders_def)
  qed
  then have "card (quorum_tickets s) \<le> card (tickets_upto (si_ticketIndex s))"
    by (rule card_mono [rotated]) (simp add: tickets_upto_def)
  also have "\<dots> \<le> card {0..<si_ticketIndex s}" unfolding tickets_upto_def by (rule card_image_le) simp
  finally have "card (quorum_tickets s) \<le> nat (si_ticketIndex s)" by simp
  moreover have "0 \<le> si_ticketIndex s" "si_round s = si_ticketIndex s" using inv unfolding sim_inv_def by blast+
  ultimately show ?thesis by linarith
qed

text \<open>
  C31: the simulator counts consensus rounds incrementally, yet right: in every state its steps can
  reach, updating the statistics counts as successful exactly the tickets that a quorum of the
  honest nodes hold, as a recount over all nodes would, and as failed the other rounds, a number
  that is never negative.
\<close>

theorem incremental_stats_equal_recount:
  assumes "sim_step\<^sup>*\<^sup>* (NewSimulator cfg) s" and "2 \<le> length (si_honest s)"
  shows "st_SuccessfulRounds (si_stats (updateStats (si_round s) s)) = int (card (quorum_tickets s)) \<and>
    st_FailedRounds (si_stats (updateStats (si_round s) s)) = si_round s - int (card (quorum_tickets s)) \<and>
    0 \<le> st_FailedRounds (si_stats (updateStats (si_round s) s))"
proof -
  have inv: "sim_inv s" using assms(1) by (rule sim_reachable_inv)
  have s: "st_SuccessfulRounds (si_stats (updateStats (si_round s) s)) = int (card (quorum_tickets s))"
    using inv assms(2) by (rule successful_is_quorum)
  have "st_FailedRounds (si_stats (updateStats (si_round s) s)) =
      si_round s - st_SuccessfulRounds (si_stats (updateStats (si_round s) s))"
    using assms(2) by (simp add: updateStats_def Let_def)
  with s quorum_tickets_bound [OF inv assms(2)] show ?thesis by simp
qed

lemma tick_reaches:
  assumes "sg_NodeCount cfg \<noteq> 0" and "0 < sg_TicketCount cfg"
  shows "\<exists>s. run_tick False c lost (NewSimulator cfg) = Some (False, s) \<and> sim_step\<^sup>*\<^sup>* (NewSimulator cfg) s \<and>
    si_round s = 1 \<and> si_honest s = si_honest (NewSimulator cfg)"
proof -
  let ?s = "NewSimulator cfg"
  have ne: "si_nodes ?s \<noteq> []" using assms(1) by (simp add: NewSimulator_def createNodes_def Let_def)
  then obtain m s1 where "simulateTicketValidation lost (''ticket-'' @ FormatInt (si_ticketIndex ?s)) ?s = Some s1"
    and s1: "s1 = sim_broadcast lost m ?s"
    by (cases "find (\<lambda>n. \<not> sn_IsByzantine n) (si_nodes ?s)") (auto simp: simulateTicketValidation_def neq_Nil_conv)
  moreover have "\<not> sg_TicketCount (si_config ?s) \<le> si_ticketIndex ?s"
    using assms(2) by (simp add: NewSimulator_def Let_def)
  ultimately obtain s where "run_tick False c lost ?s = Some (False, s)" "si_round s = si_round ?s + 1"
    "si_honest s = si_honest ?s"
    by (simp add: run_tick_def Let_def simulateNetworkPartition_def)
  moreover have "si_round ?s = 0" by (simp add: NewSimulator_def Let_def)
  ultimately show ?thesis by (auto intro: sim_step.tick)
qed

theorem incremental_stats_equal_recount_witness:
  "\<exists>s. sim_step\<^sup>*\<^sup>* (NewSimulator \<lparr>sg_NodeCount = 4, sg_ByzantineCount = 1, sg_TicketCount = 5, sg_PartitionEnabled = True\<rparr>) s \<and>
     si_round s = 1 \<and> 2 \<le> length (si_honest s) \<and>
     st_SuccessfulRounds (si_stats (updateStats (si_round s) s)) = int (card (quorum_tickets s)) \<and>
     0 \<le> st_FailedRounds (si_stats (updateStats (si_round s) s))"
proof -
  let ?cfg = "\<lparr>sg_NodeCount = 4, sg_ByzantineCount = 1, sg_TicketCount = 5, sg_PartitionEnabled = True\<rparr>"
  obtain s where s: "sim_step\<^sup>*\<^sup>* (NewSimulator ?cfg) s" "si_round s = 1" "si_honest s = si_honest (NewSimulator ?cfg)"
    using tick_reaches [of ?cfg False "\<lambda>_. False"] by auto
  have "2 \<le> length (si_honest s)"
    unfolding s(3) by (simp add: NewSimulator_def createNodes_def honest_nodes_def new_node_def Let_def eval_nat_numeral)
  with s show ?thesis using incremental_stats_equal_recount [OF s(1)] by blast
qed

section \<open>Partitions\<close>

definition spared :: "Simulator \<Rightarrow> bool" where
  "spared s \<longleftrightarrow> (\<forall>i < length (si_nodes s). length (si_nodes s) div 3 \<le> i \<longrightarrow> \<not> sn_IsPartitioned (si_nodes s ! i))"

lemma change_node_spared:
  assumes "spared s" and "\<And>n. sn_IsPartitioned (f n) = sn_IsPartitioned n"
  shows "spared (change_node i f s)"
  using assms by (auto simp: spared_def change_node_def nth_list_update)

lemma spared_nodes: "si_nodes s' = si_nodes s \<Longrightarrow> spared s \<Longrightarrow> spared s'"
  by (simp add: spared_def)

lemma partition_spared:
  "spared s \<Longrightarrow> si_nodes s' = set_partitioned b (length (si_nodes s) div 3) (si_nodes s) \<Longrightarrow> spared s'"
  by (auto simp: spared_def)

lemma run_tick_nodes:
  assumes "run_tick timedOut c lost s = Some (over, s')"
  shows "si_nodes s' = si_nodes s \<or> si_nodes s' = set_partitioned True (length (si_nodes s) div 3) (si_nodes s)"
proof (cases "simulateTicketValidation lost (''ticket-'' @ FormatInt (si_ticketIndex s)) s")
  case None
  with assms show ?thesis by (auto simp: run_tick_def split: if_splits)
next
  case (Some s1)
  moreover from Some have "si_nodes s1 = si_nodes s"
    by (rule simulateTicketValidation_broadcasts) simp
  ultimately show ?thesis using assms
    by (auto simp: run_tick_def Let_def simulateNetworkPartition_def partition_size_def split: if_splits)
qed

lemma sim_step_spared: "sim_step s s' \<Longrightarrow> spared s \<Longrightarrow> spared s'"
proof (induction rule: sim_step.induct)
  case (tick timedOut c lost s over s')
  from run_tick_nodes [OF tick(1)] tick(2) show ?case by (auto intro: spared_nodes partition_spared)
next
  case (woken s k)
  show ?case
    using change_node_spared [of "s\<lparr>si_inFlight := take k (si_inFlight s) @ drop (Suc k) (si_inFlight s)\<rparr>"
        "\<lambda>n. n\<lparr>sn_MessageQueue := sn_MessageQueue n @ [snd (si_inFlight s ! k)]\<rparr>" "fst (si_inFlight s ! k)"] woken
    by (auto simp: deliver_def Let_def spared_def split: prod.splits)
next
  case (counted s)
  then show ?case by (auto simp: count_delivery_def spared_def split: nat.splits)
next
  case (handled s coin i)
  then show ?case
    by (auto simp: handle_message_def Let_def handleByzantineNode_def handleHonestNode_def
        split: list.splits if_splits intro!: change_node_spared intro: spared_nodes [rotated])
next
  case (healed s)
  then show ?case by (auto intro: partition_spared simp: heal_partition_def partition_size_def)
qed

lemma New_spared: "spared (NewSimulator cfg)"
  by (simp add: spared_def NewSimulator_def createNodes_def new_node_def Let_def)

lemma reachable_spared: "sim_step\<^sup>*\<^sup>* (NewSimulator cfg) s \<Longrightarrow> spared s"
  by (induction rule: rtranclp_induct) (blast intro: New_spared sim_step_spared)+

lemma sim_step_config: "sim_step s s' \<Longrightarrow> si_config s' = si_config s"
proof (induction rule: sim_step.induct)
  case (tick timedOut c lost s over s')
  show ?case
  proof (cases "simulateTicketValidation lost (''ticket-'' @ FormatInt (si_ticketIndex s)) s")
    case None
    with tick show ?thesis by (auto simp: run_tick_def split: if_splits)
  next
    case (Some s1)
    moreover from Some have "si_config s1 = si_config s" by (rule simulateTicketValidation_broadcasts) simp
    ultimately show ?thesis using tick
      by (auto simp: run_tick_def Let_def simulateNetworkPartition_def split: if_splits)
  qed
qed (auto simp: deliver_def count_delivery_def handle_message_def heal_partition_def change_node_def Let_def
       split: nat.splits prod.splits list.splits)

lemma reachable_config: "sim_step\<^sup>*\<^sup>* (NewSimulator cfg) s \<Longrightarrow> si_config s = cfg"
  by (induction rule: rtranclp_induct) (simp_all add: NewSimulator_def Let_def sim_step_config)

text \<open>
  A simulated network partition cuts off the first third of the nodes, where the Byzantine
  ones are: when there are as many of them as the partition has nodes, which the check on their
  number allows, no honest node is ever partitioned, and a broadcast goes to every honest node
  whose message is not lost.
\<close>

theorem partitions_spare_honest:
  assumes "sim_step\<^sup>*\<^sup>* (NewSimulator cfg) s" and "int (sg_NodeCount cfg div 3) \<le> sg_ByzantineCount cfg"
    and "i \<in> set (si_honest s)"
  shows "\<not> sn_IsPartitioned (si_nodes s ! i) \<and>
    (\<not> lost i \<longrightarrow> (i, msg) \<in> set (si_inFlight (sim_broadcast lost msg s)))"
proof -
  have inv: "sim_inv s" using assms(1) by (rule sim_reachable_inv)
  note i = sim_inv_honest [OF inv assms(3)]
  have "length (si_nodes s) = sg_NodeCount cfg"
    using inv reachable_config [OF assms(1)] unfolding sim_inv_def by simp
  then have "length (si_nodes s) div 3 \<le> i" using i(3) assms(2) reachable_config [OF assms(1)] by simp
  then have "\<not> sn_IsPartitioned (si_nodes s ! i)"
    using reachable_spared [OF assms(1)] i(1) by (simp add: spared_def)
  then show ?thesis using i(1) by (auto simp: sim_broadcast_def)
qed

theorem partitions_spare_honest_witness:
  "\<exists>s. sim_step\<^sup>*\<^sup>* (NewSimulator \<lparr>sg_NodeCount = 4, sg_ByzantineCount = 1, sg_TicketCount = 5, sg_PartitionEnabled = True\<rparr>) s \<and>
     byzantine_allowed \<lparr>sg_NodeCount = 4, sg_ByzantineCount = 1, sg_TicketCount = 5, sg_PartitionEnabled = True\<rparr> \<and>
     si_round s = 1 \<and> 1 \<in> set (si_honest s) \<and> \<not> sn_IsPartitioned (si_nodes s ! 1)"
proof -
  let ?cfg = "\<lparr>sg_NodeCount = 4, sg_ByzantineCount = 1, sg_TicketCount = 5, sg_PartitionEnabled = True\<rparr>"
  obtain s where s: "sim_step\<^sup>*\<^sup>* (NewSimulator ?cfg) s" "si_round s = 1" "si_honest s = si_honest (NewSimulator ?cfg)"
    using tick_reaches [of ?cfg True "\<lambda>_. False"] by auto
  have one: "1 \<in> set (si_honest s)"
    unfolding s(3) by (simp add: NewSimulator_def createNodes_def honest_nodes_def new_node_def Let_def eval_nat_numeral)
  have "\<not> sn_IsPartitioned (si_nodes s ! 1)"
    using partitions_spare_honest [OF s(1) _ one] by simp
  moreover have "byzantine_allowed ?cfg" by (simp add: byzantine_allowed_def signed_divide_int_def)
  ultimately show ?thesis using s one by blast
qed

end
