(* ===== verification/Simulator_Controller.thy ===== *)
theory Simulator_Controller
  imports Complex_Main Go_Text Go_Strings
begin

text \<open>
  \<open>pkg/supervisor/simulator.go\<close>: the controller that runs the simulator as a process and reads
  its output.

  The goroutine of a run appears as steps: \<open>run_begin\<close>, \<open>run_failed\<close> or the output lines, and
  \<open>run_exit\<close>. A run has a number, which stands for its context; \<open>ct_cancelled\<close> are the
  contexts that were cancelled and \<open>ct_cancelFunc\<close> is the context that the stored cancel
  function cancels. A \<open>float64\<close> is a rational number: the values are read from decimal texts
  of few digits. Percentages are \<open>None\<close> where Go gives NaN or an infinity. The lines that the
  callbacks pass on are recorded in \<open>ct_calls\<close>.
\<close>

section \<open>Model\<close>

type_synonym SimulatorStatus = string

definition SimulatorStatusIdle :: SimulatorStatus where "SimulatorStatusIdle = ''idle''"
definition SimulatorStatusRunning :: SimulatorStatus where "SimulatorStatusRunning = ''running''"
definition SimulatorStatusComplete :: SimulatorStatus where "SimulatorStatusComplete = ''complete''"
definition SimulatorStatusError :: SimulatorStatus where "SimulatorStatusError = ''error''"

lemmas simulator_status_defs = SimulatorStatusIdle_def SimulatorStatusRunning_def
  SimulatorStatusComplete_def SimulatorStatusError_def

record SimulatorConfig =
  sc_Nodes :: int
  sc_ByzantineNodes :: int
  sc_Tickets :: int
  sc_DurationSeconds :: int
  sc_LatencyMs :: int
  sc_PacketLossRate :: rat
  sc_EnablePartitions :: bool

record SimulatorResults =
  rs_TotalTickets :: int
  rs_ValidatedTickets :: int
  rs_ConsensusRounds :: int
  rs_SuccessfulRounds :: int
  rs_FailedRounds :: int
  rs_SuccessRate :: rat
  rs_MessagesSent :: int
  rs_MessagesReceived :: int
  rs_PartitionEvents :: int

definition empty_results :: SimulatorResults where
  "empty_results = \<lparr>rs_TotalTickets = 0, rs_ValidatedTickets = 0, rs_ConsensusRounds = 0,
     rs_SuccessfulRounds = 0, rs_FailedRounds = 0, rs_SuccessRate = 0, rs_MessagesSent = 0,
     rs_MessagesReceived = 0, rs_PartitionEvents = 0\<rparr>"

record SimulatorProgress =
  pr_CurrentTicket :: int
  pr_TotalTickets :: int
  pr_ConsensusRounds :: int
  pr_SuccessfulRounds :: int
  pr_FailedRounds :: int
  pr_ProgressPercent :: "rat option"

datatype sim_call =
    OutputLine string
  | ProgressUpdate SimulatorProgress
  | SimStatus SimulatorStatus

record SimulatorController =
  ct_status :: SimulatorStatus
  ct_config :: "SimulatorConfig option"
  ct_progress :: "SimulatorProgress option"
  ct_results :: "SimulatorResults option"
  ct_outputLines :: "string list"
  ct_maxOutputLines :: nat
  ct_cancelFunc :: "nat option"
  ct_cancelled :: "nat set"
  ct_runs :: nat
  ct_outputCallback :: bool
  ct_progressCallback :: bool
  ct_statusCallback :: bool
  ct_calls :: "sim_call list"
  ct_recentLines :: "(string, int) gomap"
  ct_dedupWindow :: int
  ct_dedupCallCount :: int

text \<open>The times of \<open>recentLines\<close> are nanoseconds.\<close>

definition NewSimulatorController :: "nat \<Rightarrow> bool \<Rightarrow> bool \<Rightarrow> bool \<Rightarrow> SimulatorController" where
  "NewSimulatorController maxOutputLines outputCb progressCb statusCb =
     \<lparr>ct_status = SimulatorStatusIdle, ct_config = None, ct_progress = None, ct_results = None,
      ct_outputLines = [], ct_maxOutputLines = (if maxOutputLines = 0 then 500 else maxOutputLines),
      ct_cancelFunc = None, ct_cancelled = {}, ct_runs = 0,
      ct_outputCallback = outputCb, ct_progressCallback = progressCb, ct_statusCallback = statusCb,
      ct_calls = [], ct_recentLines = fmempty, ct_dedupWindow = 500000000, ct_dedupCallCount = 0\<rparr>"

definition sim_notifyStatus :: "SimulatorStatus \<Rightarrow> SimulatorController \<Rightarrow> SimulatorController" where
  "sim_notifyStatus status s =
     (if ct_statusCallback s then s\<lparr>ct_calls := ct_calls s @ [SimStatus status]\<rparr> else s)"

definition notifyProgress :: "SimulatorProgress \<Rightarrow> SimulatorController \<Rightarrow> SimulatorController" where
  "notifyProgress p s =
     (if ct_progressCallback s then s\<lparr>ct_calls := ct_calls s @ [ProgressUpdate p]\<rparr> else s)"

definition addOutput :: "string \<Rightarrow> SimulatorController \<Rightarrow> SimulatorController" where
  "addOutput line s =
     (let ls = ct_outputLines s @ [line]
      in s\<lparr>ct_outputLines := (if ct_maxOutputLines s < length ls then drop (length ls - ct_maxOutputLines s) ls else ls)\<rparr>)"

definition setError :: "string \<Rightarrow> SimulatorController \<Rightarrow> SimulatorController" where
  "setError errMsg s =
     sim_notifyStatus SimulatorStatusError (addOutput (''ERROR: '' @ errMsg) (s\<lparr>ct_status := SimulatorStatusError\<rparr>))"

subsection \<open>A run\<close>

datatype sim_error = SimAlreadyRunning | SimNotRunning

definition sim_Start :: "SimulatorConfig \<Rightarrow> SimulatorController \<Rightarrow> sim_error option \<times> SimulatorController" where
  "sim_Start config s =
     (if ct_status s = SimulatorStatusRunning then (Some SimAlreadyRunning, s)
      else (None, sim_notifyStatus SimulatorStatusRunning
        (s\<lparr>ct_status := SimulatorStatusRunning, ct_config := Some config,
           ct_progress := Some \<lparr>pr_CurrentTicket = 0, pr_TotalTickets = sc_Tickets config,
             pr_ConsensusRounds = 0, pr_SuccessfulRounds = 0, pr_FailedRounds = 0, pr_ProgressPercent = Some 0\<rparr>,
           ct_results := None, ct_outputLines := []\<rparr>)))"

text \<open>The goroutine stores its cancel function; the number of the run is its context.\<close>

definition run_begin :: "SimulatorController \<Rightarrow> nat \<times> SimulatorController" where
  "run_begin s = (ct_runs s, s\<lparr>ct_cancelFunc := Some (ct_runs s), ct_runs := ct_runs s + 1\<rparr>)"

text \<open>\<open>lossText\<close> is the rate printed with four decimals.\<close>

definition run_args :: "string \<Rightarrow> SimulatorConfig \<Rightarrow> string list" where
  "run_args lossText config =
     [''-nodes'', FormatInt (sc_Nodes config), ''-byzantine'', FormatInt (sc_ByzantineNodes config),
      ''-tickets'', FormatInt (sc_Tickets config), ''-duration'', FormatInt (sc_DurationSeconds config) @ ''s'',
      ''-latency'', FormatInt (sc_LatencyMs config) @ ''ms'', ''-packet-loss'', lossText] @
     (if sc_EnablePartitions config then [''-partition''] else [])"

datatype run_failure = NoStdout string | NoStderr string | NoProcess string

definition run_failed :: "run_failure \<Rightarrow> SimulatorController \<Rightarrow> SimulatorController" where
  "run_failed f s =
     setError (case f of
        NoStdout e \<Rightarrow> ''failed to create stdout pipe: '' @ e
      | NoStderr e \<Rightarrow> ''failed to create stderr pipe: '' @ e
      | NoProcess e \<Rightarrow> ''failed to start simulator: '' @ e) s"

text \<open>The end of the run with context \<open>k\<close>; \<open>err\<close> is what waiting for the process returns.\<close>

definition run_exit :: "nat \<Rightarrow> string option \<Rightarrow> SimulatorController \<Rightarrow> SimulatorController" where
  "run_exit k err s =
     (let s1 = (if k \<in> ct_cancelled s then addOutput ''Simulation cancelled by user'' (s\<lparr>ct_status := SimulatorStatusIdle\<rparr>)
                else case err of
                  Some e \<Rightarrow> addOutput (''Simulation error: '' @ e) (s\<lparr>ct_status := SimulatorStatusError\<rparr>)
                | None \<Rightarrow> addOutput ''Simulation completed successfully'' (s\<lparr>ct_status := SimulatorStatusComplete\<rparr>))
      in sim_notifyStatus (ct_status s1) s1)"

definition sim_Stop :: "SimulatorController \<Rightarrow> sim_error option \<times> SimulatorController" where
  "sim_Stop s =
     (if ct_status s \<noteq> SimulatorStatusRunning then (Some SimNotRunning, s)
      else (None, case ct_cancelFunc s of None \<Rightarrow> s | Some k \<Rightarrow> s\<lparr>ct_cancelled := insert k (ct_cancelled s)\<rparr>))"

subsection \<open>Reading the output\<close>

definition isDuplicateLine :: "int \<Rightarrow> string \<Rightarrow> SimulatorController \<Rightarrow> bool \<times> SimulatorController" where
  "isDuplicateLine now line s =
     (let s1 = s\<lparr>ct_dedupCallCount := ct_dedupCallCount s + 1\<rparr>;
          seen = s1\<lparr>ct_recentLines := fmupd line now (ct_recentLines s1)\<rparr>
      in if (case mget (ct_recentLines s1) line of None \<Rightarrow> False | Some t \<Rightarrow> now - t < ct_dedupWindow s1)
         then (True, seen)
         else if ct_dedupCallCount seen mod 100 = 0
         then (False, seen\<lparr>ct_recentLines := fmfilter (\<lambda>k. \<not> the (mget (ct_recentLines seen) k) < now - 2 * ct_dedupWindow seen)
                 (ct_recentLines seen)\<rparr>)
         else (False, seen))"

text \<open>
  Regular expressions. \<open>FindStringSubmatch\<close> takes the leftmost match; in both expressions the
  character after a repetition is never one that the repetition accepts, so the longest run
  is the only one that can lead to a match.
\<close>

fun find_match :: "(string \<Rightarrow> 'a option) \<Rightarrow> string \<Rightarrow> 'a option" where
  "find_match f [] = f []"
| "find_match f (c # cs) = (case f (c # cs) of Some r \<Rightarrow> Some r | None \<Rightarrow> find_match f cs)"

definition is_digit :: "char \<Rightarrow> bool" where
  "is_digit c \<longleftrightarrow> (let n = of_char c :: nat in 48 \<le> n \<and> n \<le> 57)"

definition is_word :: "char \<Rightarrow> bool" where
  "is_word c \<longleftrightarrow> is_digit c \<or> c = CHR ''_'' \<or>
     (let n = of_char c :: nat in 65 \<le> n \<and> n \<le> 90 \<or> 97 \<le> n \<and> n \<le> 122)"

definition is_blank :: "char \<Rightarrow> bool" where
  "is_blank c \<longleftrightarrow> of_char c \<in> {9, 10, 12, 13, 32 :: nat}"

text \<open>\<open>expect\<close> reads a literal, \<open>many1\<close> a repetition, both handing back the rest.\<close>

definition expect :: "string \<Rightarrow> string \<Rightarrow> string option" where
  "expect p s = (if HasPrefix s p then Some (drop (length p) s) else None)"

definition many1 :: "(char \<Rightarrow> bool) \<Rightarrow> string \<Rightarrow> (string \<times> string) option" where
  "many1 P s = (case takeWhile P s of [] \<Rightarrow> None | w \<Rightarrow> Some (w, dropWhile P s))"

definition digits_then :: "string \<Rightarrow> string \<Rightarrow> (string \<times> string) option" where
  "digits_then p s =
     Option.bind (many1 is_digit s) (\<lambda>(d, r). map_option (Pair d) (expect p r))"

definition match_progress :: "string \<Rightarrow> (string \<times> string \<times> string \<times> string \<times> string) option" where
  "match_progress s =
     Option.bind (expect ''Progress: '' s) (\<lambda>s.
     Option.bind (digits_then ''/'' s) (\<lambda>(a, s).
     Option.bind (digits_then '' tickets | Rounds: '' s) (\<lambda>(b, s).
     Option.bind (digits_then '' | Success: '' s) (\<lambda>(c, s).
     Option.bind (digits_then '' | Failed: '' s) (\<lambda>(d, s).
     map_option (\<lambda>(e, _). (a, b, c, d, e)) (many1 is_digit s))))))"

definition match_result :: "string \<Rightarrow> (string \<times> string) option" where
  "match_result s =
     (if s \<noteq> [] \<and> is_word (hd s) then
        let key = takeWhile (\<lambda>c. is_word c \<or> is_blank c) s
        in Option.bind (expect '': '' (dropWhile (\<lambda>c. is_word c \<or> is_blank c) s)) (\<lambda>r.
           map_option (\<lambda>(v, r'). (key, v @ (if HasPrefix r' ''%'' then ''%'' else '''')))
             (many1 (\<lambda>c. is_digit c \<or> c = CHR ''.'') r))
      else None)"

definition progressRegex :: "string \<Rightarrow> (string \<times> string \<times> string \<times> string \<times> string) option" where
  "progressRegex = find_match match_progress"

definition resultRegex :: "string \<Rightarrow> (string \<times> string) option" where
  "resultRegex = find_match match_result"

text \<open>
  \<open>strconv.Atoi\<close> on digits, saturating at the greatest \<open>int\<close>, and \<open>strconv.ParseFloat\<close> on
  digits and points, whose error is ignored and leaves 0.
\<close>

definition Atoi :: "string \<Rightarrow> int" where
  "Atoi s = min (int (dec_val s)) (2 ^ 63 - 1)"

definition ParseFloat :: "string \<Rightarrow> rat" where
  "ParseFloat s =
     (let whole = takeWhile is_digit s; rest = dropWhile is_digit s
      in case rest of
           [] \<Rightarrow> of_nat (dec_val whole)
         | c # fr \<Rightarrow>
             if c = CHR ''.'' \<and> list_all is_digit fr \<and> (whole \<noteq> [] \<or> fr \<noteq> [])
             then of_nat (dec_val (whole @ fr)) / 10 ^ length fr else 0)"

definition parseResultLine :: "string \<Rightarrow> string \<Rightarrow> SimulatorController \<Rightarrow> SimulatorController" where
  "parseResultLine key value s =
     (let r = (case ct_results s of None \<Rightarrow> empty_results | Some r \<Rightarrow> r);
          numValue = ParseFloat (TrimSuffix value ''%'');
          intValue = \<lfloor>numValue\<rfloor>;
          k = TrimSpace key;
          r' = (if k = ''Total Tickets'' then r\<lparr>rs_TotalTickets := intValue\<rparr>
                else if k = ''Validated Tickets'' then r\<lparr>rs_ValidatedTickets := intValue\<rparr>
                else if k = ''Consensus Rounds'' then r\<lparr>rs_ConsensusRounds := intValue\<rparr>
                else if k = ''Successful Rounds'' then r\<lparr>rs_SuccessfulRounds := intValue\<rparr>
                else if k = ''Failed Rounds'' then r\<lparr>rs_FailedRounds := intValue\<rparr>
                else if k = ''Success Rate'' then r\<lparr>rs_SuccessRate := numValue\<rparr>
                else if k = ''Messages Sent'' then r\<lparr>rs_MessagesSent := intValue\<rparr>
                else if k = ''Messages Received'' then r\<lparr>rs_MessagesReceived := intValue\<rparr>
                else if k = ''Partition Events'' then r\<lparr>rs_PartitionEvents := intValue\<rparr>
                else r)
      in s\<lparr>ct_results := Some r'\<rparr>)"

definition read_progress :: "string \<Rightarrow> SimulatorController \<Rightarrow> SimulatorController" where
  "read_progress line s =
     (case progressRegex line of
        None \<Rightarrow> s
      | Some (a, b, c, d, e) \<Rightarrow>
          let p = \<lparr>pr_CurrentTicket = Atoi a, pr_TotalTickets = Atoi b, pr_ConsensusRounds = Atoi c,
                   pr_SuccessfulRounds = Atoi d, pr_FailedRounds = Atoi e,
                   pr_ProgressPercent = (if Atoi b = 0 then None else Some (of_int (Atoi a) / of_int (Atoi b) * 100))\<rparr>
          in notifyProgress p (s\<lparr>ct_progress := Some p\<rparr>))"

definition read_result :: "string \<Rightarrow> SimulatorController \<Rightarrow> SimulatorController" where
  "read_result line s =
     (let s1 = (if Contains line ''=== Simulation Results ==='' \<and> ct_results s = None
                then s\<lparr>ct_results := Some empty_results\<rparr> else s)
      in case resultRegex line of None \<Rightarrow> s1 | Some (key, value) \<Rightarrow> parseResultLine key value s1)"

text \<open>One line of \<open>streamOutput\<close>.\<close>

definition sim_stream_line :: "int \<Rightarrow> string \<Rightarrow> SimulatorController \<Rightarrow> SimulatorController" where
  "sim_stream_line now line s =
     (case isDuplicateLine now line s of
        (True, s1) \<Rightarrow> s1
      | (False, s1) \<Rightarrow>
          let s2 = read_result line (read_progress line (addOutput line s1))
          in if ct_outputCallback s2 then s2\<lparr>ct_calls := ct_calls s2 @ [OutputLine line]\<rparr> else s2)"

text \<open>
  \<open>bufio.ScanLines\<close>: lines end at a newline, one carriage return before it is dropped. The
  scanner gives up at a line of 64 kilobytes, which is not modelled: the longest line that the
  simulator prints holds its progress reports, at most 101 of them for the 1000 tickets that
  \<open>ValidateConfig\<close> allows, each shorter than 150 characters.
\<close>

definition drop_cr :: "string \<Rightarrow> string" where
  "drop_cr l = (if l \<noteq> [] \<and> last l = CHR 0x0D then butlast l else l)"

definition scan_lines :: "string \<Rightarrow> string list" where
  "scan_lines text =
     (let ls = Split (CHR 0x0A) text
      in map drop_cr (if last ls = [] then butlast ls else ls))"

fun stream_lines :: "(int \<times> string) list \<Rightarrow> SimulatorController \<Rightarrow> SimulatorController" where
  "stream_lines [] s = s"
| "stream_lines ((now, l) # ls) s = stream_lines ls (sim_stream_line now l s)"

subsection \<open>Inspection and configuration\<close>

definition GetProgress :: "SimulatorController \<Rightarrow> SimulatorProgress option" where
  "GetProgress s = ct_progress s"

definition GetResults :: "SimulatorController \<Rightarrow> SimulatorResults option" where
  "GetResults s = ct_results s"

definition GetOutput :: "SimulatorController \<Rightarrow> string list" where
  "GetOutput s = ct_outputLines s"

definition sim_GetConfig :: "SimulatorController \<Rightarrow> SimulatorConfig option" where
  "sim_GetConfig s = ct_config s"

definition GetFullState ::
  "SimulatorController \<Rightarrow> SimulatorStatus \<times> string list \<times> SimulatorConfig option \<times> SimulatorProgress option \<times> SimulatorResults option" where
  "GetFullState s = (ct_status s, ct_outputLines s, ct_config s, ct_progress s, ct_results s)"

definition DefaultSimulatorConfig :: SimulatorConfig where
  "DefaultSimulatorConfig = \<lparr>sc_Nodes = 7, sc_ByzantineNodes = 2, sc_Tickets = 100, sc_DurationSeconds = 60,
     sc_LatencyMs = 50, sc_PacketLossRate = 1 / 100, sc_EnablePartitions = False\<rparr>"

datatype config_error =
    MinNodes | MaxNodes | TooManyByzantine int int int | MinTickets | MaxTickets | MinDuration | MaxDuration | BadPacketLoss

definition ValidateConfig :: "SimulatorConfig \<Rightarrow> config_error option" where
  "ValidateConfig config =
     (let maxByzantine = (sc_Nodes config - 1) sdiv 3
      in if sc_Nodes config < 4 then Some MinNodes
         else if sc_Nodes config > 30 then Some MaxNodes
         else if sc_ByzantineNodes config > maxByzantine
         then Some (TooManyByzantine (sc_ByzantineNodes config) maxByzantine (sc_Nodes config))
         else if sc_Tickets config < 1 then Some MinTickets
         else if sc_Tickets config > 1000 then Some MaxTickets
         else if sc_DurationSeconds config < 10 then Some MinDuration
         else if sc_DurationSeconds config > 600 then Some MaxDuration
         else if sc_PacketLossRate config < 0 \<or> sc_PacketLossRate config > 1 / 2 then Some BadPacketLoss
         else None)"

section \<open>Duplicates\<close>

text \<open>
  The reference: a line is a duplicate when it was read before, at a time less than the window
  ago. \<open>dedup_run\<close> gives the answers for the lines read so far, newest last.
\<close>

definition seen_recently :: "int \<Rightarrow> (int \<times> string) list \<Rightarrow> int \<Rightarrow> string \<Rightarrow> bool" where
  "seen_recently window past now line \<longleftrightarrow> list_ex (\<lambda>(t, l). l = line \<and> now - t < window) past"

fun dedup_run :: "(int \<times> string) list \<Rightarrow> SimulatorController \<Rightarrow> bool list \<times> SimulatorController" where
  "dedup_run [] s = ([], s)"
| "dedup_run ((now, l) # ls) s =
     (let (b, s1) = isDuplicateLine now l s; (bs, s2) = dedup_run ls s1 in (b # bs, s2))"

fun reference_answers :: "int \<Rightarrow> (int \<times> string) list \<Rightarrow> (int \<times> string) list \<Rightarrow> bool list" where
  "reference_answers window past [] = []"
| "reference_answers window past ((now, l) # ls) =
     seen_recently window past now l # reference_answers window (past @ [(now, l)]) ls"

text \<open>
  What the map knows of the past: the last time of every line that is younger than two
  windows, and no time that is not the last one.
\<close>

definition last_seen :: "(int \<times> string) list \<Rightarrow> string \<Rightarrow> int option" where
  "last_seen past line = map_of (map prod.swap (rev past)) line"

definition dedup_inv :: "int \<Rightarrow> (int \<times> string) list \<Rightarrow> SimulatorController \<Rightarrow> bool" where
  "dedup_inv now past s \<longleftrightarrow>
     (\<forall>l t. mget (ct_recentLines s) l = Some t \<longrightarrow> last_seen past l = Some t) \<and>
     (\<forall>l t. last_seen past l = Some t \<longrightarrow> now - 2 * ct_dedupWindow s \<le> t \<longrightarrow> mget (ct_recentLines s) l = Some t) \<and>
     sorted (map fst past) \<and> (\<forall>(t, l) \<in> set past. t \<le> now)"

lemma last_seen_snoc [simp]: "last_seen (past @ [(t, l)]) = (last_seen past)(l \<mapsto> t)"
  by (rule ext) (simp add: last_seen_def)

lemma last_seen_None: "last_seen past l = None \<longleftrightarrow> (\<forall>t. (t, l) \<notin> set past)"
  by (force simp: last_seen_def map_of_eq_None_iff)

lemma last_seen_latest:
  assumes "last_seen past l = Some t" and "sorted (map fst past)" and "(t', l) \<in> set past"
  shows "t' \<le> t"
  using assms
proof (induction past rule: rev_induct)
  case (snoc x xs)
  obtain u k where x: "x = (u, k)" by fastforce
  show ?case
  proof (cases "k = l")
    case True
    with snoc.prems x show ?thesis by (auto simp: sorted_append)
  next
    case False
    with snoc x show ?thesis by (auto simp: sorted_append)
  qed
qed (simp add: last_seen_def)

lemma last_seen_mem: "last_seen past l = Some t \<Longrightarrow> (t, l) \<in> set past"
  unfolding last_seen_def by (drule map_of_SomeD) auto

lemma seen_recently_last:
  assumes "sorted (map fst past)"
  shows "seen_recently window past now l \<longleftrightarrow> (\<exists>t. last_seen past l = Some t \<and> now - t < window)"
proof
  assume "seen_recently window past now l"
  then obtain t where t: "(t, l) \<in> set past" "now - t < window" by (auto simp: seen_recently_def list_ex_iff)
  then obtain u where u: "last_seen past l = Some u" using last_seen_None [of past l] by (cases "last_seen past l") auto
  with last_seen_latest [OF u assms t(1)] t(2) show "\<exists>t. last_seen past l = Some t \<and> now - t < window" by auto
next
  assume "\<exists>t. last_seen past l = Some t \<and> now - t < window"
  then show "seen_recently window past now l"
    by (auto simp: seen_recently_def list_ex_iff dest!: last_seen_mem)
qed

lemma isDuplicateLine_fields:
  "fst (isDuplicateLine now l s) = (case mget (ct_recentLines s) l of None \<Rightarrow> False | Some t \<Rightarrow> now - t < ct_dedupWindow s)"
  "ct_dedupWindow (snd (isDuplicateLine now l s)) = ct_dedupWindow s"
  by (cases "mget (ct_recentLines s) l"; simp add: isDuplicateLine_def Let_def)+

lemma isDuplicateLine_map:
  "ct_recentLines (snd (isDuplicateLine now l s)) \<in>
     {fmupd l now (ct_recentLines s),
      fmfilter (\<lambda>k. \<not> the (mget (fmupd l now (ct_recentLines s)) k) < now - 2 * ct_dedupWindow s)
        (fmupd l now (ct_recentLines s))}"
  by (cases "mget (ct_recentLines s) l") (simp_all add: isDuplicateLine_def Let_def)

lemma isDuplicateLine_reference:
  assumes inv: "dedup_inv before past s" and "before \<le> now" and w: "0 \<le> ct_dedupWindow s"
    and d: "isDuplicateLine now l s = (b, s')"
  shows "b = seen_recently (ct_dedupWindow s) past now l"
    and "dedup_inv now (past @ [(now, l)]) s'"
    and "ct_dedupWindow s' = ct_dedupWindow s"
proof -
  let ?w = "ct_dedupWindow s" and ?m = "ct_recentLines s"
  have last: "mget ?m k = Some t \<Longrightarrow> last_seen past k = Some t"
    "last_seen past k = Some t \<Longrightarrow> before - 2 * ?w \<le> t \<Longrightarrow> mget ?m k = Some t" for k t
    using inv unfolding dedup_inv_def by blast+
  have past: "sorted (map fst past)" "\<forall>(t, k) \<in> set past. t \<le> before" using inv unfolding dedup_inv_def by blast+
  have dup: "(case mget ?m l of None \<Rightarrow> False | Some t \<Rightarrow> now - t < ?w) \<longleftrightarrow> seen_recently ?w past now l"
  proof -
    have "(\<exists>t. mget ?m l = Some t \<and> now - t < ?w) \<longleftrightarrow> (\<exists>t. last_seen past l = Some t \<and> now - t < ?w)"
    proof
      assume "\<exists>t. last_seen past l = Some t \<and> now - t < ?w"
      then obtain t where t: "last_seen past l = Some t" "now - t < ?w" by blast
      then have "before - 2 * ?w \<le> t" using assms(2) w by linarith
      with t last(2) show "\<exists>t. mget ?m l = Some t \<and> now - t < ?w" by blast
    qed (use last(1) in blast)
    then show ?thesis unfolding seen_recently_last [OF past(1)] by (cases "mget ?m l") auto
  qed
  show win: "ct_dedupWindow s' = ?w" using isDuplicateLine_fields(2) [of now l s] d by simp
  show "b = seen_recently ?w past now l" using isDuplicateLine_fields(1) [of now l s] d dup by simp
  have "ct_recentLines s' = fmupd l now ?m \<or>
      ct_recentLines s' = fmfilter (\<lambda>k. \<not> the (mget (fmupd l now ?m) k) < now - 2 * ?w) (fmupd l now ?m)"
    using isDuplicateLine_map [of now l s] unfolding d by simp
  then have m': "mget (ct_recentLines s') k = Some t \<Longrightarrow> mget (fmupd l now ?m) k = Some t"
    "mget (fmupd l now ?m) k = Some t \<Longrightarrow> now - 2 * ?w \<le> t \<Longrightarrow> mget (ct_recentLines s') k = Some t" for k t
    by (elim disjE; simp split: if_splits)+
  have "mget (ct_recentLines s') k = Some t \<longrightarrow> last_seen (past @ [(now, l)]) k = Some t" for k t
    using m'(1) [of k t] last(1) [of k t] by (cases "k = l") simp_all
  moreover have "last_seen (past @ [(now, l)]) k = Some t \<longrightarrow> now - 2 * ?w \<le> t \<longrightarrow> mget (ct_recentLines s') k = Some t" for k t
    using m'(2) [of k t] last(2) [of k t] assms(2) by (cases "k = l") simp_all
  moreover have older: "t \<le> now" if "(t, k) \<in> set past" for t k
    using bspec [OF past(2) that] assms(2) by simp
  then have "sorted (map fst (past @ [(now, l)])) \<and> (\<forall>(t, k) \<in> set (past @ [(now, l)]). t \<le> now)"
    using past(1) by (auto simp: sorted_append)
  ultimately show "dedup_inv now (past @ [(now, l)]) s'" unfolding dedup_inv_def win by blast
qed

lemma dedup_run_reference:
  assumes "dedup_inv before past s" and "\<forall>(t, l) \<in> set ls. before \<le> t" and "sorted (map fst ls)" and "0 \<le> ct_dedupWindow s"
  shows "fst (dedup_run ls s) = reference_answers (ct_dedupWindow s) past ls"
  using assms
proof (induction ls arbitrary: before past s)
  case (Cons x ls)
  obtain now l where x: "x = (now, l)" by fastforce
  obtain b s1 where d: "isDuplicateLine now l s = (b, s1)" by fastforce
  have "before \<le> now" using Cons.prems(2) x by simp
  note step = isDuplicateLine_reference [OF Cons.prems(1) this Cons.prems(4) d]
  have "fst (dedup_run ls s1) = reference_answers (ct_dedupWindow s1) (past @ [(now, l)]) ls"
    using Cons.prems(3,4) x step(2,3) by (intro Cons.IH [of now]) auto
  with step x d show ?case by (auto simp: Let_def split: prod.splits)
qed simp

text \<open>
  C38: the duplicate filter of the controller, which keeps only the last time of each line and
  drops old entries on every hundredth call, answers exactly as a filter that remembers every
  line ever read: for lines read at times that do not go back, a line is skipped if and only
  if the same line was read less than the window before.
\<close>

theorem dedup_equals_reference:
  assumes "sorted (map fst ls)"
  shows "fst (dedup_run ls (NewSimulatorController n a b c)) = reference_answers 500000000 [] ls"
proof (cases ls)
  case (Cons x xs)
  have "dedup_inv (fst x) [] (NewSimulatorController n a b c)"
    by (simp add: dedup_inv_def last_seen_def NewSimulatorController_def)
  moreover have "\<forall>(t, l) \<in> set ls. fst x \<le> t" using assms Cons by auto
  ultimately show ?thesis
    using dedup_run_reference [OF _ _ assms] by (simp add: NewSimulatorController_def)
qed simp

theorem dedup_equals_reference_witness:
  "fst (dedup_run [(0, ''a''), (1, ''b''), (499999999, ''a''), (999999998, ''a''), (1500000000, ''a'')]
     (NewSimulatorController 0 True True True)) = [False, False, True, True, False]"
  using dedup_equals_reference [of "[(0, ''a''), (1, ''b''), (499999999, ''a''), (999999998, ''a''), (1500000000, ''a'')]" 0 True True True]
  by (simp add: seen_recently_def)

section \<open>Stopping\<close>

text \<open>The steps of a controller, in any interleaving of requests and runs.\<close>

inductive ctl_step :: "SimulatorController \<Rightarrow> SimulatorController \<Rightarrow> bool" where
  start: "sim_Start config s = (err, s') \<Longrightarrow> ctl_step s s'"
| stop: "sim_Stop s = (err, s') \<Longrightarrow> ctl_step s s'"
| begun: "run_begin s = (k, s') \<Longrightarrow> ctl_step s s'"
| failed: "ctl_step s (run_failed f s)"
| line: "ctl_step s (sim_stream_line now l s)"
| exited: "ctl_step s (run_exit k err s)"

text \<open>Only runs that have begun can be cancelled.\<close>

definition ctl_inv :: "SimulatorController \<Rightarrow> bool" where
  "ctl_inv s \<longleftrightarrow> (\<forall>k \<in> ct_cancelled s \<union> set_option (ct_cancelFunc s). k < ct_runs s)"

lemma run_fields [simp]:
  "ct_cancelled (sim_notifyStatus st s) = ct_cancelled s" "ct_cancelFunc (sim_notifyStatus st s) = ct_cancelFunc s"
  "ct_runs (sim_notifyStatus st s) = ct_runs s" "ct_status (sim_notifyStatus st s) = ct_status s"
  "ct_cancelled (addOutput l s) = ct_cancelled s" "ct_cancelFunc (addOutput l s) = ct_cancelFunc s"
  "ct_runs (addOutput l s) = ct_runs s" "ct_status (addOutput l s) = ct_status s"
  "ct_cancelled (notifyProgress p s) = ct_cancelled s" "ct_cancelFunc (notifyProgress p s) = ct_cancelFunc s"
  "ct_runs (notifyProgress p s) = ct_runs s" "ct_status (notifyProgress p s) = ct_status s"
  by (simp_all add: sim_notifyStatus_def addOutput_def notifyProgress_def Let_def)

lemma stream_line_runs:
  "ct_cancelled (sim_stream_line now l s) = ct_cancelled s \<and> ct_cancelFunc (sim_stream_line now l s) = ct_cancelFunc s \<and>
   ct_runs (sim_stream_line now l s) = ct_runs s"
proof -
  obtain b s1 where d: "isDuplicateLine now l s = (b, s1)" by fastforce
  have "ct_cancelled s1 = ct_cancelled s \<and> ct_cancelFunc s1 = ct_cancelFunc s \<and> ct_runs s1 = ct_runs s"
    using d by (auto simp: isDuplicateLine_def Let_def split: if_splits)
  then show ?thesis
    by (cases b) (simp_all add: sim_stream_line_def d Let_def read_result_def read_progress_def parseResultLine_def
        split: option.splits prod.splits)
qed

lemma ctl_step_inv: "ctl_step s s' \<Longrightarrow> ctl_inv s \<Longrightarrow> ctl_inv s'"
proof (induction rule: ctl_step.induct)
  case (start config s err s')
  then show ?case by (auto simp: sim_Start_def ctl_inv_def split: if_splits)
next
  case (stop s err s')
  then show ?case by (auto simp: sim_Stop_def ctl_inv_def split: if_splits option.splits)
next
  case (begun s k s')
  then show ?case by (auto simp: run_begin_def ctl_inv_def ball_Un less_Suc_eq)
next
  case (failed s f)
  then show ?case by (simp add: run_failed_def setError_def ctl_inv_def)
next
  case (line s now l)
  then show ?case by (simp add: ctl_inv_def stream_line_runs)
next
  case (exited s k err)
  then show ?case by (simp add: run_exit_def Let_def ctl_inv_def split: option.splits)
qed

lemma ctl_reachable_inv: "ctl_step\<^sup>*\<^sup>* (NewSimulatorController n a b c) s \<Longrightarrow> ctl_inv s"
proof (induction rule: rtranclp_induct)
  case base
  show ?case by (simp add: ctl_inv_def NewSimulatorController_def)
qed (rule ctl_step_inv)

text \<open>
  A stop request takes effect only if it comes after the run has stored its cancel
  function. In every reachable state, a simulation that is stopped right after it was
  started answers the request with success and runs to its end all the same; stopped after
  the run has begun, it ends as cancelled, whatever its process returns.
\<close>

theorem early_stop_is_lost:
  assumes "ctl_step\<^sup>*\<^sup>* (NewSimulatorController n a b c) s" and "ct_status s \<noteq> SimulatorStatusRunning"
  shows "let s1 = snd (sim_Start config s); s2 = snd (sim_Stop s1); k = fst (run_begin s2)
    in fst (sim_Start config s) = None \<and> fst (sim_Stop s1) = None \<and>
       ct_status (run_exit k None (snd (run_begin s2))) = SimulatorStatusComplete \<and>
       fst (sim_Stop (snd (run_begin s1))) = None \<and>
       ct_status (run_exit (fst (run_begin s1)) err (snd (sim_Stop (snd (run_begin s1))))) = SimulatorStatusIdle"
proof -
  have inv: "ctl_inv s" using assms(1) by (rule ctl_reachable_inv)
  obtain s1 where s1: "sim_Start config s = (None, s1)" and run: "ct_status s1 = SimulatorStatusRunning"
    and same: "ct_cancelled s1 = ct_cancelled s" "ct_cancelFunc s1 = ct_cancelFunc s" "ct_runs s1 = ct_runs s"
    using assms(2) by (simp add: sim_Start_def)
  have "ct_runs s1 \<notin> ct_cancelled (snd (sim_Stop s1))" "ct_runs (snd (sim_Stop s1)) = ct_runs s1"
    using inv same run by (auto simp: sim_Stop_def ctl_inv_def split: option.splits)
  then show ?thesis
    using s1 run by (simp add: Let_def sim_Stop_def run_begin_def run_exit_def split: option.splits)
qed

theorem early_stop_is_lost_witness:
  "fst (sim_Stop (snd (sim_Start DefaultSimulatorConfig (NewSimulatorController 0 True True True)))) = None \<and>
   ct_status (run_exit 0 None (snd (run_begin (snd (sim_Stop (snd (sim_Start DefaultSimulatorConfig
     (NewSimulatorController 0 True True True)))))))) = SimulatorStatusComplete"
proof -
  let ?s = "NewSimulatorController 0 True True True"
  have "ct_status ?s \<noteq> SimulatorStatusRunning" by (simp add: NewSimulatorController_def simulator_status_defs)
  moreover have "fst (run_begin (snd (sim_Stop (snd (sim_Start DefaultSimulatorConfig ?s))))) = 0"
    by (simp add: run_begin_def sim_Stop_def sim_Start_def NewSimulatorController_def simulator_status_defs)
  ultimately show ?thesis
    using early_stop_is_lost [of 0 True True True ?s DefaultSimulatorConfig None] by (simp add: Let_def)
qed

end
