(* ===== verification/Simulator_Report.thy ===== *)
theory Simulator_Report
  imports Simulator Simulator_Controller
begin

text \<open>
  The simulator and the controller that reads it: what \<open>PrintResults\<close> and the progress reports
  of \<open>cmd/simulator/main.go\<close> print, and what the scanner, the regular expressions and
  \<open>parseResultLine\<close> of \<open>pkg/supervisor/simulator.go\<close> make of it.
\<close>

section \<open>Lines\<close>




section \<open>Regular expressions\<close>



lemma expect_append [simp]: "expect p (p @ s) = Some s"
  by (simp add: expect_def)






section \<open>The effect of a line\<close>




lemma notifyProgress_fields [simp]:
  "ct_progress (notifyProgress p s) = ct_progress s" "ct_results (notifyProgress p s) = ct_results s"
  "ct_recentLines (notifyProgress p s) = ct_recentLines s"
  by (simp_all add: notifyProgress_def)

lemma addOutput_fields [simp]:
  "ct_progress (addOutput l s) = ct_progress s" "ct_results (addOutput l s) = ct_results s"
  "ct_recentLines (addOutput l s) = ct_recentLines s"
  by (simp_all add: addOutput_def Let_def)

lemma parseResultLine_fields [simp]:
  "ct_progress (parseResultLine k v s) = ct_progress s" "ct_recentLines (parseResultLine k v s) = ct_recentLines s"
  by (simp_all add: parseResultLine_def Let_def)

lemma read_fields [simp]:
  "ct_progress (read_result l s) = ct_progress s" "ct_recentLines (read_result l s) = ct_recentLines s"
  "ct_results (read_progress l s) = ct_results s" "ct_recentLines (read_progress l s) = ct_recentLines s"
  by (simp_all add: read_result_def read_progress_def Let_def split: option.splits prod.splits)







section \<open>The report\<close>








lemma TrimSuffix_snoc [simp]: "TrimSuffix (s @ [c]) [c] = s"
  by (simp add: TrimSuffix_def)


























section \<open>A whole simulation\<close>







lemma FormatInt_nonempty [simp]: "FormatInt x \<noteq> []"
  by (simp add: FormatInt_def)














end
