(* ===== verification/Supervisor.thy ===== *)
theory Supervisor
  imports Api Node_Manager Simulator_Controller
begin

text \<open>
  \<open>pkg/supervisor/server.go\<close>: the server that manages nodes and simulations for the web
  interface.

  The node manager and the simulator controller report to the server through callbacks. Their
  models record the calls; \<open>manage\<close> and \<open>simulate\<close> run an operation and hand the calls it made
  to the server's callbacks, in order. A callback about a node reads only that node, which the
  rest of the operation leaves alone, so it sees what it would see when called in the middle.
  Times are in nanoseconds. Decoders of JSON bodies, the matching of routes and the answers
  of the nodes are parameters. A handler that sleeps takes an argument for what
  happens in the meantime.
\<close>

section \<open>State\<close>

datatype sup_msg =
    NodeOutputMsg string string
  | NodeStatusMsg string NodeStatus "ManagedNode option"
  | ClusterStatusMsg ClusterStatus int int
  | SimOutputMsg string
  | SimProgressMsg SimulatorProgress
  | SimStatusMsg SimulatorStatus
  | TicketMsg string string "string option" int
  | SeededMsg int nat int
  | ConnectedMsg "ManagedNode list" SimulatorStatus ClusterStatus
  | PongMsg

text \<open>A request that the shared HTTP client sends to a node.\<close>

record ProxyReq =
  pq_Method :: string
  pq_URL :: string
  pq_Header :: "string \<Rightarrow> string"
  pq_Body :: bytes

text \<open>\<open>sp_sent\<close> records the requests that the handlers of \<open>proxy.go\<close> have sent, in order.\<close>

record Supervisor =
  sp_nodeManager :: NodeManager
  sp_simController :: SimulatorController
  sp_wsClients :: "(conn, unit) gomap"
  sp_wsBroadcast :: "sup_msg list"
  sp_outputThrottle :: "(string, int) gomap"
  sp_apiKey :: string
  sp_stopped :: bool
  sp_sent :: "ProxyReq list"

definition sup_NewServer :: "string \<Rightarrow> string \<Rightarrow> Supervisor" where
  "sup_NewServer dataDir apiKey =
     \<lparr>sp_nodeManager = NewNodeManager \<lparr>nc_DataDir = dataDir, nc_BasePort = 0, nc_BaseAPIPort = 0,
        nc_StatusCallback = True, nc_ClusterCallback = True, nc_OutputCallback = True\<rparr>,
      sp_simController = NewSimulatorController 0 True True True,
      sp_wsClients = fmempty, sp_wsBroadcast = [], sp_outputThrottle = fmempty,
      sp_apiKey = apiKey, sp_stopped = False, sp_sent = []\<rparr>"

definition wsBroadcast_capacity :: nat where "wsBroadcast_capacity = 512"

text \<open>A full channel drops the message.\<close>

definition broadcastWSMessage :: "sup_msg \<Rightarrow> Supervisor \<Rightarrow> Supervisor" where
  "broadcastWSMessage msg s =
     (if length (sp_wsBroadcast s) < wsBroadcast_capacity
      then s\<lparr>sp_wsBroadcast := sp_wsBroadcast s @ [msg]\<rparr> else s)"

section \<open>Callbacks\<close>

definition outputThrottle_window :: int where "outputThrottle_window = 50000000"

definition OutputCallback :: "int \<Rightarrow> string \<Rightarrow> string \<Rightarrow> Supervisor \<Rightarrow> Supervisor" where
  "OutputCallback now nodeID line s =
     (if (case mget (sp_outputThrottle s) nodeID of
            None \<Rightarrow> False | Some earlier \<Rightarrow> now - earlier < outputThrottle_window)
      then s
      else broadcastWSMessage (NodeOutputMsg nodeID line)
             (s\<lparr>sp_outputThrottle := fmupd nodeID now (sp_outputThrottle s)\<rparr>))"

definition StatusCallback :: "string \<Rightarrow> NodeStatus \<Rightarrow> Supervisor \<Rightarrow> Supervisor" where
  "StatusCallback nodeID status s =
     broadcastWSMessage (NodeStatusMsg nodeID status
       (case GetNode nodeID (sp_nodeManager s) of Inl err \<Rightarrow> None | Inr node \<Rightarrow> Some node)) s"

definition ClusterCallback :: "ClusterStatus \<Rightarrow> int \<Rightarrow> int \<Rightarrow> Supervisor \<Rightarrow> Supervisor" where
  "ClusterCallback status nodesStarted nodesTotal s =
     broadcastWSMessage (ClusterStatusMsg status nodesStarted nodesTotal) s"

fun node_callback :: "int \<Rightarrow> callback \<Rightarrow> Supervisor \<Rightarrow> Supervisor" where
  "node_callback now (StatusCall nodeID status) s = StatusCallback nodeID status s"
| "node_callback now (ClusterCall status started n) s = ClusterCallback status started n s"
| "node_callback now (OutputCall nodeID line) s = OutputCallback now nodeID line s"

fun sim_callback :: "sim_call \<Rightarrow> Supervisor \<Rightarrow> Supervisor" where
  "sim_callback (OutputLine line) s = broadcastWSMessage (SimOutputMsg line) s"
| "sim_callback (ProgressUpdate p) s = broadcastWSMessage (SimProgressMsg p) s"
| "sim_callback (SimStatus status) s = broadcastWSMessage (SimStatusMsg status) s"

definition manage :: "int \<Rightarrow> (NodeManager \<Rightarrow> 'a \<times> NodeManager) \<Rightarrow> Supervisor \<Rightarrow> 'a \<times> Supervisor" where
  "manage now f s =
     (case f ((sp_nodeManager s)\<lparr>nm_calls := []\<rparr>) of
        (r, m) \<Rightarrow> (r, fold (node_callback now) (nm_calls m) (s\<lparr>sp_nodeManager := m\<lparr>nm_calls := []\<rparr>\<rparr>)))"

definition simulate :: "(SimulatorController \<Rightarrow> 'a \<times> SimulatorController) \<Rightarrow> Supervisor \<Rightarrow> 'a \<times> Supervisor" where
  "simulate f s =
     (case f ((sp_simController s)\<lparr>ct_calls := []\<rparr>) of
        (r, c) \<Rightarrow> (r, fold sim_callback (ct_calls c) (s\<lparr>sp_simController := c\<lparr>ct_calls := []\<rparr>\<rparr>)))"

section \<open>Answers\<close>

datatype sup_data =
    NodesData "ManagedNode list"
  | NodeData ManagedNode
  | ActionData string string
  | LogsData string "string list"
  | ClusterData string int
  | StoppingData
  | StatusData nat "ManagedNode list" SimulatorStatus
  | SimStateData "SimulatorStatus \<times> string list \<times> SimulatorConfig option \<times> SimulatorProgress option \<times> SimulatorResults option"
  | SimStartedData SimulatorConfig
  | OutputData "string list"
  | ResultsData SimulatorResults
  | SeedData int "(string \<times> int) list"
  | SupervisorStats nat
  | NodeStats bytes
  | NoPeersData
  | SupervisorConfig nat

text \<open>\<open>Relayed\<close> is the status and the body of a node's own answer.\<close>

datatype sup_response = WriteJSON sup_data | WriteError int string | Relayed int bytes

definition nm_error_text :: "nm_error \<Rightarrow> string" where
  "nm_error_text err =
     (case err of
        AlreadyRunning i st \<Rightarrow> ''node '' @ i @ '' is already running (status: '' @ st @ '')''
      | NodeNotFound i \<Rightarrow> ''node '' @ i @ '' not found''
      | NodeNotRunning i st \<Rightarrow> ''node '' @ i @ '' is not running (status: '' @ st @ '')''
      | CannotRemoveRunning i \<Rightarrow> ''cannot remove running node '' @ i
      | NodeCountTooSmall \<Rightarrow> ''node count must be at least 1''
      | ClusterBusy \<Rightarrow> ''cluster operation already in progress'')"

definition sim_error_text :: "sim_error \<Rightarrow> string" where
  "sim_error_text err =
     (case err of SimAlreadyRunning \<Rightarrow> ''simulator is already running'' | SimNotRunning \<Rightarrow> ''simulator is not running'')"

definition config_error_text :: "config_error \<Rightarrow> string" where
  "config_error_text err =
     (case err of
        MinNodes \<Rightarrow> ''minimum 4 nodes required for BFT''
      | MaxNodes \<Rightarrow> ''maximum 30 nodes supported''
      | TooManyByzantine b mx n \<Rightarrow> ''byzantine nodes ('' @ FormatInt b @ '') exceeds maximum ('' @ FormatInt mx @ '') for '' @
          FormatInt n @ '' total nodes''
      | MinTickets \<Rightarrow> ''minimum 1 ticket required''
      | MaxTickets \<Rightarrow> ''maximum 1000 tickets supported''
      | MinDuration \<Rightarrow> ''minimum 10 seconds duration required''
      | MaxDuration \<Rightarrow> ''maximum 600 seconds duration supported''
      | BadPacketLoss \<Rightarrow> ''packet loss rate must be between 0 and 0.5'')"

section \<open>The primary\<close>

text \<open>
  \<open>refreshPrimaryStatus\<close> asks the running nodes in parallel; \<open>answers\<close> are the answers without
  error, in the order they arrive.
\<close>

definition refresh_one :: "string \<times> bool \<Rightarrow> Supervisor \<Rightarrow> Supervisor" where
  "refresh_one res s =
     (case UpdatePrimaryStatus (fst res) (snd res) (sp_nodeManager s) of
        (False, m) \<Rightarrow> s\<lparr>sp_nodeManager := m\<rparr>
      | (True, m) \<Rightarrow>
          let s1 = s\<lparr>sp_nodeManager := m\<rparr>
          in case GetNode (fst res) m of
               Inl err \<Rightarrow> s1
             | Inr node \<Rightarrow> broadcastWSMessage (NodeStatusMsg (fst res) (mn_Status node) (Some node)) s1)"

definition refreshPrimaryStatus :: "(string \<times> bool) list \<Rightarrow> Supervisor \<Rightarrow> Supervisor" where
  "refreshPrimaryStatus answers s = fold refresh_one answers s"

section \<open>Handlers of nodes and clusters\<close>

definition sup_handleGetStatus :: "Supervisor \<Rightarrow> sup_response" where
  "sup_handleGetStatus s =
     (let nodes = GetAllNodes (sp_nodeManager s)
      in WriteJSON (StatusData (length nodes) nodes (ct_status (sp_simController s))))"

definition handleGetNodes :: "(string \<times> bool) list \<Rightarrow> Supervisor \<Rightarrow> sup_response \<times> Supervisor" where
  "handleGetNodes answers s =
     (let s1 = refreshPrimaryStatus answers s in (WriteJSON (NodesData (GetAllNodes (sp_nodeManager s1))), s1))"

definition handleGetNode :: "string \<Rightarrow> Supervisor \<Rightarrow> sup_response" where
  "handleGetNode nodeID s =
     (case GetNode nodeID (sp_nodeManager s) of
        Inl err \<Rightarrow> WriteError 404 (nm_error_text err)
      | Inr node \<Rightarrow> WriteJSON (NodeData node))"

definition handleStartNode :: "(bytes \<Rightarrow> (string \<times> bool \<times> bool \<times> string) option) \<Rightarrow> int \<Rightarrow> HttpRequest \<Rightarrow>
    Supervisor \<Rightarrow> sup_response \<times> Supervisor" where
  "handleStartNode decode now r s =
     (case decode (rq_Body r) of
        None \<Rightarrow> (WriteError 400 ''invalid request body'', s)
      | Some (nodeID, isPrimary, isBootstrap, bootstrapAddr) \<Rightarrow>
          if nodeID = '''' then (WriteError 400 ''node_id is required'', s)
          else case manage now (StartNode nodeID isPrimary isBootstrap bootstrapAddr) s of
            (Some err, s1) \<Rightarrow> (WriteError 500 (nm_error_text err), s1)
          | (None, s1) \<Rightarrow> (WriteJSON (ActionData ''starting'' nodeID), s1))"

definition handleStopNode :: "int \<Rightarrow> string \<Rightarrow> Supervisor \<Rightarrow> sup_response \<times> Supervisor" where
  "handleStopNode now nodeID s =
     (case manage now (StopNode nodeID) s of
        (Some err, s1) \<Rightarrow> (WriteError 500 (nm_error_text err), s1)
      | (None, s1) \<Rightarrow> (WriteJSON (ActionData ''stopping'' nodeID), s1))"

definition restart_start :: "int \<Rightarrow> ManagedNode \<Rightarrow> string \<Rightarrow> Supervisor \<Rightarrow> sup_response \<times> Supervisor" where
  "restart_start now node nodeID s =
     (case manage now (StartNode nodeID (mn_IsPrimary node) (mn_IsBootstrap node) '''') s of
        (Some err, s1) \<Rightarrow> (WriteError 500 (nm_error_text err), s1)
      | (None, s1) \<Rightarrow> (WriteJSON (ActionData ''restarting'' nodeID), s1))"

text \<open>\<open>wait\<close> is the second between stopping and starting.\<close>

definition handleRestartNode :: "int \<Rightarrow> (Supervisor \<Rightarrow> Supervisor) \<Rightarrow> string \<Rightarrow> Supervisor \<Rightarrow> sup_response \<times> Supervisor" where
  "handleRestartNode now wait nodeID s =
     (case GetNode nodeID (sp_nodeManager s) of
        Inl err \<Rightarrow> (WriteError 404 (nm_error_text err), s)
      | Inr node \<Rightarrow>
          if mn_Status node = NodeStatusRunning then
            (case manage now (StopNode nodeID) s of
               (Some err, s1) \<Rightarrow> (WriteError 500 (nm_error_text err), s1)
             | (None, s1) \<Rightarrow> restart_start now node nodeID (wait s1))
          else restart_start now node nodeID s)"

definition handleGetNodeLogs :: "string \<Rightarrow> Supervisor \<Rightarrow> sup_response" where
  "handleGetNodeLogs nodeID s =
     (case GetNodeLogs nodeID (sp_nodeManager s) of
        Inl err \<Rightarrow> WriteError 404 (nm_error_text err)
      | Inr logs \<Rightarrow> WriteJSON (LogsData nodeID logs))"

text \<open>\<open>wait\<close> is the wait for the old processes; the start itself goes on in the background.\<close>

definition handleStartCluster :: "(bytes \<Rightarrow> int option) \<Rightarrow> int \<Rightarrow> (Supervisor \<Rightarrow> Supervisor) \<Rightarrow> HttpRequest \<Rightarrow>
    Supervisor \<Rightarrow> sup_response \<times> Supervisor" where
  "handleStartCluster decode now wait r s =
     (case decode (rq_Body r) of
        None \<Rightarrow> (WriteError 400 ''invalid request body'', s)
      | Some n \<Rightarrow>
          let nodeCount = (if n < 1 then 4 else n)
          in case manage now (cluster_begin nodeCount) s of
               (Some err, s1) \<Rightarrow> (WriteError 500 (nm_error_text err), s1)
             | (None, s1) \<Rightarrow>
                 (WriteJSON (ClusterData ''starting'' nodeCount),
                  snd (manage now (\<lambda>m. ((), cluster_reset nodeCount m)) (wait s1))))"

definition handleStopCluster :: "int \<Rightarrow> Supervisor \<Rightarrow> sup_response \<times> Supervisor" where
  "handleStopCluster now s = (WriteJSON StoppingData, snd (manage now (\<lambda>m. ((), StopAllNodes m)) s))"

section \<open>Handlers of the simulator\<close>

definition handleGetSimulatorStatus :: "Supervisor \<Rightarrow> sup_response" where
  "handleGetSimulatorStatus s = WriteJSON (SimStateData (GetFullState (sp_simController s)))"

definition handleStartSimulator :: "(bytes \<Rightarrow> SimulatorConfig option) \<Rightarrow> HttpRequest \<Rightarrow> Supervisor \<Rightarrow> sup_response \<times> Supervisor" where
  "handleStartSimulator decode r s =
     (let config = (case decode (rq_Body r) of None \<Rightarrow> DefaultSimulatorConfig | Some c \<Rightarrow> c)
      in case ValidateConfig config of
           Some err \<Rightarrow> (WriteError 400 (config_error_text err), s)
         | None \<Rightarrow>
             (case simulate (sim_Start config) s of
                (Some err, s1) \<Rightarrow> (WriteError 500 (sim_error_text err), s1)
              | (None, s1) \<Rightarrow> (WriteJSON (SimStartedData config), s1)))"

definition handleStopSimulator :: "Supervisor \<Rightarrow> sup_response \<times> Supervisor" where
  "handleStopSimulator s =
     (case simulate sim_Stop s of
        (Some err, s1) \<Rightarrow> (WriteError 500 (sim_error_text err), s1)
      | (None, s1) \<Rightarrow> (WriteJSON StoppingData, s1))"

definition handleGetSimulatorOutput :: "Supervisor \<Rightarrow> sup_response" where
  "handleGetSimulatorOutput s = WriteJSON (OutputData (GetOutput (sp_simController s)))"

definition handleGetSimulatorResults :: "Supervisor \<Rightarrow> sup_response" where
  "handleGetSimulatorResults s =
     (case GetResults (sp_simController s) of
        None \<Rightarrow> WriteError 404 ''no results available''
      | Some results \<Rightarrow> WriteJSON (ResultsData results))"

section \<open>WebSocket clients\<close>

text \<open>
  A new client is sent the state; where that write fails it is removed again. \<open>ok\<close> says that
  a write succeeds.
\<close>

definition sup_disconnect :: "conn \<Rightarrow> Supervisor \<Rightarrow> Supervisor" where
  "sup_disconnect c s = s\<lparr>sp_wsClients := fmdrop c (sp_wsClients s)\<rparr>"

definition sendWSMessage :: "(conn \<Rightarrow> bool) \<Rightarrow> conn \<Rightarrow> sup_msg \<Rightarrow> Supervisor \<Rightarrow> (conn \<times> sup_msg) list \<times> Supervisor" where
  "sendWSMessage ok c msg s = (if ok c then ([(c, msg)], s) else ([], sup_disconnect c s))"

definition sup_handleWebSocket :: "(conn \<Rightarrow> bool) \<Rightarrow> conn \<Rightarrow> Supervisor \<Rightarrow> (conn \<times> sup_msg) list \<times> Supervisor" where
  "sup_handleWebSocket ok c s =
     sendWSMessage ok c
       (ConnectedMsg (GetAllNodes (sp_nodeManager s)) (ct_status (sp_simController s)) (GetClusterStatus (sp_nodeManager s)))
       (s\<lparr>sp_wsClients := fmupd c () (sp_wsClients s)\<rparr>)"

text \<open>One message of a client: \<open>None\<close> for a read error, otherwise its type, if it has one.\<close>

definition handleWSMessage :: "(conn \<Rightarrow> bool) \<Rightarrow> conn \<Rightarrow> string option option \<Rightarrow> Supervisor \<Rightarrow> (conn \<times> sup_msg) list \<times> Supervisor" where
  "handleWSMessage ok c msg s =
     (case msg of
        None \<Rightarrow> ([], sup_disconnect c s)
      | Some t \<Rightarrow> if t = Some ''ping'' then sendWSMessage ok c PongMsg s else ([], s))"

text \<open>
  One turn of \<open>wsBroadcastPump\<close>: what was written to whom, and the supervisor afterwards. When
  the server is stopped and a message is waiting, Go picks either; \<open>takeStop\<close> is the choice.
\<close>

definition wsBroadcastPump_turn :: "bool \<Rightarrow> (conn \<Rightarrow> bool) \<Rightarrow> Supervisor \<Rightarrow> (conn \<times> sup_msg) list \<times> Supervisor" where
  "wsBroadcastPump_turn takeStop ok s =
     (if sp_stopped s \<and> (sp_wsBroadcast s = [] \<or> takeStop) then ([], s)
      else case sp_wsBroadcast s of
        [] \<Rightarrow> ([], s)
      | msg # q \<Rightarrow>
          let clients = keys (sp_wsClients s); dead = filter (\<lambda>c. \<not> ok c) clients
          in (map (\<lambda>c. (c, msg)) (filter ok clients), fold sup_disconnect dead (s\<lparr>sp_wsBroadcast := q\<rparr>)))"

definition checkSupervisorWSOrigin :: "(string \<Rightarrow> (string \<times> string) option) \<Rightarrow> string \<Rightarrow> HttpRequest \<Rightarrow> bool" where
  "checkSupervisorWSOrigin parse allowed r =
     (let origin = rq_Header r ''Origin''
      in if origin = '''' then True
         else case parse origin of
           None \<Rightarrow> False
         | Some (host, originHost) \<Rightarrow>
             EqualFold host (rq_Host r) \<or>
             originHost = ''localhost'' \<or> originHost = ''127.0.0.1'' \<or> originHost = ''::1'' \<or>
             (allowed \<noteq> '''' \<and>
              list_ex (\<lambda>a. a \<noteq> '''' \<and> EqualFold origin a) (map TrimSpace (Split (CHR '','') allowed))))"

text \<open>The nodes and a running simulation are stopped, every client is closed.\<close>

definition sup_Stop :: "int \<Rightarrow> Supervisor \<Rightarrow> Supervisor" where
  "sup_Stop now s =
     (let s1 = snd (manage now (\<lambda>m. ((), StopAllNodes m)) (s\<lparr>sp_stopped := True\<rparr>));
          s2 = (if ct_status (sp_simController s1) = SimulatorStatusRunning then snd (simulate sim_Stop s1) else s1)
      in s2\<lparr>sp_wsClients := fmempty\<rparr>)"

end
