(* ===== verification/Supervisor_Proxy.thy ===== *)
theory Supervisor_Proxy
  imports Supervisor
begin

text \<open>
  \<open>pkg/supervisor/proxy.go\<close>: ticket requests that the supervisor hands on to the nodes, and the
  routes and the authentication of \<open>server.go\<close>, which dispatch to both groups of handlers.

  \<open>NodeNet\<close> is the network as the shared HTTP client sees it: the answer to a request, or an
  error. The answer may depend on everything that was sent before, so nodes may change their
  minds between two requests. The handlers pass the requests sent so far along, \<open>ask\<close> adds
  to them, and they end in \<open>sp_sent\<close>. The nodes are listed in the order in which Go's map
  happens to be visited, an argument of the handlers; the statements are about every order.
  Response headers are not modelled.
\<close>

section \<open>Requests to nodes\<close>

text \<open>The request cannot be built (its URL does not parse), it fails, or it is answered.\<close>

datatype net_result = BadRequest string | NetError string | Answer int bytes

type_synonym NodeNet = "ProxyReq list \<Rightarrow> ProxyReq \<Rightarrow> net_result"

text \<open>A request that cannot be built is not sent.\<close>

definition ask :: "NodeNet \<Rightarrow> ProxyReq \<Rightarrow> ProxyReq list \<Rightarrow> net_result \<times> ProxyReq list" where
  "ask N q h = (case N h q of BadRequest err \<Rightarrow> (BadRequest err, h) | ans \<Rightarrow> (ans, h @ [q]))"

text \<open>
  What the supervisor reads from JSON: the primary flag of the statistics, the ticket ID of a
  request (empty where there is none), the request to validate at a node, the number of
  seeded tickets (0 where there is none), the statistics marked with the supervisor mode; and
  the body it writes for a ticket.
\<close>

record SupDecoders =
  sd_isPrimary :: "bytes \<Rightarrow> bool option"
  sd_ticketID :: "bytes \<Rightarrow> string"
  sd_viaNode :: "bytes \<Rightarrow> (string \<times> string) option"
  sd_seeded :: "bytes \<Rightarrow> int"
  sd_stats :: "bytes \<Rightarrow> bytes option"
  sd_ticketBody :: "string \<Rightarrow> bytes"

definition node_url :: "ManagedNode \<Rightarrow> string" where
  "node_url n = ''http://127.0.0.1:'' @ FormatInt (mn_APIPort n)"

definition key_header :: "string \<Rightarrow> string \<Rightarrow> string" where
  "key_header apiKey = (\<lambda>h. if h = ''X-API-Key'' \<and> apiKey \<noteq> '''' then apiKey else '''')"

definition health_request :: "string \<Rightarrow> ProxyReq" where
  "health_request baseURL = \<lparr>pq_Method = ''GET'', pq_URL = baseURL @ ''/health'', pq_Header = (\<lambda>h. ''''), pq_Body = ''''\<rparr>"

definition stats_request :: "string \<Rightarrow> string \<Rightarrow> ProxyReq" where
  "stats_request apiKey baseURL =
     \<lparr>pq_Method = ''GET'', pq_URL = baseURL @ ''/api/v1/stats'', pq_Header = key_header apiKey, pq_Body = ''''\<rparr>"

definition isNodeReachable :: "NodeNet \<Rightarrow> string \<Rightarrow> ProxyReq list \<Rightarrow> bool \<times> ProxyReq list" where
  "isNodeReachable N baseURL h =
     (case ask N (health_request baseURL) h of
        (Answer status body, h1) \<Rightarrow> (status = 200, h1) | (_, h1) \<Rightarrow> (False, h1))"

definition checkNodeIsPrimary ::
  "NodeNet \<Rightarrow> SupDecoders \<Rightarrow> string \<Rightarrow> string \<Rightarrow> ProxyReq list \<Rightarrow> bool option \<times> ProxyReq list" where
  "checkNodeIsPrimary N J apiKey baseURL h =
     (case ask N (stats_request apiKey baseURL) h of
        (Answer status body, h1) \<Rightarrow> (if status \<noteq> 200 then None else sd_isPrimary J body, h1)
      | (_, h1) \<Rightarrow> (None, h1))"

section \<open>Choosing a node\<close>

datatype url_error = StillStarting | NoRunningNodes | PrimaryNotRunning NodeStatus | PrimaryStarting | NoPrimary

definition url_error_text :: "url_error \<Rightarrow> string" where
  "url_error_text err =
     (case err of
        StillStarting \<Rightarrow> ''nodes are still starting up, please try again in a few seconds''
      | NoRunningNodes \<Rightarrow> ''no running nodes available''
      | PrimaryNotRunning st \<Rightarrow> ''primary node is not running (status: '' @ st @ ''). Start a cluster first''
      | PrimaryStarting \<Rightarrow> ''primary node is still starting up, please try again in a few seconds''
      | NoPrimary \<Rightarrow> ''no primary node found. Start a cluster first'')"

text \<open>The loop keeps the last reachable primary and the first other reachable node.\<close>

fun running_loop :: "NodeNet \<Rightarrow> ManagedNode list \<Rightarrow> string \<times> string \<times> bool \<Rightarrow> ProxyReq list \<Rightarrow>
    (string \<times> string \<times> bool) \<times> ProxyReq list" where
  "running_loop N [] acc h = (acc, h)"
| "running_loop N (n # ns) (primaryURL, fallbackURL, hasRunning) h =
     (if mn_Status n = NodeStatusRunning then
        case isNodeReachable N (node_url n) h of (reachable, h1) \<Rightarrow>
          running_loop N ns
            (if \<not> reachable then (primaryURL, fallbackURL, True)
             else if mn_IsPrimary n then (node_url n, fallbackURL, True)
             else if fallbackURL = '''' then (primaryURL, node_url n, True)
             else (primaryURL, fallbackURL, True)) h1
      else running_loop N ns (primaryURL, fallbackURL, hasRunning) h)"

definition getRunningNodeURL :: "NodeNet \<Rightarrow> ManagedNode list \<Rightarrow> ProxyReq list \<Rightarrow> (url_error + string) \<times> ProxyReq list" where
  "getRunningNodeURL N nodes h =
     (case running_loop N nodes ('''', '''', False) h of
        ((primaryURL, fallbackURL, hasRunning), h1) \<Rightarrow>
          (if primaryURL \<noteq> '''' then Inr primaryURL
           else if fallbackURL \<noteq> '''' then Inr fallbackURL
           else if hasRunning then Inl StillStarting
           else Inl NoRunningNodes, h1))"

text \<open>The first phase of \<open>getPrimaryNodeURL\<close>: the first running node that says it is the primary.\<close>

fun primary_loop :: "NodeNet \<Rightarrow> SupDecoders \<Rightarrow> string \<Rightarrow> ManagedNode list \<Rightarrow> ProxyReq list \<Rightarrow> string option \<times> ProxyReq list" where
  "primary_loop N J apiKey [] h = (None, h)"
| "primary_loop N J apiKey (n # ns) h =
     (if mn_Status n \<noteq> NodeStatusRunning then primary_loop N J apiKey ns h
      else case checkNodeIsPrimary N J apiKey (node_url n) h of
        (isPrimary, h1) \<Rightarrow> if isPrimary = Some True then (Some (node_url n), h1) else primary_loop N J apiKey ns h1)"

text \<open>First the node that says it is the primary, then the one that was started as primary.\<close>

definition getPrimaryNodeURL ::
  "NodeNet \<Rightarrow> SupDecoders \<Rightarrow> string \<Rightarrow> ManagedNode list \<Rightarrow> ProxyReq list \<Rightarrow> (url_error + string) \<times> ProxyReq list" where
  "getPrimaryNodeURL N J apiKey nodes h =
     (case primary_loop N J apiKey nodes h of
        (Some url, h1) \<Rightarrow> (Inr url, h1)
      | (None, h1) \<Rightarrow>
          (case find mn_IsPrimary nodes of
             None \<Rightarrow> (Inl NoPrimary, h1)
           | Some n \<Rightarrow>
               if mn_Status n \<noteq> NodeStatusRunning then (Inl (PrimaryNotRunning (mn_Status n)), h1)
               else case isNodeReachable N (node_url n) h1 of
                 (reachable, h2) \<Rightarrow> (if \<not> reachable then Inl PrimaryStarting else Inr (node_url n), h2)))"

section \<open>Handing requests on\<close>

definition no_nodes_text :: string where "no_nodes_text = ''No running nodes available. Start a cluster first.''"

text \<open>A body is read up to one megabyte; a longer one is an error.\<close>

definition read_body :: "HttpRequest \<Rightarrow> bytes option" where
  "read_body r = (if length (rq_Body r) \<le> 2 ^ 20 then Some (rq_Body r) else None)"

text \<open>The request that hands the client's on: its method, headers and body, for the node.\<close>

definition client_request :: "HttpRequest \<Rightarrow> string \<Rightarrow> string \<Rightarrow> bytes \<Rightarrow> ProxyReq" where
  "client_request r nodeURL ep body =
     \<lparr>pq_Method = rq_Method r, pq_URL = nodeURL @ ''/api/v1'' @ ep, pq_Header = rq_Header r, pq_Body = body\<rparr>"

definition forward :: "NodeNet \<Rightarrow> HttpRequest \<Rightarrow> string \<Rightarrow> string \<Rightarrow> bytes \<Rightarrow> ProxyReq list \<Rightarrow> net_result \<times> ProxyReq list" where
  "forward N r nodeURL ep body h = ask N (client_request r nodeURL ep body) h"

definition connect_failed :: "string \<Rightarrow> sup_response" where
  "connect_failed err = WriteError 502 (''Failed to connect to validator node: '' @ err)"

definition relay_to :: "NodeNet \<Rightarrow> HttpRequest \<Rightarrow> string \<Rightarrow> (url_error + string) \<times> ProxyReq list \<Rightarrow> sup_response \<times> ProxyReq list" where
  "relay_to N r ep chosen =
     (case chosen of
        (Inl err, h) \<Rightarrow> (WriteError 503 no_nodes_text, h)
      | (Inr nodeURL, h) \<Rightarrow>
          (case read_body r of
             None \<Rightarrow> (WriteError 500 ''Failed to read request body'', h)
           | Some body \<Rightarrow>
               (case forward N r nodeURL ep body h of
                  (BadRequest err, h1) \<Rightarrow> (WriteError 500 ''Failed to create proxy request'', h1)
                | (NetError err, h1) \<Rightarrow> (connect_failed err, h1)
                | (Answer status resp, h1) \<Rightarrow> (Relayed status resp, h1))))"

definition proxyRequest :: "NodeNet \<Rightarrow> ManagedNode list \<Rightarrow> HttpRequest \<Rightarrow> string \<Rightarrow> ProxyReq list \<Rightarrow> sup_response \<times> ProxyReq list" where
  "proxyRequest N nodes r ep h = relay_to N r ep (getRunningNodeURL N nodes h)"

text \<open>\<open>nodes'\<close> is the order of the second visit.\<close>

definition proxyRequestToPrimary ::
  "NodeNet \<Rightarrow> SupDecoders \<Rightarrow> string \<Rightarrow> ManagedNode list \<Rightarrow> ManagedNode list \<Rightarrow> HttpRequest \<Rightarrow> string \<Rightarrow>
   ProxyReq list \<Rightarrow> sup_response \<times> ProxyReq list" where
  "proxyRequestToPrimary N J apiKey nodes nodes' r ep h =
     relay_to N r ep (case getPrimaryNodeURL N J apiKey nodes h of
        (Inr url, h1) \<Rightarrow> (Inr url, h1) | (Inl err, h1) \<Rightarrow> getRunningNodeURL N nodes' h1)"

definition proxyTicketRequest ::
  "NodeNet \<Rightarrow> SupDecoders \<Rightarrow> ManagedNode list \<Rightarrow> int \<Rightarrow> HttpRequest \<Rightarrow> string \<Rightarrow> string \<Rightarrow> Supervisor \<Rightarrow> sup_response \<times> Supervisor" where
  "proxyTicketRequest N J nodes now r ep eventType s =
     (case getPrimaryNodeURL N J (sp_apiKey s) nodes (sp_sent s) of
        (Inl err, h) \<Rightarrow> (WriteError 503 (url_error_text err), s\<lparr>sp_sent := h\<rparr>)
      | (Inr nodeURL, h) \<Rightarrow>
          (case read_body r of
             None \<Rightarrow> (WriteError 400 ''Failed to read request body'', s\<lparr>sp_sent := h\<rparr>)
           | Some body \<Rightarrow>
               (case forward N r nodeURL ep body h of
                  (BadRequest err, h1) \<Rightarrow> (WriteError 500 ''Failed to create proxy request'', s\<lparr>sp_sent := h1\<rparr>)
                | (NetError err, h1) \<Rightarrow> (connect_failed err, s\<lparr>sp_sent := h1\<rparr>)
                | (Answer status resp, h1) \<Rightarrow>
                    (Relayed status resp,
                     if status = 200
                     then broadcastWSMessage (TicketMsg eventType (sd_ticketID J body) None now) (s\<lparr>sp_sent := h1\<rparr>)
                     else s\<lparr>sp_sent := h1\<rparr>))))"

definition handleProxyGetAllTickets where
  "handleProxyGetAllTickets N J apiKey nodes nodes' r = proxyRequestToPrimary N J apiKey nodes nodes' r ''/tickets''"

definition handleProxyGetTicket where
  "handleProxyGetTicket N J apiKey nodes nodes' r ticketID =
     proxyRequestToPrimary N J apiKey nodes nodes' r (''/tickets/'' @ ticketID)"

definition handleProxyValidateTicket where
  "handleProxyValidateTicket N J nodes now r s = proxyTicketRequest N J nodes now r ''/tickets/validate'' ''ticket_validated'' s"

definition handleProxyConsumeTicket where
  "handleProxyConsumeTicket N J nodes now r s = proxyTicketRequest N J nodes now r ''/tickets/consume'' ''ticket_consumed'' s"

definition handleProxyDisputeTicket where
  "handleProxyDisputeTicket N J nodes now r s = proxyTicketRequest N J nodes now r ''/tickets/dispute'' ''ticket_disputed'' s"

subsection \<open>Seeding\<close>

record seedResult =
  sr_NodeID :: string
  sr_Seeded :: int
  sr_Err :: "string option"

definition seedNode :: "NodeNet \<Rightarrow> SupDecoders \<Rightarrow> string \<Rightarrow> string \<Rightarrow> string \<Rightarrow> ProxyReq list \<Rightarrow> seedResult \<times> ProxyReq list" where
  "seedNode N J apiKey nodeID seedURL h =
     (case ask N \<lparr>pq_Method = ''POST'', pq_URL = seedURL, pq_Header = key_header apiKey, pq_Body = ''''\<rparr> h of
        (BadRequest err, h1) \<Rightarrow> (\<lparr>sr_NodeID = nodeID, sr_Seeded = 0, sr_Err = Some err\<rparr>, h1)
      | (NetError err, h1) \<Rightarrow> (\<lparr>sr_NodeID = nodeID, sr_Seeded = 0, sr_Err = Some err\<rparr>, h1)
      | (Answer status body, h1) \<Rightarrow> (\<lparr>sr_NodeID = nodeID, sr_Seeded = sd_seeded J body, sr_Err = None\<rparr>, h1))"

fun seed_targets :: "NodeNet \<Rightarrow> ManagedNode list \<Rightarrow> ProxyReq list \<Rightarrow> ManagedNode list \<times> ProxyReq list" where
  "seed_targets N [] h = ([], h)"
| "seed_targets N (n # ns) h =
     (if mn_Status n \<noteq> NodeStatusRunning then seed_targets N ns h
      else case isNodeReachable N (node_url n) h of
        (False, h1) \<Rightarrow> seed_targets N ns h1
      | (True, h1) \<Rightarrow> (case seed_targets N ns h1 of (ts, h2) \<Rightarrow> (n # ts, h2)))"

text \<open>
  The goroutines send in any order, each writes the result of its own target; \<open>order\<close> says whose
  turn it is, and targets it does not name follow at the end.
\<close>

definition seed_order :: "nat list \<Rightarrow> nat \<Rightarrow> nat list" where
  "seed_order order k = remdups (filter (\<lambda>i. i < k) order @ [0..<k])"

fun seed_all :: "NodeNet \<Rightarrow> SupDecoders \<Rightarrow> string \<Rightarrow> ManagedNode list \<Rightarrow> nat list \<Rightarrow> ProxyReq list \<Rightarrow>
    (nat \<times> seedResult) list \<times> ProxyReq list" where
  "seed_all N J apiKey targets [] h = ([], h)"
| "seed_all N J apiKey targets (i # is) h =
     (case seedNode N J apiKey (mn_ID (targets ! i)) (node_url (targets ! i) @ ''/api/v1/tickets/seed'') h of
        (res, h1) \<Rightarrow> (case seed_all N J apiKey targets is h1 of (rest, h2) \<Rightarrow> ((i, res) # rest, h2)))"

definition handleProxySeedTickets ::
  "NodeNet \<Rightarrow> SupDecoders \<Rightarrow> ManagedNode list \<Rightarrow> nat list \<Rightarrow> int \<Rightarrow> Supervisor \<Rightarrow> sup_response \<times> Supervisor" where
  "handleProxySeedTickets N J nodes order now s =
     (case seed_targets N nodes (sp_sent s) of
        (targets, h) \<Rightarrow>
          if targets = [] then (WriteError 503 no_nodes_text, s\<lparr>sp_sent := h\<rparr>)
          else case seed_all N J (sp_apiKey s) targets (seed_order order (length targets)) h of
            (finished, h1) \<Rightarrow>
              let results = List.map_filter (map_of finished) [0..<length targets];
                  good = filter (\<lambda>r. sr_Err r = None) results;
                  errs = List.map_filter sr_Err results
              in if good = [] then
                   (WriteError 503 (if errs = [] then no_nodes_text else ''Failed to seed: '' @ last errs), s\<lparr>sp_sent := h1\<rparr>)
                 else
                   let seededTotal = sum_list (map sr_Seeded good)
                   in (WriteJSON (SeedData seededTotal (map (\<lambda>r. (sr_NodeID r, sr_Seeded r)) good)),
                       broadcastWSMessage (SeededMsg seededTotal (length good) now) (s\<lparr>sp_sent := h1\<rparr>)))"

subsection \<open>Validation at a chosen node\<close>

definition via_request :: "string \<Rightarrow> string \<Rightarrow> bytes \<Rightarrow> ProxyReq" where
  "via_request apiKey nodeURL body =
     \<lparr>pq_Method = ''POST'', pq_URL = nodeURL @ ''/api/v1/tickets/validate'',
      pq_Header = (\<lambda>h. if h = ''Content-Type'' then ''application/json'' else key_header apiKey h), pq_Body = body\<rparr>"

definition handleProxyValidateTicketViaNode ::
  "NodeNet \<Rightarrow> SupDecoders \<Rightarrow> int \<Rightarrow> HttpRequest \<Rightarrow> Supervisor \<Rightarrow> sup_response \<times> Supervisor" where
  "handleProxyValidateTicketViaNode N J now r s =
     (case sd_viaNode J (rq_Body r) of
        None \<Rightarrow> (WriteError 400 ''Invalid request body'', s)
      | Some (ticketID, nodeID) \<Rightarrow>
          if ticketID = '''' then (WriteError 400 ''ticket_id is required'', s)
          else if nodeID = '''' then (WriteError 400 ''node_id is required'', s)
          else case GetNode nodeID (sp_nodeManager s) of
            Inl err \<Rightarrow> (WriteError 404 (''Node not found: '' @ nodeID), s)
          | Inr node \<Rightarrow>
              if mn_Status node \<noteq> NodeStatusRunning
              then (WriteError 503 (''Node '' @ nodeID @ '' is not running (status: '' @ mn_Status node @ '')''), s)
              else case isNodeReachable N (node_url node) (sp_sent s) of
                (False, h) \<Rightarrow> (WriteError 503 (''Node '' @ nodeID @ '' is not reachable yet''), s\<lparr>sp_sent := h\<rparr>)
              | (True, h) \<Rightarrow>
                  (case ask N (via_request (sp_apiKey s) (node_url node) (sd_ticketBody J ticketID)) h of
                     (BadRequest err, h1) \<Rightarrow> (WriteError 500 ''Failed to create proxy request'', s\<lparr>sp_sent := h1\<rparr>)
                   | (NetError err, h1) \<Rightarrow> (WriteError 502 (''Failed to connect to node '' @ nodeID @ '': '' @ err), s\<lparr>sp_sent := h1\<rparr>)
                   | (Answer status resp, h1) \<Rightarrow>
                       (Relayed status resp,
                        if status = 200
                        then broadcastWSMessage (TicketMsg ''ticket_validated'' ticketID (Some nodeID) now) (s\<lparr>sp_sent := h1\<rparr>)
                        else s\<lparr>sp_sent := h1\<rparr>)))"

subsection \<open>Inspection\<close>

definition handleProxyGetStats :: "NodeNet \<Rightarrow> SupDecoders \<Rightarrow> ManagedNode list \<Rightarrow> Supervisor \<Rightarrow> ProxyReq list \<Rightarrow> sup_response \<times> ProxyReq list" where
  "handleProxyGetStats N J nodes s h =
     (case getRunningNodeURL N nodes h of
        (Inl err, h1) \<Rightarrow> (WriteJSON (SupervisorStats (length (GetAllNodes (sp_nodeManager s)))), h1)
      | (Inr nodeURL, h1) \<Rightarrow>
          (case ask N (stats_request (sp_apiKey s) nodeURL) h1 of
             (Answer status body, h2) \<Rightarrow>
               (case sd_stats J body of
                  None \<Rightarrow> (WriteError 500 ''Failed to parse stats'', h2)
                | Some marked \<Rightarrow> (WriteJSON (NodeStats marked), h2))
           | (_, h2) \<Rightarrow> (WriteError 502 ''Failed to get stats from node'', h2)))"

definition handleProxyGetPeers :: "NodeNet \<Rightarrow> ManagedNode list \<Rightarrow> ManagedNode list \<Rightarrow> HttpRequest \<Rightarrow> ProxyReq list \<Rightarrow>
    sup_response \<times> ProxyReq list" where
  "handleProxyGetPeers N nodes nodes' r h =
     (case getRunningNodeURL N nodes h of
        (Inl err, h1) \<Rightarrow> (WriteJSON NoPeersData, h1)
      | (Inr _, h1) \<Rightarrow> proxyRequest N nodes' r ''/peers'' h1)"

definition handleProxyGetConfig :: "NodeNet \<Rightarrow> ManagedNode list \<Rightarrow> ManagedNode list \<Rightarrow> HttpRequest \<Rightarrow> Supervisor \<Rightarrow>
    ProxyReq list \<Rightarrow> sup_response \<times> ProxyReq list" where
  "handleProxyGetConfig N nodes nodes' r s h =
     (case getRunningNodeURL N nodes h of
        (Inl err, h1) \<Rightarrow> (WriteJSON (SupervisorConfig (length (GetAllNodes (sp_nodeManager s)))), h1)
      | (Inr _, h1) \<Rightarrow> proxyRequest N nodes' r ''/config'' h1)"

definition handleProxyGetConsensusLogs where
  "handleProxyGetConsensusLogs N nodes r = proxyRequest N nodes r ''/consensus/logs''"

definition handleProxyGetNodeCrypto where
  "handleProxyGetNodeCrypto N nodes r = proxyRequest N nodes r ''/node/crypto''"

definition handleProxyGetStorageEntries where
  "handleProxyGetStorageEntries N nodes r = proxyRequest N nodes r ''/storage/entries''"

text \<open>A handler that changes nothing but what was sent.\<close>

definition sending :: "(ProxyReq list \<Rightarrow> sup_response \<times> ProxyReq list) \<Rightarrow> Supervisor \<Rightarrow> sup_response \<times> Supervisor" where
  "sending f s = (case f (sp_sent s) of (resp, h) \<Rightarrow> (resp, s\<lparr>sp_sent := h\<rparr>))"

section \<open>Routes and authentication\<close>

datatype sup_endpoint =
    SGetNodes | SStartNode | SGetNode | SStopNode | SGetNodeLogs | SRestartNode | SStartCluster | SStopCluster
  | SGetSimulator | SStartSimulator | SStopSimulator | SSimulatorOutput | SSimulatorResults
  | SGetTickets | SValidate | SValidateViaNode | SConsume | SDispute | SSeed | SGetTicket
  | SGetStats | SGetPeers | SGetConfig | SConsensusLogs | SNodeCrypto | SStorageEntries | SStatus
  | SWebSocket | SStatic

definition sup_setupRoutes :: "bool \<Rightarrow> (string option \<times> string \<times> sup_endpoint) list" where
  "sup_setupRoutes staticDir =
     [(Some ''GET'', ''/api/v1/nodes'', SGetNodes),
      (Some ''POST'', ''/api/v1/nodes'', SStartNode),
      (Some ''GET'', ''/api/v1/nodes/{nodeID}'', SGetNode),
      (Some ''DELETE'', ''/api/v1/nodes/{nodeID}'', SStopNode),
      (Some ''GET'', ''/api/v1/nodes/{nodeID}/logs'', SGetNodeLogs),
      (Some ''POST'', ''/api/v1/nodes/{nodeID}/restart'', SRestartNode),
      (Some ''POST'', ''/api/v1/cluster/start'', SStartCluster),
      (Some ''POST'', ''/api/v1/cluster/stop'', SStopCluster),
      (Some ''GET'', ''/api/v1/simulator'', SGetSimulator),
      (Some ''POST'', ''/api/v1/simulator/start'', SStartSimulator),
      (Some ''POST'', ''/api/v1/simulator/stop'', SStopSimulator),
      (Some ''GET'', ''/api/v1/simulator/output'', SSimulatorOutput),
      (Some ''GET'', ''/api/v1/simulator/results'', SSimulatorResults),
      (Some ''GET'', ''/api/v1/tickets'', SGetTickets),
      (Some ''POST'', ''/api/v1/tickets/validate'', SValidate),
      (Some ''POST'', ''/api/v1/tickets/validate-via-node'', SValidateViaNode),
      (Some ''POST'', ''/api/v1/tickets/consume'', SConsume),
      (Some ''POST'', ''/api/v1/tickets/dispute'', SDispute),
      (Some ''POST'', ''/api/v1/tickets/seed'', SSeed),
      (Some ''GET'', ''/api/v1/tickets/{id}'', SGetTicket),
      (Some ''GET'', ''/api/v1/stats'', SGetStats),
      (Some ''GET'', ''/api/v1/peers'', SGetPeers),
      (Some ''GET'', ''/api/v1/config'', SGetConfig),
      (Some ''GET'', ''/api/v1/consensus/logs'', SConsensusLogs),
      (Some ''GET'', ''/api/v1/node/crypto'', SNodeCrypto),
      (Some ''GET'', ''/api/v1/storage/entries'', SStorageEntries),
      (Some ''GET'', ''/api/v1/status'', SStatus),
      (None, ''/ws'', SWebSocket)] @ (if staticDir then [(None, ''/'', SStatic)] else [])"

text \<open>
  What a request finds outside of the server: the network, the decoders, the orders in which
  the nodes are visited and seeded, the answers to the question for the primary, the time, what happens
  while a handler waits, the connection of a request that the upgrader, which checks the origin,
  lets through, which writes succeed, and how the file server and the upgrader answer.
\<close>

record SupWorld =
  sw_net :: NodeNet
  sw_json :: SupDecoders
  sw_nodes :: "ManagedNode list"
  sw_nodes2 :: "ManagedNode list"
  sw_order :: "nat list"
  sw_answers :: "(string \<times> bool) list"
  sw_now :: int
  sw_wait :: "Supervisor \<Rightarrow> Supervisor"
  sw_startNode :: "bytes \<Rightarrow> (string \<times> bool \<times> bool \<times> string) option"
  sw_cluster :: "bytes \<Rightarrow> int option"
  sw_simulator :: "bytes \<Rightarrow> SimulatorConfig option"
  sw_upgrade :: "HttpRequest \<Rightarrow> conn option"
  sw_ok :: "conn \<Rightarrow> bool"
  sw_other :: "HttpRequest \<Rightarrow> sup_response"

definition sup_dispatch :: "SupWorld \<Rightarrow> sup_endpoint \<Rightarrow> string \<Rightarrow> HttpRequest \<Rightarrow> Supervisor \<Rightarrow> sup_response \<times> Supervisor" where
  "sup_dispatch W ep var r s =
     (let N = sw_net W; J = sw_json W; ns = sw_nodes W; ns2 = sw_nodes2 W; now = sw_now W; key = sp_apiKey s
      in case ep of
        SGetNodes \<Rightarrow> handleGetNodes (sw_answers W) s
      | SStartNode \<Rightarrow> handleStartNode (sw_startNode W) now r s
      | SGetNode \<Rightarrow> (handleGetNode var s, s)
      | SStopNode \<Rightarrow> handleStopNode now var s
      | SGetNodeLogs \<Rightarrow> (handleGetNodeLogs var s, s)
      | SRestartNode \<Rightarrow> handleRestartNode now (sw_wait W) var s
      | SStartCluster \<Rightarrow> handleStartCluster (sw_cluster W) now (sw_wait W) r s
      | SStopCluster \<Rightarrow> handleStopCluster now s
      | SGetSimulator \<Rightarrow> (handleGetSimulatorStatus s, s)
      | SStartSimulator \<Rightarrow> handleStartSimulator (sw_simulator W) r s
      | SStopSimulator \<Rightarrow> handleStopSimulator s
      | SSimulatorOutput \<Rightarrow> (handleGetSimulatorOutput s, s)
      | SSimulatorResults \<Rightarrow> (handleGetSimulatorResults s, s)
      | SGetTickets \<Rightarrow> sending (handleProxyGetAllTickets N J key ns ns2 r) s
      | SValidate \<Rightarrow> handleProxyValidateTicket N J ns now r s
      | SValidateViaNode \<Rightarrow> handleProxyValidateTicketViaNode N J now r s
      | SConsume \<Rightarrow> handleProxyConsumeTicket N J ns now r s
      | SDispute \<Rightarrow> handleProxyDisputeTicket N J ns now r s
      | SSeed \<Rightarrow> handleProxySeedTickets N J ns (sw_order W) now s
      | SGetTicket \<Rightarrow> sending (handleProxyGetTicket N J key ns ns2 r var) s
      | SGetStats \<Rightarrow> sending (handleProxyGetStats N J ns s) s
      | SGetPeers \<Rightarrow> sending (handleProxyGetPeers N ns ns2 r) s
      | SGetConfig \<Rightarrow> sending (handleProxyGetConfig N ns ns2 r s) s
      | SConsensusLogs \<Rightarrow> sending (handleProxyGetConsensusLogs N ns r) s
      | SNodeCrypto \<Rightarrow> sending (handleProxyGetNodeCrypto N ns r) s
      | SStorageEntries \<Rightarrow> sending (handleProxyGetStorageEntries N ns r) s
      | SStatus \<Rightarrow> (sup_handleGetStatus s, s)
      | SWebSocket \<Rightarrow> (sw_other W r, case sw_upgrade W r of None \<Rightarrow> s | Some c \<Rightarrow> snd (sup_handleWebSocket (sw_ok W) c s))
      | SStatic \<Rightarrow> (sw_other W r, s))"

definition sup_apiKeyMiddleware ::
  "(HttpRequest \<Rightarrow> Supervisor \<Rightarrow> sup_response \<times> Supervisor) \<Rightarrow> HttpRequest \<Rightarrow> Supervisor \<Rightarrow> sup_response \<times> Supervisor" where
  "sup_apiKeyMiddleware next r s =
     (if rq_Path r = ''/ws'' \<or> \<not> HasPrefix (rq_Path r) ''/api/'' then next r s
      else if presented_key r \<noteq> sp_apiKey s then (WriteError 401 ''Invalid or missing API key'', s)
      else next r s)"

definition sup_ServeHTTP ::
  "((string option \<times> string \<times> sup_endpoint) list \<Rightarrow> string \<Rightarrow> string \<Rightarrow> (sup_endpoint \<times> string) option) \<Rightarrow>
   SupWorld \<Rightarrow> bool \<Rightarrow> HttpRequest \<Rightarrow> Supervisor \<Rightarrow> sup_response \<times> Supervisor" where
  "sup_ServeHTTP match W staticDir r s =
     (case match (sup_setupRoutes staticDir) (rq_Method r) (rq_Path r) of
        None \<Rightarrow> (sw_other W r, s)
      | Some (ep, var) \<Rightarrow>
          if sp_apiKey s \<noteq> '''' then sup_apiKeyMiddleware (sup_dispatch W ep var) r s
          else sup_dispatch W ep var r s)"

end
