(* ===== verification/Supervisor_Properties.thy ===== *)
theory Supervisor_Properties
  imports Supervisor_Proxy Node_Manager_Properties Simulator_Report "HOL-Library.Multiset"
begin

text \<open>
  What the supervisor guarantees: where it sends ticket requests, how it follows changes of the
  primary, what its clients see, and what keeps its state well formed.
\<close>

section \<open>Frames\<close>

lemma broadcast_fields [simp]:
  "sp_nodeManager (broadcastWSMessage msg s) = sp_nodeManager s" "sp_simController (broadcastWSMessage msg s) = sp_simController s"
  "sp_apiKey (broadcastWSMessage msg s) = sp_apiKey s" "sp_outputThrottle (broadcastWSMessage msg s) = sp_outputThrottle s"
  "sp_wsClients (broadcastWSMessage msg s) = sp_wsClients s" "sp_stopped (broadcastWSMessage msg s) = sp_stopped s"
  "sp_sent (broadcastWSMessage msg s) = sp_sent s"
  by (simp_all add: broadcastWSMessage_def)

lemma node_callback_fields [simp]:
  "sp_nodeManager (node_callback now c s) = sp_nodeManager s" "sp_simController (node_callback now c s) = sp_simController s"
  by (cases c; simp add: StatusCallback_def ClusterCallback_def OutputCallback_def)+

lemma sim_callback_fields [simp]:
  "sp_nodeManager (sim_callback c s) = sp_nodeManager s" "sp_simController (sim_callback c s) = sp_simController s"
  by (cases c; simp)+

lemma fold_node_callback [simp]:
  "sp_nodeManager (fold (node_callback now) cs s) = sp_nodeManager s"
  "sp_simController (fold (node_callback now) cs s) = sp_simController s"
  by (induction cs arbitrary: s) simp_all

lemma fold_sim_callback [simp]:
  "sp_nodeManager (fold sim_callback cs s) = sp_nodeManager s"
  "sp_simController (fold sim_callback cs s) = sp_simController s"
  by (induction cs arbitrary: s) simp_all

section \<open>Ticket requests\<close>

text \<open>
  The routes whose ticket requests are for the primary. Seeding, which goes to every node, and
  validation at a chosen node are not among them.
\<close>

fun ticket_route :: "sup_endpoint \<Rightarrow> (string \<times> string) option" where
  "ticket_route SValidate = Some (''/tickets/validate'', ''ticket_validated'')"
| "ticket_route SConsume = Some (''/tickets/consume'', ''ticket_consumed'')"
| "ticket_route SDispute = Some (''/tickets/dispute'', ''ticket_disputed'')"
| "ticket_route _ = None"

definition says_primary :: "SupDecoders \<Rightarrow> net_result \<Rightarrow> bool" where
  "says_primary J ans \<longleftrightarrow> (case ans of Answer status body \<Rightarrow> status = 200 \<and> sd_isPrimary J body = Some True | _ \<Rightarrow> False)"

text \<open>The questions that the supervisor asks on its own behalf, of running nodes only.\<close>

definition probe :: "string \<Rightarrow> ManagedNode list \<Rightarrow> ProxyReq \<Rightarrow> bool" where
  "probe key nodes q \<longleftrightarrow> (\<exists>n \<in> set nodes. mn_Status n = NodeStatusRunning \<and>
     (q = stats_request key (node_url n) \<or> q = health_request (node_url n)))"

text \<open>
  Among the questions \<open>ps\<close>, sent after \<open>h\<close>, is the one whether node \<open>n\<close> is the primary, and it was
  not answered with yes (or there is a point at which this question could not be built).
\<close>

definition asked_in_vain :: "NodeNet \<Rightarrow> SupDecoders \<Rightarrow> string \<Rightarrow> ProxyReq list \<Rightarrow> ProxyReq list \<Rightarrow> ManagedNode \<Rightarrow> bool" where
  "asked_in_vain N J key h ps n \<longleftrightarrow> (\<exists>ys zs. ps = ys @ zs \<and>
     (let q = stats_request key (node_url n); ans = N (h @ ys) q
      in \<not> says_primary J ans \<and> ((\<exists>err. ans = BadRequest err) \<or> (\<exists>zs'. zs = q # zs'))))"

text \<open>
  The node that a ticket request may be handed to after the questions \<open>ps\<close>: a running node that
  answered the last of them with yes, it is the primary; or the node started as primary,
  which was found reachable last, after no running node had said that it is the primary.
\<close>

definition acting_primary :: "NodeNet \<Rightarrow> SupDecoders \<Rightarrow> string \<Rightarrow> ManagedNode list \<Rightarrow> ProxyReq list \<Rightarrow> ProxyReq list \<Rightarrow>
    ManagedNode \<Rightarrow> bool" where
  "acting_primary N J key nodes h ps n \<longleftrightarrow> n \<in> set nodes \<and> mn_Status n = NodeStatusRunning \<and>
     ((\<exists>ys. ps = ys @ [stats_request key (node_url n)] \<and> says_primary J (N (h @ ys) (stats_request key (node_url n)))) \<or>
      mn_IsPrimary n \<and> (\<forall>k \<in> set nodes. mn_Status k = NodeStatusRunning \<longrightarrow> asked_in_vain N J key h ps k) \<and>
      (\<exists>ys body. ps = ys @ [health_request (node_url n)] \<and> N (h @ ys) (health_request (node_url n)) = Answer 200 body))"

lemma ask_cases: "ask N q h = (N h q, case N h q of BadRequest err \<Rightarrow> h | _ \<Rightarrow> h @ [q])"
  by (simp add: ask_def split: net_result.splits)

lemma checkNodeIsPrimary_yes:
  "fst (checkNodeIsPrimary N J key url h) = Some True \<longleftrightarrow> says_primary J (N h (stats_request key url))"
  by (simp add: checkNodeIsPrimary_def ask_cases says_primary_def split: net_result.splits)

lemma checkNodeIsPrimary_sent:
  "snd (checkNodeIsPrimary N J key url h) = snd (ask N (stats_request key url) h)"
  by (simp add: checkNodeIsPrimary_def ask_cases split: net_result.splits)

lemma isNodeReachable_yes:
  "isNodeReachable N url h = (True, h') \<longleftrightarrow> (\<exists>body. N h (health_request url) = Answer 200 body) \<and> h' = h @ [health_request url]"
  by (auto simp: isNodeReachable_def ask_cases split: net_result.splits)

lemma ask_appends: "\<exists>ps. snd (ask N q h) = h @ ps \<and> set ps \<subseteq> {q}"
  by (simp add: ask_cases split: net_result.splits)

lemma isNodeReachable_sent: "\<exists>ps. snd (isNodeReachable N url h) = h @ ps \<and> set ps \<subseteq> {health_request url}"
proof -
  have "snd (isNodeReachable N url h) = snd (ask N (health_request url) h)"
    by (simp add: isNodeReachable_def ask_cases split: net_result.splits)
  then show ?thesis using ask_appends by simp
qed

lemma asked_in_vain_append:
  "asked_in_vain N J key h ps n \<Longrightarrow> asked_in_vain N J key h (ps @ ps') n"
  "asked_in_vain N J key (h @ ps') ps n \<Longrightarrow> asked_in_vain N J key h (ps' @ ps) n"
  unfolding asked_in_vain_def Let_def by (metis append.assoc append_Cons)+

text \<open>The first phase: either the last question was answered with yes, or all running nodes were asked in vain.\<close>

definition phase_one :: "NodeNet \<Rightarrow> SupDecoders \<Rightarrow> string \<Rightarrow> ManagedNode list \<Rightarrow> ProxyReq list \<Rightarrow> ProxyReq list \<Rightarrow> string option \<Rightarrow> bool" where
  "phase_one N J key nodes h ps res \<longleftrightarrow> (\<forall>q \<in> set ps. probe key nodes q) \<and>
     (case res of
        Some url \<Rightarrow> (\<exists>n \<in> set nodes. \<exists>ys. mn_Status n = NodeStatusRunning \<and> url = node_url n \<and>
          ps = ys @ [stats_request key url] \<and> says_primary J (N (h @ ys) (stats_request key url)))
      | None \<Rightarrow> (\<forall>k \<in> set nodes. mn_Status k = NodeStatusRunning \<longrightarrow> asked_in_vain N J key h ps k))"

lemma phase_one_skip:
  assumes "phase_one N J key nodes h ps res" and "mn_Status n \<noteq> NodeStatusRunning"
  shows "phase_one N J key (n # nodes) h ps res"
  using assms by (cases res) (auto simp: phase_one_def probe_def)

lemma phase_one_next:
  assumes "phase_one N J key nodes (h @ ps1) ps res" and "asked_in_vain N J key h ps1 n" and "\<forall>q \<in> set ps1. probe key (n # nodes) q"
  shows "phase_one N J key (n # nodes) h (ps1 @ ps) res"
proof -
  have "\<forall>q \<in> set (ps1 @ ps). probe key (n # nodes) q" using assms(1,3) by (auto simp: phase_one_def probe_def)
  moreover have "asked_in_vain N J key h (ps1 @ ps) n" using assms(2) by (rule asked_in_vain_append(1))
  ultimately show ?thesis using assms(1) unfolding phase_one_def
    by (cases res) (auto intro: asked_in_vain_append(2))
qed

lemma primary_loop_phase_one:
  "primary_loop N J key nodes h = (res, h') \<Longrightarrow> \<exists>ps. h' = h @ ps \<and> phase_one N J key nodes h ps res"
proof (induction nodes arbitrary: h)
  case Nil
  then show ?case by (simp add: phase_one_def)
next
  case (Cons n nodes)
  show ?case
  proof (cases "mn_Status n = NodeStatusRunning")
    case False
    then show ?thesis using Cons phase_one_skip by fastforce
  next
    case running: True
    let ?q = "stats_request key (node_url n)"
    obtain ans h1 where c: "checkNodeIsPrimary N J key (node_url n) h = (ans, h1)" by fastforce
    have ans: "ans = Some True \<longleftrightarrow> says_primary J (N h ?q)" using checkNodeIsPrimary_yes [of N J key "node_url n" h] c by simp
    have h1: "h1 = snd (ask N ?q h)" using checkNodeIsPrimary_sent [of N J key "node_url n" h] c by simp
    show ?thesis
    proof (cases "ans = Some True")
      case True
      then have "res = Some (node_url n)" "h' = h1" using Cons.prems running c by simp_all
      moreover have "h1 = h @ [?q]" using True ans h1 by (simp add: ask_cases says_primary_def split: net_result.splits)
      ultimately show ?thesis using True ans running by (auto simp: phase_one_def probe_def)
    next
      case False
      then have rest: "primary_loop N J key nodes h1 = (res, h')" using Cons.prems running c by simp
      obtain ps1 where ps1: "h1 = h @ ps1" "set ps1 \<subseteq> {?q}" using ask_appends [of N ?q h] h1 by blast
      have "asked_in_vain N J key h ps1 n"
        using False ans h1 ps1(1) unfolding asked_in_vain_def Let_def
        by (intro exI [of _ "[]"] exI [of _ ps1]) (simp add: ask_cases split: net_result.splits)
      moreover have "\<forall>q \<in> set ps1. probe key (n # nodes) q" using ps1(2) running by (auto simp: probe_def)
      moreover obtain ps where "h' = h1 @ ps" "phase_one N J key nodes h1 ps res" using Cons.IH [OF rest] by blast
      ultimately show ?thesis using ps1(1) by (intro exI [of _ "ps1 @ ps"]) (auto intro: phase_one_next)
    qed
  qed
qed

lemma getPrimaryNodeURL_acting:
  assumes "getPrimaryNodeURL N J key nodes h = (res, h')"
  shows "\<exists>ps. h' = h @ ps \<and> (\<forall>q \<in> set ps. probe key nodes q) \<and>
    (\<forall>url. res = Inr url \<longrightarrow> (\<exists>n. acting_primary N J key nodes h ps n \<and> url = node_url n))"
proof -
  obtain first h1 where l: "primary_loop N J key nodes h = (first, h1)" by fastforce
  obtain ps where ps: "h1 = h @ ps" "phase_one N J key nodes h ps first" using primary_loop_phase_one [OF l] by blast
  show ?thesis
  proof (cases first)
    case (Some url)
    then have "res = Inr url" "h' = h1" using assms l by (simp_all add: getPrimaryNodeURL_def)
    with ps Some show ?thesis by (auto simp: phase_one_def acting_primary_def)
  next
    case first: None
    show ?thesis
    proof (cases "\<exists>n. find mn_IsPrimary nodes = Some n \<and> mn_Status n = NodeStatusRunning")
      case False
      then have "h' = h1" "\<forall>url. res \<noteq> Inr url"
        using assms l first by (auto simp: getPrimaryNodeURL_def split: option.splits)
      with ps show ?thesis by (auto simp: phase_one_def)
    next
      case True
      then obtain n where n: "find mn_IsPrimary nodes = Some n" "mn_Status n = NodeStatusRunning" by blast
      then have mem: "n \<in> set nodes" "mn_IsPrimary n" by (auto dest: find_SomeD)
      obtain up h2 where up: "isNodeReachable N (node_url n) h1 = (up, h2)" by fastforce
      have res: "res = (if \<not> up then Inl PrimaryStarting else Inr (node_url n))" "h' = h2"
        using assms l first n up by (simp_all add: getPrimaryNodeURL_def)
      obtain ps2 where ps2: "h2 = h1 @ ps2" "set ps2 \<subseteq> {health_request (node_url n)}"
        using isNodeReachable_sent [of N "node_url n" h1] up by auto
      have "\<forall>q \<in> set (ps @ ps2). probe key nodes q" using ps(2) ps2(2) n(2) mem by (auto simp: phase_one_def probe_def)
      moreover have "acting_primary N J key nodes h (ps @ ps2) n" if up1: up
      proof -
        have "ps2 = [health_request (node_url n)]" "\<exists>body. N h1 (health_request (node_url n)) = Answer 200 body"
          using up up1 ps2(1) isNodeReachable_yes by auto
        moreover have "\<forall>k \<in> set nodes. mn_Status k = NodeStatusRunning \<longrightarrow> asked_in_vain N J key h (ps @ ps2) k"
          using ps(2) first by (auto simp: phase_one_def intro: asked_in_vain_append(1))
        ultimately show ?thesis using ps(1) n(2) mem unfolding acting_primary_def by auto
      qed
      ultimately show ?thesis using res ps(1) ps2(1) by (intro exI [of _ "ps @ ps2"]) auto
    qed
  qed
qed

text \<open>A node that always says it is the primary while no other one does is found, in whatever order the nodes are visited.\<close>

definition sole_primary :: "NodeNet \<Rightarrow> SupDecoders \<Rightarrow> string \<Rightarrow> ManagedNode list \<Rightarrow> ManagedNode \<Rightarrow> bool" where
  "sole_primary N J key nodes n \<longleftrightarrow> n \<in> set nodes \<and> mn_Status n = NodeStatusRunning \<and>
     (\<forall>k \<in> set nodes. \<forall>h. mn_Status k = NodeStatusRunning \<longrightarrow> says_primary J (N h (stats_request key (node_url k))) = (k = n))"

lemma primary_loop_sole:
  assumes "n \<in> set nodes" and "mn_Status n = NodeStatusRunning"
    and "\<And>k h. k \<in> set nodes \<Longrightarrow> mn_Status k = NodeStatusRunning \<Longrightarrow>
      says_primary J (N h (stats_request key (node_url k))) = (k = n)"
  shows "fst (primary_loop N J key nodes h) = Some (node_url n)"
  using assms
proof (induction nodes arbitrary: h)
  case (Cons k nodes)
  obtain ans h1 where c: "checkNodeIsPrimary N J key (node_url k) h = (ans, h1)" by fastforce
  then have ans: "ans = Some True \<longleftrightarrow> k = n" if "mn_Status k = NodeStatusRunning"
    using checkNodeIsPrimary_yes [of N J key "node_url k" h] Cons.prems(3) [of k h] that by simp
  show ?case
  proof (cases "k = n")
    case True
    with ans c Cons.prems(2) show ?thesis by simp
  next
    case False
    then have "fst (primary_loop N J key nodes h') = Some (node_url n)" for h' using Cons by simp
    with False ans c show ?thesis by simp
  qed
qed simp

lemma getPrimaryNodeURL_sole:
  assumes "sole_primary N J key nodes n"
  shows "fst (getPrimaryNodeURL N J key nodes h) = Inr (node_url n)"
proof -
  have "fst (primary_loop N J key nodes h) = Some (node_url n)"
    using assms unfolding sole_primary_def by (intro primary_loop_sole) auto
  then show ?thesis by (cases "primary_loop N J key nodes h") (simp add: getPrimaryNodeURL_def)
qed

lemma sole_primary_mset: "mset nodes = mset nodes' \<Longrightarrow> sole_primary N J key nodes n = sole_primary N J key nodes' n"
  using mset_eq_setD [of nodes nodes'] by (simp add: sole_primary_def)

lemma dispatch_ticket:
  assumes "ticket_route ep = Some (path, event)"
  shows "sup_dispatch W ep var r s = proxyTicketRequest (sw_net W) (sw_json W) (sw_nodes W) (sw_now W) r path event s"
  using assms by (cases ep) (simp_all add: sup_dispatch_def Let_def handleProxyValidateTicket_def handleProxyConsumeTicket_def
      handleProxyDisputeTicket_def)

text \<open>How handing the client's request on ends, once a node is chosen after the requests \<open>sent\<close>.\<close>

lemma proxyTicketRequest_handed:
  assumes "getPrimaryNodeURL N J (sp_apiKey s) nodes (sp_sent s) = (Inr url, sent)"
    and "proxyTicketRequest N J nodes now r path event s = (resp, s')"
  defines "q \<equiv> client_request r url path (rq_Body r)"
  shows "\<exists>handed. handed \<in> {[], [q]} \<and>
    (\<forall>status body. resp = Relayed status body \<longleftrightarrow> handed = [q] \<and> N sent q = Answer status body) \<and>
    s' = (if \<exists>body. resp = Relayed 200 body then broadcastWSMessage (TicketMsg event (sd_ticketID J (rq_Body r)) None now) else (\<lambda>t. t))
       (s\<lparr>sp_sent := sent @ handed\<rparr>) \<and>
    (length (rq_Body r) \<le> 2 ^ 20 \<and> (\<forall>err. N sent q \<noteq> BadRequest err) \<longrightarrow> handed = [q])"
proof (cases "length (rq_Body r) \<le> 2 ^ 20")
  case False
  then have "resp = WriteError 400 ''Failed to read request body''" "s' = s\<lparr>sp_sent := sent\<rparr>"
    using assms(1,2) by (simp_all add: proxyTicketRequest_def read_body_def)
  with False show ?thesis by (intro exI [of _ "[]"]) simp
next
  case True
  then have body: "read_body r = Some (rq_Body r)" by (simp add: read_body_def)
  have fw: "forward N r url path (rq_Body r) sent = (N sent q, case N sent q of BadRequest err \<Rightarrow> sent | _ \<Rightarrow> sent @ [q])"
    unfolding q_def forward_def ask_cases by (rule refl)
  show ?thesis
  proof (cases "N sent q")
    case (BadRequest err)
    then have "resp = WriteError 500 ''Failed to create proxy request''" "s' = s\<lparr>sp_sent := sent\<rparr>"
      using assms(1,2) body fw by (simp_all add: proxyTicketRequest_def)
    with BadRequest show ?thesis by (intro exI [of _ "[]"]) simp
  next
    case (NetError err)
    then have "resp = connect_failed err" "s' = s\<lparr>sp_sent := sent @ [q]\<rparr>"
      using assms(1,2) body fw by (simp_all add: proxyTicketRequest_def)
    with NetError show ?thesis by (intro exI [of _ "[q]"]) (simp add: connect_failed_def)
  next
    case (Answer status body)
    then have "resp = Relayed status body" "s' = (if status = 200
        then broadcastWSMessage (TicketMsg event (sd_ticketID J (rq_Body r)) None now) (s\<lparr>sp_sent := sent @ [q]\<rparr>)
        else s\<lparr>sp_sent := sent @ [q]\<rparr>)"
      using assms(1,2) \<open>read_body r = Some (rq_Body r)\<close> fw by (simp_all add: proxyTicketRequest_def)
    with Answer show ?thesis by (intro exI [of _ "[q]"]) auto
  qed
qed

text \<open>
  C34: what the supervisor sends to the nodes for a validate, consume or dispute request, in
  whatever order the nodes are visited and however their answers change on the way: first
  only its own questions for the primary and for reachability, to running nodes; then at most
  one further request, the client's own with its method, headers and body, to the acting
  primary: to a running node that just said it is the primary or, after no running node said
  so, to the node started as primary that was just found reachable. The client is answered
  with what this node answers, and only then with a node's answer; the web clients are told
  exactly of successes; nothing else of the supervisor changes. Where one running node
  always says it is the primary and no other does, the request does go to it, unless its body is
  over a megabyte or the request cannot be built. Seeding and validation at a chosen node are
  other routes.
\<close>

theorem ticket_requests_reach_primary:
  assumes "ticket_route ep = Some (path, event)" and "mset (sw_nodes W) = mset (GetAllNodes (sp_nodeManager s))"
    and "sup_dispatch W ep var r s = (resp, s')"
  shows "\<exists>ps handed. (\<forall>q \<in> set ps. probe (sp_apiKey s) (GetAllNodes (sp_nodeManager s)) q) \<and>
    (handed = [] \<or> (\<exists>n. acting_primary (sw_net W) (sw_json W) (sp_apiKey s) (GetAllNodes (sp_nodeManager s)) (sp_sent s) ps n \<and>
       handed = [client_request r (node_url n) path (rq_Body r)])) \<and>
    (\<forall>status body. resp = Relayed status body \<longleftrightarrow>
       (\<exists>q. handed = [q] \<and> sw_net W (sp_sent s @ ps) q = Answer status body)) \<and>
    s' = (if \<exists>body. resp = Relayed 200 body
          then broadcastWSMessage (TicketMsg event (sd_ticketID (sw_json W) (rq_Body r)) None (sw_now W)) else (\<lambda>t. t))
       (s\<lparr>sp_sent := sp_sent s @ ps @ handed\<rparr>) \<and>
    (\<forall>n. sole_primary (sw_net W) (sw_json W) (sp_apiKey s) (GetAllNodes (sp_nodeManager s)) n \<and> length (rq_Body r) \<le> 2 ^ 20 \<and>
       (\<forall>h err. sw_net W h (client_request r (node_url n) path (rq_Body r)) \<noteq> BadRequest err) \<longrightarrow>
       handed = [client_request r (node_url n) path (rq_Body r)])"
proof -
  let ?N = "sw_net W" and ?J = "sw_json W" and ?key = "sp_apiKey s" and ?all = "GetAllNodes (sp_nodeManager s)"
  have set: "set (sw_nodes W) = set ?all" using assms(2) by (rule mset_eq_setD)
  obtain res sent where res: "getPrimaryNodeURL ?N ?J ?key (sw_nodes W) (sp_sent s) = (res, sent)" by fastforce
  have d: "proxyTicketRequest ?N ?J (sw_nodes W) (sw_now W) r path event s = (resp, s')"
    using dispatch_ticket [OF assms(1)] assms(3) by simp
  have sole: "res = Inr (node_url n)" if "sole_primary ?N ?J ?key ?all n" for n
    using getPrimaryNodeURL_sole [of ?N ?J ?key "sw_nodes W" n "sp_sent s"] that res sole_primary_mset [OF assms(2)] by simp
  obtain ps where ps: "sent = sp_sent s @ ps" "\<forall>q \<in> set ps. probe ?key ?all q"
    and acting: "\<And>url. res = Inr url \<Longrightarrow> \<exists>n. acting_primary ?N ?J ?key ?all (sp_sent s) ps n \<and> url = node_url n"
    using getPrimaryNodeURL_acting [OF res] unfolding probe_def acting_primary_def set by blast
  show ?thesis
  proof (cases res)
    case (Inl err)
    then have "resp = WriteError 503 (url_error_text err)" "s' = s\<lparr>sp_sent := sent\<rparr>"
      using d res by (simp_all add: proxyTicketRequest_def)
    then show ?thesis using ps Inl sole by (intro exI [of _ "[]"] exI [of _ ps]) auto
  next
    case (Inr url)
    let ?q = "client_request r url path (rq_Body r)"
    obtain n where n: "acting_primary ?N ?J ?key ?all (sp_sent s) ps n" "url = node_url n" using acting [OF Inr] by blast
    obtain handed where h: "handed \<in> {[], [?q]}"
        "\<forall>status body. resp = Relayed status body \<longleftrightarrow> handed = [?q] \<and> ?N sent ?q = Answer status body"
        "s' = (if \<exists>body. resp = Relayed 200 body then broadcastWSMessage (TicketMsg event (sd_ticketID ?J (rq_Body r)) None (sw_now W))
           else (\<lambda>t. t)) (s\<lparr>sp_sent := sent @ handed\<rparr>)"
        "length (rq_Body r) \<le> 2 ^ 20 \<and> (\<forall>err. ?N sent ?q \<noteq> BadRequest err) \<longrightarrow> handed = [?q]"
      using proxyTicketRequest_handed [OF res [unfolded Inr] d] by blast
    show ?thesis
    proof (rule exI [of _ ps], rule exI [of _ handed], intro conjI)
      show "\<forall>status body. resp = Relayed status body \<longleftrightarrow> (\<exists>q. handed = [q] \<and> ?N (sp_sent s @ ps) q = Answer status body)"
        using h(1,2) ps(1) by auto
      show "\<forall>n. sole_primary ?N ?J ?key ?all n \<and> length (rq_Body r) \<le> 2 ^ 20 \<and>
          (\<forall>h err. ?N h (client_request r (node_url n) path (rq_Body r)) \<noteq> BadRequest err) \<longrightarrow>
          handed = [client_request r (node_url n) path (rq_Body r)]"
        using h(4) sole Inr by fastforce
    qed (use h(1,3) n ps in auto)
  qed
qed

text \<open>A network with one node on the first API port, which answers every request and says it is the primary.\<close>

definition lone_net :: NodeNet where
  "lone_net h q = (if HasPrefix (pq_URL q) ''http://127.0.0.1:9001/'' then Answer 200 ''ok'' else NetError ''refused'')"

definition lone_json :: SupDecoders where
  "lone_json = \<lparr>sd_isPrimary = (\<lambda>b. Some True), sd_ticketID = (\<lambda>b. b), sd_viaNode = (\<lambda>b. None), sd_seeded = (\<lambda>b. 0),
     sd_stats = Some, sd_ticketBody = (\<lambda>i. i)\<rparr>"

definition lone_supervisor :: Supervisor where
  "lone_supervisor = (sup_NewServer '''' '''')\<lparr>sp_nodeManager := one_running\<rparr>"

lemma lone_nodes:
  "\<exists>n. GetAllNodes one_running = [n] \<and> mn_Status n = NodeStatusRunning \<and> mn_APIPort n = 9001 \<and> mn_IsPrimary n \<and>
     mn_ID n = ''node0''"
  by (simp add: one_running_def GetAllNodes_def keys_def sorted_list_of_fset.rep_eq List.map_filter_def node_of_def copy_node_def
      StartNode_def startNodeWithTotal_def process_begin_def process_launch_def NewNodeManager_def quiet_config_def
      change_def nm_notifyStatus_def Let_def)

lemma FormatInt_9001: "FormatInt 9001 = ''9001''"
  by (simp add: FormatInt_def dec_nat.simps digit_char_def) code_simp

text \<open>A world in which clients ask for one node, which is also the primary.\<close>

definition start_world :: SupWorld where
  "start_world = \<lparr>sw_net = lone_net, sw_json = lone_json, sw_nodes = [], sw_nodes2 = [], sw_order = [], sw_answers = [], sw_now = 0,
     sw_wait = (\<lambda>s. s), sw_startNode = (\<lambda>b. Some (''node0'', True, True, '''')), sw_cluster = (\<lambda>b. None),
     sw_simulator = (\<lambda>b. None), sw_upgrade = (\<lambda>r. None), sw_ok = (\<lambda>c. True), sw_other = (\<lambda>r. WriteError 404 '''')\<rparr>"

definition lone_world :: SupWorld where
  "lone_world = start_world\<lparr>sw_nodes := GetAllNodes one_running\<rparr>"

theorem ticket_requests_reach_primary_witness:
  "case sup_dispatch lone_world SConsume '''' plain_request lone_supervisor of
     (resp, s) \<Rightarrow> resp = Relayed 200 ''ok'' \<and>
       last (sp_sent s) = client_request plain_request ''http://127.0.0.1:9001'' ''/tickets/consume'' ''''"
proof -
  obtain n where n: "GetAllNodes one_running = [n]" "mn_Status n = NodeStatusRunning" "mn_APIPort n = 9001"
    using lone_nodes by blast
  have url: "node_url n = ''http://127.0.0.1:9001''" using n(3) by (simp add: node_url_def FormatInt_9001)
  let ?q = "client_request plain_request (node_url n) ''/tickets/consume'' (rq_Body plain_request)"
  have W: "sw_net lone_world = lone_net" "sw_json lone_world = lone_json" "sw_nodes lone_world = [n]"
    using n(1) by (simp_all add: lone_world_def start_world_def)
  have all: "GetAllNodes (sp_nodeManager lone_supervisor) = [n]" "sp_apiKey lone_supervisor = ''''"
    using n(1) by (simp_all add: lone_supervisor_def sup_NewServer_def)
  have sole: "sole_primary lone_net lone_json '''' [n] n"
    using n(2) by (simp add: sole_primary_def says_primary_def stats_request_def url lone_net_def lone_json_def HasPrefix_def)
  have ans: "lone_net h ?q = Answer 200 ''ok''" for h
    by (simp add: client_request_def url lone_net_def HasPrefix_def)
  obtain resp s' where r: "sup_dispatch lone_world SConsume '''' plain_request lone_supervisor = (resp, s')" by fastforce
  have route: "ticket_route SConsume = Some (''/tickets/consume'', ''ticket_consumed'')" by simp
  have body: "length (rq_Body plain_request) \<le> 2 ^ 20" by (simp add: plain_request_def)
  have nodes: "mset (sw_nodes lone_world) = mset (GetAllNodes (sp_nodeManager lone_supervisor))" using W(3) all(1) by simp
  from ticket_requests_reach_primary [OF route nodes r] obtain ps handed where
      relayed: "\<forall>status body. resp = Relayed status body \<longleftrightarrow> (\<exists>q. handed = [q] \<and> lone_net (sp_sent lone_supervisor @ ps) q = Answer status body)"
      and s': "s' = (if \<exists>body. resp = Relayed 200 body
          then broadcastWSMessage (TicketMsg ''ticket_consumed'' (sd_ticketID lone_json (rq_Body plain_request)) None (sw_now lone_world))
          else (\<lambda>t. t)) (lone_supervisor\<lparr>sp_sent := sp_sent lone_supervisor @ ps @ handed\<rparr>)"
      and handed: "\<forall>k. sole_primary lone_net lone_json '''' [n] k \<and> length (rq_Body plain_request) \<le> 2 ^ 20 \<and>
         (\<forall>h err. lone_net h (client_request plain_request (node_url k) ''/tickets/consume'' (rq_Body plain_request)) \<noteq> BadRequest err) \<longrightarrow>
         handed = [client_request plain_request (node_url k) ''/tickets/consume'' (rq_Body plain_request)]"
    unfolding W all by blast
  have q: "handed = [?q]" using handed sole body ans by simp
  then have "resp = Relayed 200 ''ok''" using relayed ans by blast
  with r s' q show ?thesis by (simp add: url plain_request_def)
qed

text \<open>
  Validation at a chosen node does not ask for the primary: the request goes to the node that
  the client named, whatever that node and the others would say.
\<close>

theorem validate_via_node_bypasses_primary:
  assumes "sd_viaNode J (rq_Body r) = Some (ticketID, nodeID)" and "ticketID \<noteq> ''''" and "nodeID \<noteq> ''''"
    and "GetNode nodeID (sp_nodeManager s) = Inr n" and "mn_Status n = NodeStatusRunning"
    and "N (sp_sent s) (health_request (node_url n)) = Answer 200 body"
    and "N (sp_sent s @ [health_request (node_url n)]) (via_request (sp_apiKey s) (node_url n) (sd_ticketBody J ticketID)) = Answer status resp"
  shows "fst (handleProxyValidateTicketViaNode N J now r s) = Relayed status resp \<and>
    sp_sent (snd (handleProxyValidateTicketViaNode N J now r s)) =
      sp_sent s @ [health_request (node_url n), via_request (sp_apiKey s) (node_url n) (sd_ticketBody J ticketID)]"
proof -
  have "isNodeReachable N (node_url n) (sp_sent s) = (True, sp_sent s @ [health_request (node_url n)])"
    using assms(6) isNodeReachable_yes by blast
  then show ?thesis using assms(1-5,7) by (simp add: handleProxyValidateTicketViaNode_def ask_cases)
qed

section \<open>Following the primary\<close>

text \<open>What the answers say about a node; of several answers of one node the last counts.\<close>

definition reflag :: "(string \<times> bool) list \<Rightarrow> string \<Rightarrow> ManagedNode \<Rightarrow> ManagedNode" where
  "reflag answers i n = (case map_of (rev answers) i of None \<Rightarrow> n | Some b \<Rightarrow> n\<lparr>mn_IsPrimary := b\<rparr>)"

lemma UpdatePrimaryStatus_nodes:
  assumes "nm_inv m"
  shows "nm_inv (snd (UpdatePrimaryStatus i b m))" (is ?inv)
    and "node_of j (snd (UpdatePrimaryStatus i b m)) =
      (if j = i then map_option (\<lambda>n. n\<lparr>mn_IsPrimary := b\<rparr>) (node_of j m) else node_of j m)" (is ?nodes)
    and "fst (UpdatePrimaryStatus i b m) \<longleftrightarrow> (\<exists>n. node_of i m = Some n \<and> mn_IsPrimary n \<noteq> b)" (is ?changed)
proof -
  show ?inv using nm_step_evolves [OF nm_step.primary assms] by (rule nm_evolves_inv)
  show ?changed by (auto simp: UpdatePrimaryStatus_def node_of_def split: option.splits)
  show ?nodes
  proof (cases "mget (nm_nodes m) i")
    case None
    then show ?thesis by (simp add: UpdatePrimaryStatus_def node_of_def)
  next
    case (Some a)
    then obtain n where n: "mget (nm_heap m) a = Some n" "mn_ID n = i" using assms by (auto elim: nm_inv_node)
    have other: "mget (nm_nodes m) j \<noteq> Some a" if "j \<noteq> i"
      using that n nm_inv_node [OF assms, of j a] by auto
    show ?thesis
    proof (cases "mn_IsPrimary n = b")
      case True
      then have "n\<lparr>mn_IsPrimary := b\<rparr> = n" by simp
      with True Some n show ?thesis by (simp add: UpdatePrimaryStatus_def node_of_def)
    next
      case False
      with Some n other show ?thesis
        by (auto simp: UpdatePrimaryStatus_def node_of_def change_heap split: option.splits)
    qed
  qed
qed

lemma refresh_one_nodes: "sp_nodeManager (refresh_one res s) = snd (UpdatePrimaryStatus (fst res) (snd res) (sp_nodeManager s))"
  by (auto simp: refresh_one_def Let_def split: prod.splits bool.splits sum.splits)

lemma refresh_nodes:
  assumes "nm_inv (sp_nodeManager s)"
  shows "nm_inv (sp_nodeManager (refreshPrimaryStatus answers s))"
    and "node_of i (sp_nodeManager (refreshPrimaryStatus answers s)) = map_option (reflag answers i) (node_of i (sp_nodeManager s))"
proof -
  have "nm_inv (sp_nodeManager (fold refresh_one answers s)) \<and>
      node_of i (sp_nodeManager (fold refresh_one answers s)) = map_option (reflag answers i) (node_of i (sp_nodeManager s))"
  proof (induction answers rule: rev_induct)
    case Nil
    have "reflag [] i = (\<lambda>n. n)" by (rule ext) (simp add: reflag_def)
    with assms show ?case by (simp add: option.map_ident)
  next
    case (snoc res answers)
    note u = UpdatePrimaryStatus_nodes [OF conjunct1 [OF snoc], where i = "fst res" and b = "snd res"]
    show ?case
      using u(1) u(2) [of i] snoc
      by (cases "node_of i (sp_nodeManager s)") (auto simp: refresh_one_nodes reflag_def split: option.splits)
  qed
  then show "nm_inv (sp_nodeManager (refreshPrimaryStatus answers s))"
    and "node_of i (sp_nodeManager (refreshPrimaryStatus answers s)) = map_option (reflag answers i) (node_of i (sp_nodeManager s))"
    by (simp_all add: refreshPrimaryStatus_def)
qed

lemma broadcast_queue:
  "length (sp_wsBroadcast s) \<le> wsBroadcast_capacity \<Longrightarrow>
     sp_wsBroadcast (broadcastWSMessage msg s) = take wsBroadcast_capacity (sp_wsBroadcast s @ [msg])"
  by (simp add: broadcastWSMessage_def)

text \<open>The messages about nodes whose flag the answers change.\<close>

definition change_msg :: "bool \<Rightarrow> ManagedNode \<Rightarrow> sup_msg option" where
  "change_msg b n =
     (if mn_IsPrimary n = b then None
      else Some (NodeStatusMsg (mn_ID n) (mn_Status n) (Some (copy_node (n\<lparr>mn_IsPrimary := b\<rparr>)))))"

definition change_msgs :: "(string \<times> bool) list \<Rightarrow> NodeManager \<Rightarrow> sup_msg list" where
  "change_msgs answers m = List.map_filter (\<lambda>(i, b). Option.bind (node_of i m) (change_msg b)) answers"

lemma change_msgs_cong:
  "(\<And>i. i \<in> fst ` set answers \<Longrightarrow> node_of i m = node_of i m') \<Longrightarrow> change_msgs answers m = change_msgs answers m'"
proof (induction answers)
  case (Cons x answers)
  then have "node_of (fst x) m = node_of (fst x) m'" by simp
  with Cons show ?case by (simp add: change_msgs_def List.map_filter_simps split_beta split: option.splits)
qed (simp add: change_msgs_def List.map_filter_simps)

lemma copy_node_status: "mn_Status (copy_node n) = mn_Status n"
  by (simp add: copy_node_def)

lemma refresh_one_queue:
  assumes inv: "nm_inv (sp_nodeManager s)" and len: "length (sp_wsBroadcast s) \<le> wsBroadcast_capacity"
  shows "sp_wsBroadcast (refresh_one (i, b) s) = take wsBroadcast_capacity (sp_wsBroadcast s @ change_msgs [(i, b)] (sp_nodeManager s))"
proof -
  note u = UpdatePrimaryStatus_nodes [OF inv, where i = i and b = b]
  obtain c m where c: "UpdatePrimaryStatus i b (sp_nodeManager s) = (c, m)" by fastforce
  show ?thesis
  proof (cases c)
    case True
    then obtain n where n: "node_of i (sp_nodeManager s) = Some n" "mn_IsPrimary n \<noteq> b" using u(3) c by auto
    then have "GetNode i m = Inr (copy_node (n\<lparr>mn_IsPrimary := b\<rparr>))" using u(2) [of i] c by (simp add: GetNode_def)
    moreover have "mn_ID n = i" using inv n(1) by (rule node_of_ID)
    ultimately show ?thesis using True n c len
      by (simp add: refresh_one_def Let_def broadcast_queue change_msgs_def change_msg_def List.map_filter_simps copy_node_status)
  next
    case False
    then have "change_msgs [(i, b)] (sp_nodeManager s) = []"
      using u(3) c by (cases "node_of i (sp_nodeManager s)") (auto simp: change_msgs_def change_msg_def List.map_filter_simps)
    with False c len show ?thesis by (simp add: refresh_one_def)
  qed
qed

lemma take_take_append: "length (xs :: 'a list) \<le> k \<Longrightarrow> take k (take k (xs @ ys) @ zs) = take k (xs @ ys @ zs)"
  by (cases "length ys \<le> k - length xs") simp_all

lemma refresh_queue:
  assumes "nm_inv (sp_nodeManager s)" and "length (sp_wsBroadcast s) \<le> wsBroadcast_capacity" and "distinct (map fst answers)"
  shows "sp_wsBroadcast (refreshPrimaryStatus answers s) =
    take wsBroadcast_capacity (sp_wsBroadcast s @ change_msgs answers (sp_nodeManager s))"
  using assms
proof (induction answers arbitrary: s)
  case (Cons res answers)
  obtain i b where res: "res = (i, b)" by fastforce
  let ?s = "refresh_one (i, b) s"
  note u = UpdatePrimaryStatus_nodes [OF Cons.prems(1), where i = i and b = b]
  have q: "sp_wsBroadcast ?s = take wsBroadcast_capacity (sp_wsBroadcast s @ change_msgs [(i, b)] (sp_nodeManager s))"
    using Cons.prems(1,2) by (rule refresh_one_queue)
  have inv: "nm_inv (sp_nodeManager ?s)" using u(1) by (simp add: refresh_one_nodes)
  have "change_msgs answers (sp_nodeManager ?s) = change_msgs answers (sp_nodeManager s)"
    using u(2) Cons.prems(3) res by (intro change_msgs_cong) (auto simp: refresh_one_nodes)
  moreover have "change_msgs (res # answers) (sp_nodeManager s) =
      change_msgs [(i, b)] (sp_nodeManager s) @ change_msgs answers (sp_nodeManager s)"
    using res by (simp add: change_msgs_def List.map_filter_simps split: option.splits)
  moreover have "refreshPrimaryStatus (res # answers) s = refreshPrimaryStatus answers ?s"
    using res by (simp add: refreshPrimaryStatus_def)
  moreover have "length (sp_wsBroadcast ?s) \<le> wsBroadcast_capacity" unfolding q by simp
  then have "sp_wsBroadcast (refreshPrimaryStatus answers ?s) =
      take wsBroadcast_capacity (sp_wsBroadcast ?s @ change_msgs answers (sp_nodeManager ?s))"
    using Cons.IH [OF inv] Cons.prems(3) by simp
  ultimately show ?case unfolding q by (simp only: take_take_append [OF Cons.prems(2)])
qed (simp add: refreshPrimaryStatus_def change_msgs_def List.map_filter_simps)

section \<open>A well-formed supervisor\<close>

text \<open>
  The steps of the supervisor: requests, the goroutines of nodes and of the simulation, the
  question for the primary, clients that come, write and go, the broadcast pump and the end.
  While a handler waits, any steps may happen.
\<close>

definition run_step :: "SimulatorController \<Rightarrow> SimulatorController \<Rightarrow> bool" where
  "run_step c c' \<longleftrightarrow> (\<exists>k. run_begin c = (k, c')) \<or> (\<exists>f. c' = run_failed f c) \<or>
     (\<exists>now l. c' = sim_stream_line now l c) \<or> (\<exists>k err. c' = run_exit k err c)"

inductive sup_step :: "Supervisor \<Rightarrow> Supervisor \<Rightarrow> bool" where
  request: "(\<And>x. sup_step\<^sup>*\<^sup>* x (sw_wait W x)) \<Longrightarrow> sup_dispatch W ep var r s = (resp, s') \<Longrightarrow> sup_step s s'"
| background: "nm_step ((sp_nodeManager s)\<lparr>nm_calls := []\<rparr>) m \<Longrightarrow> sup_step s (snd (manage now (\<lambda>_. ((), m)) s))"
| simulation: "run_step ((sp_simController s)\<lparr>ct_calls := []\<rparr>) c \<Longrightarrow> sup_step s (snd (simulate (\<lambda>_. ((), c)) s))"
| monitor: "sup_step s (refreshPrimaryStatus answers s)"
| connected: "sup_handleWebSocket ok c s = (sent, s') \<Longrightarrow> sup_step s s'"
| message: "handleWSMessage ok c msg s = (sent, s') \<Longrightarrow> sup_step s s'"
| pump: "wsBroadcastPump_turn takeStop ok s = (sent, s') \<Longrightarrow> sup_step s s'"
| ended: "sup_step s (sup_Stop now s)"

definition sim_wf :: "SimulatorController \<Rightarrow> bool" where
  "sim_wf c \<longleftrightarrow> ctl_inv c \<and> (\<forall>config. ct_config c = Some config \<longrightarrow> ValidateConfig config = None)"

definition sup_wf :: "Supervisor \<Rightarrow> bool" where
  "sup_wf s \<longleftrightarrow> nm_inv (sp_nodeManager s) \<and> sim_wf (sp_simController s) \<and> length (sp_wsBroadcast s) \<le> wsBroadcast_capacity"

lemma wf_fields [simp]:
  "sup_wf (s\<lparr>sp_outputThrottle := t\<rparr>) = sup_wf s" "sup_wf (s\<lparr>sp_wsClients := c\<rparr>) = sup_wf s" "sup_wf (s\<lparr>sp_stopped := b\<rparr>) = sup_wf s"
  "sup_wf (s\<lparr>sp_sent := h\<rparr>) = sup_wf s"
  "nm_inv (m\<lparr>nm_calls := cs\<rparr>) = nm_inv m" "sim_wf (c'\<lparr>ct_calls := cs'\<rparr>) = sim_wf c'"
  by (simp_all add: sup_wf_def nm_inv_def sim_wf_def ctl_inv_def)

lemma broadcast_wf [inv_intros]: "sup_wf s \<Longrightarrow> sup_wf (broadcastWSMessage msg s)"
  by (auto simp: sup_wf_def broadcastWSMessage_def)

lemma node_callback_wf [inv_intros]: "sup_wf s \<Longrightarrow> sup_wf (node_callback now c s)"
  by (cases c) (simp_all add: StatusCallback_def ClusterCallback_def OutputCallback_def broadcast_wf)

lemma sim_callback_wf [inv_intros]: "sup_wf s \<Longrightarrow> sup_wf (sim_callback c s)"
  by (cases c) (simp_all add: broadcast_wf)

text \<open>
  What the server relies on from a component that reports to it through callbacks: operations
  keep the component's invariant, and no callback breaks the server. Running an operation and
  handing over the calls it made then keeps the server well formed.
\<close>

locale reporting_component =
  fixes comp :: "'s \<Rightarrow> 'c" and set_comp :: "'c \<Rightarrow> 's \<Rightarrow> 's" and calls :: "'c \<Rightarrow> 'k list" and clear :: "'c \<Rightarrow> 'c"
    and notify :: "'k \<Rightarrow> 's \<Rightarrow> 's" and inv :: "'c \<Rightarrow> bool" and wf :: "'s \<Rightarrow> bool"
  assumes wf_comp: "wf s \<Longrightarrow> inv (comp s)"
    and wf_set: "wf s \<Longrightarrow> inv c \<Longrightarrow> wf (set_comp c s)"
    and inv_clear: "inv c \<Longrightarrow> inv (clear c)"
    and wf_notify: "wf s \<Longrightarrow> wf (notify k s)"
begin

lemma wf_fold: "wf s \<Longrightarrow> wf (fold notify ks s)"
  by (induction ks arbitrary: s) (simp_all add: wf_notify)

lemma run_wf:
  assumes "wf s" and "\<And>c. inv c \<Longrightarrow> inv (snd (f c))"
  shows "wf (snd (case f (clear (comp s)) of (r, c) \<Rightarrow> (r, fold notify (calls c) (set_comp (clear c) s))))"
proof -
  obtain r c where c: "f (clear (comp s)) = (r, c)" by fastforce
  have "inv c" using assms(2) [of "clear (comp s)"] inv_clear [OF wf_comp [OF assms(1)]] c by simp
  then show ?thesis using c by (simp add: wf_fold wf_set [OF assms(1)] inv_clear)
qed

end

interpretation managed: reporting_component sp_nodeManager "\<lambda>m s. s\<lparr>sp_nodeManager := m\<rparr>" nm_calls "\<lambda>m. m\<lparr>nm_calls := []\<rparr>"
    "node_callback now" nm_inv sup_wf for now
  by unfold_locales (simp_all add: node_callback_wf, simp_all add: sup_wf_def)

interpretation simulated: reporting_component sp_simController "\<lambda>c s. s\<lparr>sp_simController := c\<rparr>" ct_calls "\<lambda>c. c\<lparr>ct_calls := []\<rparr>"
    sim_callback sim_wf sup_wf
  by unfold_locales (simp_all add: sim_callback_wf, simp_all add: sup_wf_def)

lemma manage_wf:
  assumes "sup_wf s" and "\<And>m. nm_inv m \<Longrightarrow> nm_inv (snd (f m))"
  shows "sup_wf (snd (manage now f s))"
  using managed.run_wf [OF assms] by (simp add: manage_def)

lemma simulate_wf:
  assumes "sup_wf s" and "\<And>c. sim_wf c \<Longrightarrow> sim_wf (snd (f c))"
  shows "sup_wf (snd (simulate f s))"
  using simulated.run_wf [OF assms] by (simp add: simulate_def)

lemma nm_step_inv: "nm_step m m' \<Longrightarrow> nm_inv m \<Longrightarrow> nm_inv m'"
  using nm_step_evolves nm_evolves_inv by blast

lemma config_fields [simp]:
  "ct_config (sim_notifyStatus st c) = ct_config c" "ct_config (addOutput l c) = ct_config c"
  "ct_config (notifyProgress p c) = ct_config c"
  by (simp_all add: sim_notifyStatus_def addOutput_def notifyProgress_def Let_def)

lemma stream_line_config: "ct_config (sim_stream_line now l c) = ct_config c"
proof -
  obtain b c1 where d: "isDuplicateLine now l c = (b, c1)" by fastforce
  have "ct_config c1 = ct_config c" using d by (auto simp: isDuplicateLine_def Let_def split: if_splits)
  then show ?thesis
    by (cases b) (simp_all add: sim_stream_line_def d Let_def read_result_def read_progress_def parseResultLine_def
        split: option.splits prod.splits)
qed

lemma run_step_wf: "run_step c c' \<Longrightarrow> sim_wf c \<Longrightarrow> sim_wf c'"
proof -
  assume s: "run_step c c'" and wf: "sim_wf c"
  have "ct_config c' = ct_config c"
    using s unfolding run_step_def
    by (auto simp: run_begin_def run_failed_def setError_def run_exit_def Let_def stream_line_config split: option.splits)
  moreover have "ctl_step c c'" using s unfolding run_step_def by (auto intro: ctl_step.intros)
  ultimately show ?thesis using wf ctl_step_inv by (auto simp: sim_wf_def)
qed

lemma sim_requests_wf:
  "sim_wf c \<Longrightarrow> ValidateConfig config = None \<Longrightarrow> sim_wf (snd (sim_Start config c))" "sim_wf c \<Longrightarrow> sim_wf (snd (sim_Stop c))"
  using ctl_step_inv [OF ctl_step.start [of config c "fst (sim_Start config c)"]] ctl_step_inv [OF ctl_step.stop [of c "fst (sim_Stop c)"]]
  by (auto simp: sim_wf_def sim_Start_def sim_Stop_def split: option.splits)

lemma refresh_wf [inv_intros]: "sup_wf s \<Longrightarrow> sup_wf (refreshPrimaryStatus answers s)"
proof -
  have one: "sup_wf (refresh_one res s)" if "sup_wf s" for res s
  proof -
    have inv: "nm_inv (snd (UpdatePrimaryStatus (fst res) (snd res) (sp_nodeManager s)))"
      using that UpdatePrimaryStatus_nodes(1) by (simp add: sup_wf_def)
    then have "sup_wf (s\<lparr>sp_nodeManager := snd (UpdatePrimaryStatus (fst res) (snd res) (sp_nodeManager s))\<rparr>)"
      using that by (simp add: sup_wf_def)
    then show ?thesis
      by (auto simp: refresh_one_def Let_def broadcast_wf split: prod.splits bool.splits sum.splits)
  qed
  show "sup_wf s \<Longrightarrow> sup_wf (refreshPrimaryStatus answers s)"
    unfolding refreshPrimaryStatus_def by (induction answers arbitrary: s) (simp_all add: one)
qed

lemma manager_ops_inv [inv_intros]:
  "nm_inv m \<Longrightarrow> nm_inv (snd (StartNode i p b addr m))" "nm_inv m \<Longrightarrow> nm_inv (snd (StopNode i m))"
  "nm_inv m \<Longrightarrow> nm_inv (snd (cluster_begin k m))" "nm_inv m \<Longrightarrow> nm_inv (cluster_reset k m)"
  "nm_inv m \<Longrightarrow> nm_inv (StopAllNodes m)"
  by (rule nm_step_inv, rule nm_step.intros, assumption)+

lemma managed_wf:
  assumes "manage now f s = (x, s')" and "sup_wf s" and "\<And>m. nm_inv m \<Longrightarrow> nm_inv (snd (f m))"
  shows "sup_wf s'"
  using manage_wf [where f = f and now = now, OF assms(2,3)] assms(1) by simp

lemma restart_start_wf: "sup_wf s \<Longrightarrow> sup_wf (snd (restart_start now node nodeID s))"
  unfolding restart_start_def
  by (cases "manage now (StartNode nodeID (mn_IsPrimary node) (mn_IsBootstrap node) '''') s")
     (auto split: option.splits elim!: managed_wf intro: manager_ops_inv)

lemma node_handlers_wf:
  assumes "sup_wf s" and wait: "\<And>x. sup_wf x \<Longrightarrow> sup_wf (wait x)"
  shows "sup_wf (snd (handleStartNode dec now r s))" and "sup_wf (snd (handleStopNode now i s))"
    and "sup_wf (snd (handleRestartNode now wait i s))" and "sup_wf (snd (handleStartCluster dec' now wait r s))"
    and "sup_wf (snd (handleStopCluster now s))" and "sup_wf (snd (handleGetNodes answers s))"
proof -
  note ops = managed_wf [OF _ assms(1)] manager_ops_inv
  show "sup_wf (snd (handleStartNode dec now r s))"
    using assms(1) unfolding handleStartNode_def by (auto split: option.splits prod.splits intro: ops)
  show "sup_wf (snd (handleStopNode now i s))"
    unfolding handleStopNode_def by (auto split: option.splits prod.splits intro: ops)
  show "sup_wf (snd (handleRestartNode now wait i s))"
    using assms(1) unfolding handleRestartNode_def
    by (auto split: sum.splits option.splits prod.splits intro!: restart_start_wf wait intro: ops)
  show "sup_wf (snd (handleStartCluster dec' now wait r s))"
    using assms(1) unfolding handleStartCluster_def Let_def
    by (auto split: option.splits prod.splits intro!: manage_wf wait intro: ops)
  show "sup_wf (snd (handleStopCluster now s))"
    using assms(1) unfolding handleStopCluster_def by (auto intro!: manage_wf intro: manager_ops_inv)
  show "sup_wf (snd (handleGetNodes answers s))"
    using assms(1) by (simp add: handleGetNodes_def Let_def refresh_wf)
qed

lemma simulated_wf:
  assumes "simulate f s = (x, s')" and "sup_wf s" and "\<And>c. sim_wf c \<Longrightarrow> sim_wf (snd (f c))"
  shows "sup_wf s'"
  using simulate_wf [where f = f, OF assms(2,3)] assms(1) by simp

lemma sim_handlers_wf:
  assumes "sup_wf s"
  shows "sup_wf (snd (handleStartSimulator dec r s))" and "sup_wf (snd (handleStopSimulator s))"
proof -
  show "sup_wf (snd (handleStartSimulator dec r s))"
    using assms unfolding handleStartSimulator_def Let_def
    by (auto split: option.splits prod.splits intro: simulated_wf [OF _ assms] sim_requests_wf)
  show "sup_wf (snd (handleStopSimulator s))"
    unfolding handleStopSimulator_def
    by (auto split: option.splits prod.splits intro: simulated_wf [OF _ assms] sim_requests_wf)
qed

lemma proxy_handlers_wf:
  assumes "sup_wf s"
  shows "sup_wf (snd (proxyTicketRequest N J nodes now r ep ev s))" and "sup_wf (snd (handleProxySeedTickets N J nodes order now s))"
    and "sup_wf (snd (handleProxyValidateTicketViaNode N J now r s))" and "sup_wf (snd (sending f s))"
proof -
  show "sup_wf (snd (proxyTicketRequest N J nodes now r ep ev s))"
    using assms unfolding proxyTicketRequest_def
    by (simp add: broadcast_wf split: sum.splits option.splits net_result.splits prod.splits)
  show "sup_wf (snd (handleProxySeedTickets N J nodes order now s))"
    using assms unfolding handleProxySeedTickets_def Let_def by (simp add: broadcast_wf split: prod.splits)
  show "sup_wf (snd (handleProxyValidateTicketViaNode N J now r s))"
    using assms unfolding handleProxyValidateTicketViaNode_def
    by (simp add: broadcast_wf split: sum.splits option.splits net_result.splits prod.splits bool.splits)
  show "sup_wf (snd (sending f s))" using assms by (simp add: sending_def split: prod.splits)
qed

lemma websocket_wf: "sup_wf s \<Longrightarrow> sup_wf (snd (sup_handleWebSocket ok c s))"
  by (simp add: sup_handleWebSocket_def sendWSMessage_def sup_disconnect_def)

lemma dispatch_wf:
  assumes "sup_wf s" and "\<And>x. sup_wf x \<Longrightarrow> sup_wf (sw_wait W x)"
  shows "sup_wf (snd (sup_dispatch W ep var r s))"
  unfolding sup_dispatch_def Let_def
  by (cases ep) (simp_all add: assms(1) websocket_wf node_handlers_wf [OF assms] sim_handlers_wf [OF assms(1)] proxy_handlers_wf [OF assms(1)]
      handleProxyValidateTicket_def handleProxyConsumeTicket_def handleProxyDisputeTicket_def split: option.splits)

lemma fold_disconnect_wf: "sup_wf s \<Longrightarrow> sup_wf (fold sup_disconnect cs s)"
  by (induction cs arbitrary: s) (simp_all add: sup_disconnect_def)

lemma sup_step_wf: "sup_step s s' \<Longrightarrow> sup_wf s \<Longrightarrow> sup_wf s'"
proof (induction rule: sup_step.induct)
  case (request W ep var r s resp s')
  have "sup_wf (sw_wait W x)" if "sup_wf x" for x
    using request(1) [of x] that by (induction rule: rtranclp_induct) auto
  with dispatch_wf [of s W ep var r] request show ?case by simp
next
  case (background s m now)
  then have "nm_inv m" using nm_step_inv by (force simp: sup_wf_def)
  with background show ?case by (intro manage_wf) simp_all
next
  case (simulation s c)
  then have "sim_wf c" using run_step_wf by (force simp: sup_wf_def)
  with simulation show ?case by (intro simulate_wf) simp_all
next
  case (connected ok c s sent s')
  then show ?case by (auto simp: sup_handleWebSocket_def sendWSMessage_def sup_disconnect_def split: if_splits)
next
  case (message ok c msg s sent s')
  then show ?case by (auto simp: handleWSMessage_def sendWSMessage_def sup_disconnect_def split: if_splits option.splits)
next
  case (pump takeStop ok s sent s')
  have "sup_wf (s\<lparr>sp_wsBroadcast := q\<rparr>)" if "sp_wsBroadcast s = msg # q" for msg q
    using that pump(2) by (simp add: sup_wf_def)
  with pump show ?case by (auto simp: wsBroadcastPump_turn_def Let_def fold_disconnect_wf split: if_splits list.splits)
next
  case (ended s now)
  then have "sup_wf (snd (manage now (\<lambda>m. ((), StopAllNodes m)) (s\<lparr>sp_stopped := True\<rparr>)))"
    by (intro manage_wf) (simp_all add: manager_ops_inv)
  then show ?case by (simp add: sup_Stop_def Let_def simulate_wf sim_requests_wf)
qed (simp add: refresh_wf)

lemma sup_reachable_wf: "sup_step\<^sup>*\<^sup>* (sup_NewServer dataDir apiKey) s \<Longrightarrow> sup_wf s"
proof (induction rule: rtranclp_induct)
  case base
  show ?case
    by (simp add: sup_wf_def sup_NewServer_def nm_inv_def NewNodeManager_def Let_def sim_wf_def ctl_inv_def NewSimulatorController_def)
qed (rule sup_step_wf)

lemma start_world_step: "sup_step\<^sup>*\<^sup>* s (snd (sup_dispatch start_world ep var r s))"
proof -
  have "sup_step\<^sup>*\<^sup>* x (sw_wait start_world x)" for x by (simp add: start_world_def)
  then have "sup_step s (snd (sup_dispatch start_world ep var r s))" by (rule sup_step.request) (rule prod.collapse [symmetric])
  then show ?thesis by simp
qed

definition one_started :: Supervisor where
  "one_started = snd (sup_dispatch start_world SStartNode '''' plain_request (sup_NewServer '''' ''''))"

lemma one_started_reachable: "sup_step\<^sup>*\<^sup>* (sup_NewServer '''' '''') one_started"
  unfolding one_started_def by (rule start_world_step)

lemma one_started_node:
  "\<exists>n. node_of ''node0'' (sp_nodeManager one_started) = Some n \<and> mn_ID n = ''node0'' \<and> mn_IsPrimary n \<and> mn_Status n = NodeStatusStarting"
  "sp_wsBroadcast one_started = []"
  by (simp_all add: one_started_def start_world_def sup_dispatch_def Let_def handleStartNode_def manage_def StartNode_def
      startNodeWithTotal_def sup_NewServer_def NewNodeManager_def node_of_def plain_request_def)

text \<open>
  After the running nodes were asked, every node that answered carries the flag it answered,
  every other node is as before, and the clients are sent, after what was queued for them, one
  message about each node whose flag changed, in the order of the answers, as far as the queue
  of 512 messages has room.
\<close>

theorem refresh_tracks_primaries:
  assumes "sup_step\<^sup>*\<^sup>* (sup_NewServer dataDir apiKey) s" and "distinct (map fst answers)"
  shows "(\<forall>i. node_of i (sp_nodeManager (refreshPrimaryStatus answers s)) =
      map_option (reflag answers i) (node_of i (sp_nodeManager s))) \<and>
    sp_wsBroadcast (refreshPrimaryStatus answers s) =
      take 512 (sp_wsBroadcast s @ change_msgs answers (sp_nodeManager s))"
proof -
  have wf: "nm_inv (sp_nodeManager s)" "length (sp_wsBroadcast s) \<le> wsBroadcast_capacity"
    using sup_reachable_wf [OF assms(1)] by (simp_all add: sup_wf_def)
  show ?thesis using refresh_nodes(2) [OF wf(1)] refresh_queue [OF wf assms(2)] by (simp add: wsBroadcast_capacity_def)
qed

theorem refresh_tracks_primaries_witness:
  "map_option mn_IsPrimary (node_of ''node0'' (sp_nodeManager (refreshPrimaryStatus [(''node0'', False)] one_started))) = Some False \<and>
   length (sp_wsBroadcast (refreshPrimaryStatus [(''node0'', False)] one_started)) = 1"
proof -
  obtain n where n: "node_of ''node0'' (sp_nodeManager one_started) = Some n" "mn_IsPrimary n" using one_started_node by blast
  show ?thesis
    using refresh_tracks_primaries [OF one_started_reachable, of "[(''node0'', False)]"] n one_started_node(2)
    by (simp add: reflag_def change_msgs_def change_msg_def List.map_filter_simps)
qed



section \<open>Throttled output\<close>

text \<open>The output lines of a node among the messages for the clients.\<close>

fun is_output :: "string \<Rightarrow> sup_msg \<Rightarrow> bool" where
  "is_output i (NodeOutputMsg j l) \<longleftrightarrow> i = j"
| "is_output i _ \<longleftrightarrow> False"

definition queued_output :: "string \<Rightarrow> Supervisor \<Rightarrow> nat" where
  "queued_output i s = length (filter (is_output i) (sp_wsBroadcast s))"

definition output_calls :: "(int \<times> string \<times> string) list \<Rightarrow> Supervisor \<Rightarrow> Supervisor" where
  "output_calls calls s = fold (\<lambda>(now, i, l). OutputCallback now i l) calls s"

lemma broadcast_output:
  "queued_output i (broadcastWSMessage (NodeOutputMsg i l) s) \<le> queued_output i s + 1"
  "j \<noteq> i \<Longrightarrow> queued_output i (broadcastWSMessage (NodeOutputMsg j l) s) = queued_output i s"
  by (simp_all add: queued_output_def broadcastWSMessage_def)

lemma throttle_field [simp]: "queued_output i (s\<lparr>sp_outputThrottle := t\<rparr>) = queued_output i s"
  by (simp add: queued_output_def)

text \<open>The room left until \<open>b\<close> for lines of a node whose last line was passed on at \<open>e\<close>.\<close>

abbreviation room :: "int \<Rightarrow> int \<Rightarrow> nat" where
  "room b e \<equiv> nat ((b - e) div outputThrottle_window)"

lemma room_step: "e + outputThrottle_window \<le> t \<Longrightarrow> t \<le> b \<Longrightarrow> room b t + 1 \<le> room b e"
proof -
  assume h: "e + outputThrottle_window \<le> t" "t \<le> b"
  have "(b - t) div outputThrottle_window + 1 = (b - t + outputThrottle_window) div outputThrottle_window"
    by (simp add: outputThrottle_window_def)
  also have "\<dots> \<le> (b - e) div outputThrottle_window" using h(1) by (intro zdiv_mono1) (simp_all add: outputThrottle_window_def)
  finally show ?thesis using h(2) by (simp add: outputThrottle_window_def)
qed

lemma throttle_after_first:
  assumes "mget (sp_outputThrottle s) i = Some e" and "\<forall>(t, j, l) \<in> set calls. t \<le> b"
  shows "queued_output i (output_calls calls s) \<le> queued_output i s + room b e"
  using assms
proof (induction calls arbitrary: s e)
  case (Cons c calls)
  obtain t j l where c: "c = (t, j, l)" by (cases c)
  let ?s = "OutputCallback t j l s"
  have step: "output_calls (c # calls) s = output_calls calls ?s" by (simp add: output_calls_def c)
  show ?case
  proof (cases "j = i \<and> \<not> t - e < outputThrottle_window")
    case True
    then have "mget (sp_outputThrottle ?s) i = Some t" and q: "queued_output i ?s \<le> queued_output i s + 1"
      using Cons.prems(1) broadcast_output(1) [of i l "s\<lparr>sp_outputThrottle := fmupd i t (sp_outputThrottle s)\<rparr>"]
      by (simp_all add: OutputCallback_def)
    then have "queued_output i (output_calls calls ?s) \<le> queued_output i ?s + room b t" using Cons by simp
    moreover have "room b t + 1 \<le> room b e" using True Cons.prems(2) c by (intro room_step) auto
    ultimately show ?thesis using q step by simp
  next
    case False
    then have "mget (sp_outputThrottle ?s) i = Some e" and "queued_output i ?s = queued_output i s"
      using Cons.prems(1) by (cases "j = i"; auto simp: OutputCallback_def broadcast_output split: option.splits)+
    then show ?thesis using Cons.IH [of ?s e] Cons.prems(2) step by simp
  qed
qed (simp add: output_calls_def)

text \<open>
  C39: however many lines a node writes and however its lines are mixed with those of other nodes,
  the lines written at times between \<open>a\<close> and \<open>b\<close> put at most one message of that node into the
  queue of the clients, and one more for every 50 milliseconds between \<open>a\<close> and \<open>b\<close>.
\<close>

theorem node_output_is_throttled:
  assumes "\<forall>(t, j, l) \<in> set calls. a \<le> t \<and> t \<le> b"
  shows "queued_output i (output_calls calls s) \<le> queued_output i s + nat ((b - a) div 50000000) + 1"
  using assms
proof (induction calls arbitrary: s)
  case (Cons c calls)
  obtain t j l where c: "c = (t, j, l)" by (cases c)
  let ?s = "OutputCallback t j l s"
  have step: "output_calls (c # calls) s = output_calls calls ?s" by (simp add: output_calls_def c)
  have times: "\<forall>(t, j, l) \<in> set calls. t \<le> b" using Cons.prems by auto
  show ?case
  proof (cases "j = i \<and> ?s \<noteq> s")
    case True
    then have "mget (sp_outputThrottle ?s) i = Some t" and q: "queued_output i ?s \<le> queued_output i s + 1"
      using broadcast_output(1) [of i l "s\<lparr>sp_outputThrottle := fmupd i t (sp_outputThrottle s)\<rparr>"]
      by (auto simp: OutputCallback_def split: if_splits option.splits)
    then have "queued_output i (output_calls calls ?s) \<le> queued_output i ?s + room b t"
      using times by (intro throttle_after_first)
    moreover have "room b t \<le> room b a"
      using Cons.prems c by (intro nat_mono zdiv_mono1) (auto simp: outputThrottle_window_def)
    ultimately show ?thesis using q step by (simp add: outputThrottle_window_def)
  next
    case False
    then have "queued_output i ?s = queued_output i s"
      by (cases "j = i") (auto simp: OutputCallback_def broadcast_output split: if_splits)
    then show ?thesis using Cons.IH [of ?s] Cons.prems step by simp
  qed
qed (simp add: output_calls_def)

lemma no_output: "queued_output i (sup_NewServer d k) = 0"
  by (simp add: queued_output_def sup_NewServer_def)

theorem node_output_is_throttled_witness:
  "queued_output ''a'' (output_calls [(0, ''a'', ''x''), (10, ''b'', ''y''), (20, ''a'', ''z''), (70000000, ''a'', ''w'')]
     (sup_NewServer '''' '''')) \<le> 2"
  using node_output_is_throttled [of "[(0, ''a'', ''x''), (10, ''b'', ''y''), (20, ''a'', ''z''), (70000000, ''a'', ''w'')]"
      0 70000000 "''a''" "sup_NewServer '''' ''''"] no_output
  by simp

section \<open>The API key\<close>

text \<open>
  The law of the router: it answers with one of the routes for the method, the path begins
  with the part of the route's template before its first variable, and a template without a
  variable matches only itself, prefixes apart.
\<close>

definition sup_router_ok ::
  "((string option \<times> string \<times> sup_endpoint) list \<Rightarrow> string \<Rightarrow> string \<Rightarrow> (sup_endpoint \<times> string) option) \<Rightarrow> bool" where
  "sup_router_ok match \<longleftrightarrow> (\<forall>rs meth path ep var. match rs meth path = Some (ep, var) \<longrightarrow>
     (\<exists>mo t. (mo, t, ep) \<in> set rs \<and> (mo = None \<or> mo = Some meth) \<and> HasPrefix path (takeWhile (\<lambda>c. c \<noteq> CHR ''{'') t) \<and>
        (CHR ''{'' \<notin> set t \<longrightarrow> ep \<noteq> SStatic \<longrightarrow> path = t)))"

lemma api_routes:
  assumes "(mo, t, ep) \<in> set (sup_setupRoutes st)" and "ep \<noteq> SWebSocket" and "ep \<noteq> SStatic"
  shows "HasPrefix (takeWhile (\<lambda>c. c \<noteq> CHR ''{'') t) ''/api/''"
  using assms by (auto simp: sup_setupRoutes_def HasPrefix_def split: if_splits)

lemma HasPrefix_trans: "HasPrefix xs ys \<Longrightarrow> HasPrefix ys zs \<Longrightarrow> HasPrefix xs zs"
  by (auto simp: HasPrefix_def intro: take_all) (metis length_take min.absorb1 min.bounded_iff take_take)

lemma websocket_only:
  "snd (sup_handleWebSocket ok c s) = s\<lparr>sp_wsClients := sp_wsClients (snd (sup_handleWebSocket ok c s))\<rparr>"
  by (simp add: sup_handleWebSocket_def sendWSMessage_def sup_disconnect_def)

text \<open>
  C36: with an API key configured, a request that does not present exactly this key changes
  nothing of the supervisor's nodes, its simulation and its messages, whatever its path and
  method are; at most it registers a client, and only on the WebSocket path; and under \<open>/api/\<close>
  every route answers it with 401. So without the key no process is started or stopped, and
  no ticket request is passed on.
\<close>

theorem supervisor_key_guards_state:
  assumes "sup_router_ok match" and "sp_apiKey s \<noteq> ''''" and "presented_key r \<noteq> sp_apiKey s"
    and "sup_ServeHTTP match W st r s = (resp, s')"
  shows "s' = s\<lparr>sp_wsClients := sp_wsClients s'\<rparr> \<and> (rq_Path r \<noteq> ''/ws'' \<longrightarrow> s' = s) \<and>
    (HasPrefix (rq_Path r) ''/api/'' \<and> match (sup_setupRoutes st) (rq_Method r) (rq_Path r) \<noteq> None \<longrightarrow>
     resp = WriteError 401 ''Invalid or missing API key'')"
proof (cases "match (sup_setupRoutes st) (rq_Method r) (rq_Path r)")
  case None
  with assms(4) show ?thesis by (simp add: sup_ServeHTTP_def)
next
  case (Some ev)
  obtain ep var where ev: "ev = (ep, var)" by (cases ev)
  then obtain mo t where t: "(mo, t, ep) \<in> set (sup_setupRoutes st)" "HasPrefix (rq_Path r) (takeWhile (\<lambda>c. c \<noteq> CHR ''{'') t)"
      "CHR ''{'' \<notin> set t \<longrightarrow> ep \<noteq> SStatic \<longrightarrow> rq_Path r = t"
    using Some assms(1) unfolding sup_router_ok_def by blast
  have serve: "sup_ServeHTTP match W st r s = sup_apiKeyMiddleware (sup_dispatch W ep var) r s"
    using Some ev assms(2) by (simp add: sup_ServeHTTP_def)
  have no_api: "\<not> HasPrefix ''/ws'' ''/api/''" by (simp add: HasPrefix_def)
  consider (ws) "ep = SWebSocket" | (static) "ep = SStatic" | (api) "ep \<noteq> SWebSocket" "ep \<noteq> SStatic" by blast
  then show ?thesis
  proof cases
    case ws
    then have "rq_Path r = ''/ws''" using t(1,3) by (auto simp: sup_setupRoutes_def split: if_splits)
    moreover from this have "s' = (case sw_upgrade W r of None \<Rightarrow> s | Some c \<Rightarrow> snd (sup_handleWebSocket (sw_ok W) c s))"
      using ws assms(4) unfolding serve by (simp add: sup_apiKeyMiddleware_def sup_dispatch_def)
    then have "s' = s\<lparr>sp_wsClients := sp_wsClients s'\<rparr>"
      using websocket_only [of "sw_ok W" _ s] by (cases "sw_upgrade W r") simp_all
    ultimately show ?thesis using no_api by simp
  next
    case static
    then have "sup_dispatch W ep var r s = (sw_other W r, s)" by (auto simp: sup_dispatch_def)
    with assms(3,4) no_api show ?thesis unfolding serve by (auto simp: sup_apiKeyMiddleware_def split: if_splits)
  next
    case api
    then have "HasPrefix (rq_Path r) ''/api/''" using HasPrefix_trans [OF t(2) api_routes [OF t(1)]] by simp
    with assms(3,4) no_api show ?thesis unfolding serve by (auto simp: sup_apiKeyMiddleware_def split: if_splits)
  qed
qed

definition sup_literal_match ::
  "(string option \<times> string \<times> sup_endpoint) list \<Rightarrow> string \<Rightarrow> string \<Rightarrow> (sup_endpoint \<times> string) option" where
  "sup_literal_match rs meth path =
     map_option (\<lambda>(mo, t, ep). (ep, '''')) (find (\<lambda>(mo, t, ep). (mo = None \<or> mo = Some meth) \<and> t = path) rs)"

lemma HasPrefix_takeWhile: "HasPrefix t (takeWhile P t)"
  by (simp add: HasPrefix_def takeWhile_eq_take [symmetric])

lemma sup_literal_match_ok: "sup_router_ok sup_literal_match"
  unfolding sup_router_ok_def sup_literal_match_def
  by (auto dest!: find_SomeD intro!: HasPrefix_takeWhile)

theorem supervisor_key_guards_state_witness:
  "sup_ServeHTTP sup_literal_match start_world False plain_request (sup_NewServer '''' ''secret'') =
     (WriteError 401 ''Invalid or missing API key'', sup_NewServer '''' ''secret'')"
proof -
  let ?s = "sup_NewServer '''' ''secret''"
  obtain resp s' where r: "sup_ServeHTTP sup_literal_match start_world False plain_request ?s = (resp, s')" by fastforce
  have key: "sp_apiKey ?s \<noteq> ''''" "presented_key plain_request \<noteq> sp_apiKey ?s"
    by (simp_all add: presented_key_def plain_request_def HasPrefix_def sup_NewServer_def)
  have "sup_literal_match (sup_setupRoutes False) (rq_Method plain_request) (rq_Path plain_request) \<noteq> None"
    by (simp add: sup_literal_match_def sup_setupRoutes_def plain_request_def)
  moreover have "HasPrefix (rq_Path plain_request) ''/api/''" "rq_Path plain_request \<noteq> ''/ws''"
    by (simp_all add: plain_request_def HasPrefix_def)
  ultimately show ?thesis
    using supervisor_key_guards_state [OF sup_literal_match_ok key r] r by blast
qed

end
