(* ===== verification/Go_Flag.thy ===== *)
theory Go_Flag
  imports Go_Text Go_Strings
begin

text \<open>
  The parts of Go's \<open>flag\<close> and \<open>strconv\<close> packages that the programs' command lines use: the
  parsing of a list of arguments against declared flags, and of integers and booleans.

  A flag set maps names to values; the constructor of a value is the type of the flag, and the
  declared default is its first value. All flags of the programs are of these three types,
  apart from durations and rates of the simulator.
\<close>

section \<open>Values\<close>

definition digit_value :: "char \<Rightarrow> nat option" where
  "digit_value c =
     (let n = of_char (fold_char c) :: nat
      in if 48 \<le> n \<and> n \<le> 57 then Some (n - 48)
         else if 97 \<le> n \<and> n \<le> 122 then Some (n - 87)
         else None)"

text \<open>
  \<open>strconv.underscoreOK\<close>: underscores stand only between digits, where a base prefix counts as a
  digit. The state is what came last: the start, a digit, an underscore or another character.
\<close>

datatype seen_class = AtStart | Digit | Underscore | Other

definition underscore_step :: "bool \<Rightarrow> seen_class option \<Rightarrow> char \<Rightarrow> seen_class option" where
  "underscore_step hex st c =
     (case st of
        None \<Rightarrow> None
      | Some l \<Rightarrow>
          if (case digit_value c of None \<Rightarrow> False | Some d \<Rightarrow> d < 10 \<or> hex \<and> d < 16) then Some Digit
          else if c = CHR ''_'' then if l = Digit then Some Underscore else None
          else if l = Underscore then None
          else Some Other)"

definition base_prefix :: "string \<Rightarrow> char option" where
  "base_prefix s =
     (case s of
        z # c # _ \<Rightarrow>
          if z = CHR ''0'' \<and> fold_char c \<in> {CHR ''b'', CHR ''o'', CHR ''x''} then Some (fold_char c) else None
      | _ \<Rightarrow> None)"

definition underscoreOK :: "string \<Rightarrow> bool" where
  "underscoreOK s =
     (case base_prefix s of
        Some b \<Rightarrow> foldl (underscore_step (b = CHR ''x'')) (Some Digit) (drop 2 s) \<notin> {None, Some Underscore}
      | None \<Rightarrow> foldl (underscore_step False) (Some AtStart) s \<notin> {None, Some Underscore})"

definition base_val :: "nat \<Rightarrow> string \<Rightarrow> nat" where
  "base_val b s = foldl (\<lambda>n c. b * n + (case digit_value c of None \<Rightarrow> 0 | Some d \<Rightarrow> d)) 0 s"

text \<open>\<open>strconv.ParseUint\<close> with base 0: the base follows from the prefix.\<close>

definition ParseUint :: "string \<Rightarrow> nat option" where
  "ParseUint s =
     (if s = [] then None
      else
        let (b, digits) =
              (if hd s \<noteq> CHR ''0'' then (10, s)
               else if 3 \<le> length s \<and> base_prefix s = Some (CHR ''b'') then (2, drop 2 s)
               else if 3 \<le> length s \<and> base_prefix s = Some (CHR ''o'') then (8, drop 2 s)
               else if 3 \<le> length s \<and> base_prefix s = Some (CHR ''x'') then (16, drop 2 s)
               else (8, tl s))
        in if list_all (\<lambda>c. c = CHR ''_'' \<or> (case digit_value c of None \<Rightarrow> False | Some d \<Rightarrow> d < b)) digits \<and>
              (CHR ''_'' \<in> set digits \<longrightarrow> underscoreOK s)
           then let v = base_val b (filter (\<lambda>c. c \<noteq> CHR ''_'') digits) in if v < 2 ^ 64 then Some v else None
           else None)"

definition ParseInt :: "string \<Rightarrow> int option" where
  "ParseInt s =
     (if s = [] then None
      else
        let neg = (hd s = CHR ''-''); rest = (if hd s = CHR ''-'' \<or> hd s = CHR ''+'' then tl s else s)
        in case ParseUint rest of
             None \<Rightarrow> None
           | Some u \<Rightarrow>
               if \<not> neg \<and> u \<ge> 2 ^ 63 \<or> neg \<and> u > 2 ^ 63 then None
               else Some (if neg then - int u else int u))"

definition ParseBool :: "string \<Rightarrow> bool option" where
  "ParseBool s =
     (if s \<in> {''1'', ''t'', ''T'', ''TRUE'', ''true'', ''True''} then Some True
      else if s \<in> {''0'', ''f'', ''F'', ''FALSE'', ''false'', ''False''} then Some False
      else None)"

section \<open>Flags\<close>

datatype flag_value = StringV string | IntV int | BoolV bool

fun flag_Set :: "flag_value \<Rightarrow> string \<Rightarrow> flag_value option" where
  "flag_Set (StringV v) s = Some (StringV s)"
| "flag_Set (IntV v) s = map_option IntV (ParseInt s)"
| "flag_Set (BoolV v) s = map_option BoolV (ParseBool s)"

fun is_bool_flag :: "flag_value \<Rightarrow> bool" where
  "is_bool_flag (BoolV v) \<longleftrightarrow> True"
| "is_bool_flag _ \<longleftrightarrow> False"

type_synonym flags = "(string, flag_value) gomap"

datatype flag_error =
    BadSyntax string
  | NotDefined string
  | HelpRequested
  | NeedsArgument string
  | InvalidValue string string

text \<open>The name and the value after the first \<open>=\<close>, which is not the first character.\<close>

definition split_value :: "string \<Rightarrow> string \<times> string option" where
  "split_value name =
     (case dropWhile (\<lambda>c. c \<noteq> CHR ''='') (tl name) of
        [] \<Rightarrow> (name, None)
      | e # v \<Rightarrow> (hd name # takeWhile (\<lambda>c. c \<noteq> CHR ''='') (tl name), Some v))"

definition set_flag :: "string \<Rightarrow> flag_value \<Rightarrow> string \<Rightarrow> flags \<Rightarrow> flag_error + flags" where
  "set_flag name v s fs =
     (case flag_Set v s of None \<Rightarrow> Inl (InvalidValue name s) | Some v' \<Rightarrow> Inr (fmupd name v' fs))"

text \<open>
  \<open>FlagSet.Parse\<close>: the flags up to the first argument that is none, and the arguments left. A
  flag of another type than boolean takes the next argument, whatever it looks like.
\<close>

fun flag_Parse :: "string list \<Rightarrow> flags \<Rightarrow> flag_error + (flags \<times> string list)" where
  "flag_Parse [] fs = Inr (fs, [])"
| "flag_Parse (s # args) fs =
     (if length s < 2 \<or> hd s \<noteq> CHR ''-'' then Inr (fs, s # args)
      else if s = ''--'' then Inr (fs, args)
      else
        let stripped = (if s ! 1 = CHR ''-'' then drop 2 s else drop 1 s)
        in if stripped = [] \<or> hd stripped = CHR ''-'' \<or> hd stripped = CHR ''='' then Inl (BadSyntax s)
           else case mget fs (fst (split_value stripped)) of
             None \<Rightarrow>
               Inl (if fst (split_value stripped) \<in> {''help'', ''h''} then HelpRequested
                    else NotDefined (fst (split_value stripped)))
           | Some v \<Rightarrow>
               (case snd (split_value stripped) of
                  Some t \<Rightarrow>
                    (case set_flag (fst (split_value stripped)) v t fs of
                       Inl err \<Rightarrow> Inl err | Inr fs' \<Rightarrow> flag_Parse args fs')
                | None \<Rightarrow>
                    if is_bool_flag v then
                      (case set_flag (fst (split_value stripped)) v ''true'' fs of
                         Inl err \<Rightarrow> Inl err | Inr fs' \<Rightarrow> flag_Parse args fs')
                    else
                      (case args of
                         [] \<Rightarrow> Inl (NeedsArgument (fst (split_value stripped)))
                       | t # args' \<Rightarrow>
                           (case set_flag (fst (split_value stripped)) v t fs of
                              Inl err \<Rightarrow> Inl err | Inr fs' \<Rightarrow> flag_Parse args' fs'))))"

definition flag_string :: "string \<Rightarrow> flags \<Rightarrow> string" where
  "flag_string name fs = (case mget fs name of Some (StringV s) \<Rightarrow> s | _ \<Rightarrow> '''')"

definition flag_int :: "string \<Rightarrow> flags \<Rightarrow> int" where
  "flag_int name fs = (case mget fs name of Some (IntV i) \<Rightarrow> i | _ \<Rightarrow> 0)"

definition flag_bool :: "string \<Rightarrow> flags \<Rightarrow> bool" where
  "flag_bool name fs = (case mget fs name of Some (BoolV b) \<Rightarrow> b | _ \<Rightarrow> False)"

section \<open>Lemmas\<close>

text \<open>An integer printed in decimal is read back.\<close>

lemma digit_char_value: "d < 10 \<Longrightarrow> digit_value (digit_char d) = Some d"
  by (simp add: digit_value_def fold_char_def)


lemma base_val_snoc: "base_val b (s @ [c]) = b * base_val b s + (case digit_value c of None \<Rightarrow> 0 | Some d \<Rightarrow> d)"
  by (simp add: base_val_def)

lemma base_val_dec_nat: "base_val 10 (dec_nat n) = n"
proof (induction n rule: dec_nat.induct)
  case (1 n)
  show ?case
  proof (cases "n < 10")
    case True
    then show ?thesis by (simp add: dec_nat.simps [of n] base_val_def digit_char_value)
  next
    case False
    with "1.IH" show ?thesis by (simp add: dec_nat.simps [of n] base_val_snoc digit_char_value)
  qed
qed

lemma hd_dec_nat: "0 < n \<Longrightarrow> hd (dec_nat n) \<noteq> CHR ''0''"
proof (induction n rule: dec_nat.induct)
  case (1 n)
  show ?case
  proof (cases "n < 10")
    case True
    then have "(of_char (digit_char n) :: nat) \<noteq> of_char (CHR ''0'')" using "1.prems" by simp
    then have "digit_char n \<noteq> CHR ''0''" by metis
    with True show ?thesis by (simp add: dec_nat.simps [of n])
  next
    case False
    with "1.IH" show ?thesis by (simp add: dec_nat.simps [of n])
  qed
qed

lemma dec_nat_0: "dec_nat 0 = ''0''"
  by (simp add: dec_nat.simps digit_char_def) code_simp

lemma underscore_not_digit: "CHR ''_'' \<notin> set (dec_nat n)"
proof
  assume "CHR ''_'' \<in> set (dec_nat n)"
  then obtain d where d: "d < 10" "CHR ''_'' = digit_char d" using dec_nat_digits by blast
  then have "(of_char (CHR ''_'') :: nat) = 48 + d" by simp
  with d(1) show False by simp
qed

lemma dec_nat_all: "list_all (\<lambda>c. c = CHR ''_'' \<or> (case digit_value c of None \<Rightarrow> False | Some d \<Rightarrow> d < 10)) (dec_nat n)"
  unfolding list_all_iff
proof
  fix c assume "c \<in> set (dec_nat n)"
  then obtain d where "d < 10" "c = digit_char d" using dec_nat_digits by blast
  then show "c = CHR ''_'' \<or> (case digit_value c of None \<Rightarrow> False | Some d \<Rightarrow> d < 10)" by (simp add: digit_char_value)
qed

lemma ParseUint_dec_nat: "n < 2 ^ 64 \<Longrightarrow> ParseUint (dec_nat n) = Some n"
proof (cases "n = 0")
  case True
  then show ?thesis by (simp add: dec_nat_0 ParseUint_def base_val_def)
next
  case False
  have "filter (\<lambda>c. c \<noteq> CHR ''_'') (dec_nat n) = dec_nat n" using underscore_not_digit by (auto simp: filter_id_conv)
  moreover assume "n < 2 ^ 64"
  ultimately show ?thesis using False hd_dec_nat dec_nat_all [of n] underscore_not_digit [of n]
    by (simp add: ParseUint_def base_val_dec_nat)
qed

lemma sign_not_first: "hd (dec_nat n) \<noteq> CHR ''-''" "hd (dec_nat n) \<noteq> CHR ''+''"
proof -
  have "hd (dec_nat n) \<in> set (dec_nat n)" by simp
  then obtain d where d: "d < 10" "hd (dec_nat n) = digit_char d" using dec_nat_digits by blast
  then have "(of_char (hd (dec_nat n)) :: nat) = 48 + d" by simp
  then show "hd (dec_nat n) \<noteq> CHR ''-''" "hd (dec_nat n) \<noteq> CHR ''+''"
    by (simp_all add: of_char_eq_iff [symmetric, where ?'a = nat] del: of_char_eq_iff)
qed

lemma ParseInt_FormatInt: "- (2 ^ 63) \<le> x \<Longrightarrow> x < 2 ^ 63 \<Longrightarrow> ParseInt (FormatInt x) = Some x"
proof (cases "x < 0")
  case True
  assume "- (2 ^ 63) \<le> x"
  with True have "nat (- x) \<le> 2 ^ 63" by simp
  with True show ?thesis by (simp add: FormatInt_def ParseInt_def ParseUint_dec_nat)
next
  case False
  assume "x < 2 ^ 63"
  with False have lt: "nat x < 2 ^ 63" by simp
  with False lt sign_not_first [of "nat x"] show ?thesis by (simp add: FormatInt_def ParseInt_def ParseUint_dec_nat)
qed

text \<open>How the parser moves over a flag with a separate value and over a boolean flag.\<close>

definition plain_name :: "string \<Rightarrow> bool" where
  "plain_name name \<longleftrightarrow> name \<noteq> [] \<and> hd name \<noteq> CHR ''-'' \<and> CHR ''='' \<notin> set name"

lemma plain_split: "plain_name name \<Longrightarrow> split_value name = (name, None)"
proof -
  assume "plain_name name"
  then have "\<forall>c \<in> set (tl name). c \<noteq> CHR ''=''" by (auto simp: plain_name_def dest: list.set_sel(2))
  then have "dropWhile (\<lambda>c. c \<noteq> CHR ''='') (tl name) = []" by (simp add: dropWhile_eq_Nil_conv)
  then show ?thesis unfolding split_value_def by (simp only: list.case)
qed

lemma parse_value:
  assumes "plain_name name" and "mget fs name = Some v" and "\<not> is_bool_flag v" and "flag_Set v t = Some v'"
  shows "flag_Parse ((CHR ''-'' # name) # t # args) fs = flag_Parse args (fmupd name v' fs)"
proof -
  have n: "name \<noteq> []" "hd name \<noteq> CHR ''-''" "hd name \<noteq> CHR ''=''" using assms(1) hd_in_set [of name] by (auto simp: plain_name_def simp del: hd_in_set)
  then have "(CHR ''-'' # name) ! 1 \<noteq> CHR ''-''" "(CHR ''-'' # name) \<noteq> ''--''" by (auto simp: hd_conv_nth)
  with n assms show ?thesis by (simp add: plain_split set_flag_def)
qed

lemma parse_bool:
  assumes "plain_name name" and "mget fs name = Some (BoolV b)"
  shows "flag_Parse ((CHR ''-'' # name) # args) fs = flag_Parse args (fmupd name (BoolV True) fs)"
proof -
  have n: "name \<noteq> []" "hd name \<noteq> CHR ''-''" "hd name \<noteq> CHR ''=''" using assms(1) hd_in_set [of name] by (auto simp: plain_name_def simp del: hd_in_set)
  then have "(CHR ''-'' # name) ! 1 \<noteq> CHR ''-''" "(CHR ''-'' # name) \<noteq> ''--''" by (auto simp: hd_conv_nth)
  with n assms show ?thesis by (simp add: plain_split set_flag_def ParseBool_def)
qed

end
