(* ===== verification/Discovery.thy ===== *)
theory Discovery
  imports Prelude
begin

text \<open>
  \<open>pkg/network/discovery.go\<close>: how a node connects to its bootstrap peers and keeps looking for
  other validators.

  The DHT and the host are outside: what a search finds, whether a peer is connected when it is
  looked at, and how an attempt to connect ends are parameters. A pass of \<open>discoverPeers\<close> runs
  concurrently with others and with the connection attempts it starts, so passes are a step
  relation; the callback calls and the attempts to connect, those to the bootstrap peers first,
  are recorded in the state.
\<close>

section \<open>Definitions\<close>

record AddrInfo =
  ai_ID :: string
  ai_Addrs :: "string list"

record Discovery =
  dv_self :: string
  dv_peers :: "(string, AddrInfo) gomap"
  dv_onPeerFound :: bool
  dv_cancelled :: bool
  dv_calls :: "AddrInfo list"
  dv_dials :: "AddrInfo list"


text \<open>
  The goroutines of \<open>connectToBootstrapPeers\<close>, in the order in which they finish, with the first
  error and the attempts so far. \<open>connect\<close> is the error of an attempt, if any. A peer without
  an ID is not tried.
\<close>

definition connect_one ::
  "(AddrInfo \<Rightarrow> string option) \<Rightarrow> AddrInfo \<Rightarrow> string option \<times> AddrInfo list \<Rightarrow> string option \<times> AddrInfo list" where
  "connect_one connect pi acc =
     (case acc of (firstErr, dials) \<Rightarrow>
        if ai_ID pi = '''' then (firstErr, dials)
        else case connect pi of
          Some err \<Rightarrow>
            (if firstErr = None then Some (''failed to connect to bootstrap peer '' @ ai_ID pi @ '': '' @ err) else firstErr,
             dials @ [pi])
        | None \<Rightarrow> (firstErr, dials @ [pi]))"

definition connectToBootstrapPeers :: "(AddrInfo \<Rightarrow> string option) \<Rightarrow> AddrInfo list \<Rightarrow> string option \<times> AddrInfo list" where
  "connectToBootstrapPeers connect bootstrapPeers = fold (connect_one connect) bootstrapPeers (None, [])"

text \<open>The bootstrap peers are dialled but not stored among the peers.\<close>

definition NewDiscovery ::
  "string option \<Rightarrow> string option \<Rightarrow> (AddrInfo \<Rightarrow> string option) \<Rightarrow> string \<Rightarrow> AddrInfo list \<Rightarrow> string + Discovery" where
  "NewDiscovery dhtErr bootErr connect self bootstrapPeers =
     (case dhtErr of
        Some err \<Rightarrow> Inl (''failed to create DHT: '' @ err)
      | None \<Rightarrow>
          (case bootErr of
             Some err \<Rightarrow> Inl (''failed to bootstrap DHT: '' @ err)
           | None \<Rightarrow>
               (case (if bootstrapPeers = [] then (None, []) else connectToBootstrapPeers connect bootstrapPeers) of
                  (Some err, dials) \<Rightarrow> Inl (''failed to connect to bootstrap peers: '' @ err)
                | (None, dials) \<Rightarrow> Inr \<lparr>dv_self = self, dv_peers = fmempty, dv_onPeerFound = False, dv_cancelled = False,
                              dv_calls = [], dv_dials = dials\<rparr>)))"











section \<open>Bootstrap peers\<close>

text \<open>The peers that are tried at all.\<close>

definition bootstrap_dials :: "AddrInfo list \<Rightarrow> AddrInfo list" where
  "bootstrap_dials bootstrapPeers = filter (\<lambda>pi. ai_ID pi \<noteq> '''') bootstrapPeers"

lemma connect_fold:
  "fold (connect_one connect) pis (e, dials) =
     (if e \<noteq> None then e
      else case find (\<lambda>pi. connect pi \<noteq> None) (bootstrap_dials pis) of
        None \<Rightarrow> None
      | Some pi \<Rightarrow> Some (''failed to connect to bootstrap peer '' @ ai_ID pi @ '': '' @ the (connect pi)),
      dials @ bootstrap_dials pis)"
  by (induction pis arbitrary: e dials) (auto simp: connect_one_def bootstrap_dials_def split: option.splits)


text \<open>
  A node starts exactly if every bootstrap peer that is given with a peer ID can be
  connected, in whatever order the attempts finish; with one that cannot, the start fails with
  the error of such a peer. A bootstrap peer without a peer ID is never tried: it neither helps
  nor prevents the start.
\<close>

theorem bootstrap_succeeds_iff:
  "((\<exists>d. NewDiscovery None None connect self pis = Inr d) \<longleftrightarrow> (\<forall>pi \<in> set pis. ai_ID pi \<noteq> '''' \<longrightarrow> connect pi = None)) \<and>
   (\<forall>err. NewDiscovery None None connect self pis = Inl err \<longrightarrow>
      (\<exists>pi \<in> set pis. ai_ID pi \<noteq> '''' \<and> (\<exists>e. connect pi = Some e \<and>
         err = ''failed to connect to bootstrap peers: failed to connect to bootstrap peer '' @ ai_ID pi @ '': '' @ e))) \<and>
   NewDiscovery None None connect self (bootstrap_dials pis) = NewDiscovery None None connect self pis"
proof -
  have same: "bootstrap_dials (bootstrap_dials pis) = bootstrap_dials pis" by (simp add: bootstrap_dials_def)
  show ?thesis
  proof (cases "find (\<lambda>pi. connect pi \<noteq> None) (bootstrap_dials pis)")
    case None
    then have "\<forall>pi \<in> set pis. ai_ID pi \<noteq> '''' \<longrightarrow> connect pi = None" by (auto simp: find_None_iff bootstrap_dials_def)
    moreover have "bootstrap_dials [] = []" by (simp add: bootstrap_dials_def)
    ultimately show ?thesis using None same by (simp add: NewDiscovery_def connectToBootstrapPeers_def connect_fold)
  next
    case (Some pi)
    then have pi: "pi \<in> set pis" "ai_ID pi \<noteq> ''''" "connect pi \<noteq> None" by (auto dest!: find_SomeD simp: bootstrap_dials_def)
    then have "pis \<noteq> []" "bootstrap_dials pis \<noteq> []" by (auto simp: bootstrap_dials_def filter_empty_conv)
    with Some same pi show ?thesis by (auto simp: NewDiscovery_def connectToBootstrapPeers_def connect_fold)
  qed
qed

definition lone_peer :: AddrInfo where "lone_peer = \<lparr>ai_ID = ''Qm1'', ai_Addrs = [''/ip4/127.0.0.1/tcp/4001'']\<rparr>"

theorem bootstrap_succeeds_iff_witness:
  "(\<nexists>d. NewDiscovery None None (\<lambda>pi. Some ''refused'') ''Qm0'' [lone_peer] = Inr d) \<and>
   (\<exists>d. NewDiscovery None None (\<lambda>pi. Some ''refused'') ''Qm0'' [lone_peer\<lparr>ai_ID := ''''\<rparr>] = Inr d)"
  using bootstrap_succeeds_iff [of "\<lambda>pi. Some ''refused''" "''Qm0''" "[lone_peer]"]
    bootstrap_succeeds_iff [of "\<lambda>pi. Some ''refused''" "''Qm0''" "[lone_peer\<lparr>ai_ID := ''''\<rparr>]"]
  by (simp add: lone_peer_def)

section \<open>Found peers\<close>

















end
