(* ===== verification/Launch.thy ===== *)
theory Launch
  imports Go_Flag Discovery Validator Supervisor_Properties
begin

text \<open>
  \<open>cmd/validator/main.go\<close> and \<open>cmd/supervisor/main.go\<close>: from the arguments of a process to its
  configuration, and from there to the configurations of its parts. The supervisor starts
  validators, so that what it writes on their command line is read here.

  The environment is a function from names to values, empty where a name is not set. The
  parsing of multiaddresses is libp2p's and a parameter.
\<close>

section \<open>The validator's command line\<close>

record LaunchConfig =
  lc_NodeID :: string
  lc_ListenPort :: int
  lc_APIPort :: int
  lc_DataDir :: string
  lc_BootstrapPeers :: "string list"
  lc_IsBootstrap :: bool
  lc_IsPrimary :: bool
  lc_TotalNodes :: int
  lc_APIKey :: string

definition validator_flags :: flags where
  "validator_flags = fmap_of_list
     [(''id'', StringV ''node0''), (''port'', IntV 4001), (''api-port'', IntV 8080), (''data-dir'', StringV ''./data''),
      (''bootstrap'', StringV ''''), (''bootstrap-node'', BoolV False), (''primary'', BoolV False),
      (''total-nodes'', IntV 4), (''api-key'', StringV '''')]"

definition split_peers :: "string \<Rightarrow> string list" where
  "split_peers s = (if s = '''' then [] else filter (\<lambda>p. p \<noteq> '''') (map TrimSpace (Split (CHR '','') s)))"

definition key_or_env :: "(string \<Rightarrow> string) \<Rightarrow> string \<Rightarrow> string" where
  "key_or_env env key = (if key = '''' then env ''DTVN_API_KEY'' else key)"

definition validator_config :: "(string \<Rightarrow> string) \<Rightarrow> string list \<Rightarrow> flag_error + LaunchConfig" where
  "validator_config env args =
     (case flag_Parse args validator_flags of
        Inl err \<Rightarrow> Inl err
      | Inr (fs, rest) \<Rightarrow>
          Inr \<lparr>lc_NodeID = flag_string ''id'' fs, lc_ListenPort = flag_int ''port'' fs, lc_APIPort = flag_int ''api-port'' fs,
               lc_DataDir = flag_string ''data-dir'' fs, lc_BootstrapPeers = split_peers (flag_string ''bootstrap'' fs),
               lc_IsBootstrap = flag_bool ''bootstrap-node'' fs, lc_IsPrimary = flag_bool ''primary'' fs,
               lc_TotalNodes = flag_int ''total-nodes'' fs, lc_APIKey = key_or_env env (flag_string ''api-key'' fs)\<rparr>)"

text \<open>The environment \<open>startNodeProcess\<close> gives to a validator.\<close>

definition node_env :: "string \<Rightarrow> (string \<Rightarrow> string) \<Rightarrow> string \<Rightarrow> string" where
  "node_env apiKey env = (if apiKey \<noteq> '''' then env(''DTVN_API_KEY'' := apiKey) else env)"

section \<open>The parts of a validator\<close>

text \<open>
  \<open>NewValidatorNode\<close> on its bootstrap peers: an address that does not parse is left out, one
  without a peer ID is kept with an empty one. \<open>parse\<close> gives the text of a valid address,
  \<open>info\<close> the peer ID and transport address of one that has a peer ID.
\<close>

definition bootstrap_infos ::
  "(string \<Rightarrow> string option) \<Rightarrow> (string \<Rightarrow> AddrInfo option) \<Rightarrow> string list \<Rightarrow> AddrInfo list" where
  "bootstrap_infos parse info peers =
     List.map_filter (\<lambda>peerAddr.
       if peerAddr = '''' then None
       else case parse peerAddr of
         None \<Rightarrow> None
       | Some addr \<Rightarrow>
           (case info addr of
              None \<Rightarrow> Some \<lparr>ai_ID = '''', ai_Addrs = [addr]\<rparr>
            | Some peerInfo \<Rightarrow> Some peerInfo)) peers"

definition store_path :: "LaunchConfig \<Rightarrow> string" where
  "store_path cfg = lc_DataDir cfg @ ''/'' @ lc_NodeID cfg @ ''.db''"

definition pbft_config :: "LaunchConfig \<Rightarrow> Config" where
  "pbft_config cfg =
     \<lparr>cfg_NodeID = lc_NodeID cfg, cfg_TotalNodes = lc_TotalNodes cfg, cfg_IsPrimary = lc_IsPrimary cfg,
      cfg_ViewTimeout = 15000000000\<rparr>"

section \<open>The supervisor's command line\<close>

record SupervisorArgs =
  sa_Port :: int
  sa_Address :: string
  sa_DataDir :: string
  sa_ValidatorPath :: string
  sa_SimulatorPath :: string
  sa_StaticDir :: string
  sa_APIKey :: string

definition supervisor_flags :: flags where
  "supervisor_flags = fmap_of_list
     [(''web-port'', IntV 8080), (''web-addr'', StringV ''0.0.0.0''), (''data-dir'', StringV ''./data''),
      (''validator'', StringV ''''), (''simulator'', StringV ''''), (''static-dir'', StringV ''''),
      (''auto-start'', IntV 0), (''api-key'', StringV '''')]"

text \<open>
  What the programs ask of the file system: the absolute form of a path, whether \<open>os.Stat\<close> on
  it succeeds, whether it fails because there is no such file, the directory of the executable
  and the working directory.
\<close>

record FileSystem =
  os_Abs :: "string \<Rightarrow> string option"
  os_Exists :: "string \<Rightarrow> bool"
  os_Missing :: "string \<Rightarrow> bool"
  os_ExecDir :: "string option"
  os_Cwd :: "string option"

definition binary_locations :: "FileSystem \<Rightarrow> string \<Rightarrow> string list" where
  "binary_locations F name =
     [path_Join [''bin'', name], path_Join [''.'', name], name] @
     (case os_ExecDir F of None \<Rightarrow> [] | Some d \<Rightarrow> [path_Join [d, name], path_Join [d, ''..'', ''bin'', name]]) @
     (case os_Cwd F of None \<Rightarrow> [] | Some d \<Rightarrow> [path_Join [d, ''bin'', name], path_Join [d, name]])"

fun first_existing :: "FileSystem \<Rightarrow> string list \<Rightarrow> string option" where
  "first_existing F [] = None"
| "first_existing F (loc # locs) =
     (case os_Abs F loc of
        None \<Rightarrow> first_existing F locs
      | Some absPath \<Rightarrow> if os_Exists F absPath then Some absPath else first_existing F locs)"

definition findBinary :: "FileSystem \<Rightarrow> string \<Rightarrow> string" where
  "findBinary F name = (case first_existing F (binary_locations F name) of None \<Rightarrow> '''' | Some p \<Rightarrow> p)"

datatype sup_exit = UsageError flag_error | NoValidator | NoDataDir string

text \<open>\<open>main\<close> up to the server; \<open>mkdirErr\<close> is the error of creating the data directory.\<close>

definition supervisor_args :: "FileSystem \<Rightarrow> string option \<Rightarrow> (string \<Rightarrow> string) \<Rightarrow> string list \<Rightarrow> sup_exit + SupervisorArgs" where
  "supervisor_args F mkdirErr env args =
     (case flag_Parse args supervisor_flags of
        Inl err \<Rightarrow> Inl (UsageError err)
      | Inr (fs, rest) \<Rightarrow>
          let pick = (\<lambda>name. if flag_string name fs = '''' then findBinary F name else flag_string name fs)
          in if pick ''validator'' = '''' then Inl NoValidator
             else case mkdirErr of
               Some err \<Rightarrow> Inl (NoDataDir err)
             | None \<Rightarrow>
                 Inr \<lparr>sa_Port = flag_int ''web-port'' fs, sa_Address = flag_string ''web-addr'' fs,
                      sa_DataDir = flag_string ''data-dir'' fs, sa_ValidatorPath = pick ''validator'',
                      sa_SimulatorPath = pick ''simulator'', sa_StaticDir = flag_string ''static-dir'' fs,
                      sa_APIKey = key_or_env env (flag_string ''api-key'' fs)\<rparr>)"

text \<open>
  The static files of the supervisor and of a validator's API: the configured directory, or
  the first of the known places.
\<close>

definition static_alternatives :: "string list" where
  "static_alternatives = [''../../web/static'', ''../web/static'', ''./web/static'']"

definition sup_setupStaticRoutes :: "FileSystem \<Rightarrow> string \<Rightarrow> string option" where
  "sup_setupStaticRoutes F configured =
     (let dir = (if configured = '''' then ''web/static'' else configured);
          dir' = (if \<not> os_Missing F dir then dir
                  else case first_existing F static_alternatives of None \<Rightarrow> dir | Some p \<Rightarrow> p)
      in if os_Exists F dir' then Some dir' else None)"

definition setupStaticRoutes :: "FileSystem \<Rightarrow> string option" where
  "setupStaticRoutes F =
     (if \<not> os_Missing F ''web/static'' then Some ''web/static'' else first_existing F static_alternatives)"

section \<open>Lemmas\<close>

declare flag_Parse.simps(2) [simp del]

lemma parse_string:
  "plain_name name \<Longrightarrow> \<exists>v. mget fs name = Some (StringV v) \<Longrightarrow>
     flag_Parse ((CHR ''-'' # name) # t # args) fs = flag_Parse args (fmupd name (StringV t) fs)"
  by (auto intro: parse_value)

lemma parse_int:
  "plain_name name \<Longrightarrow> \<exists>v. mget fs name = Some (IntV v) \<Longrightarrow> in_int64 x \<Longrightarrow>
     flag_Parse ((CHR ''-'' # name) # FormatInt x # args) fs = flag_Parse args (fmupd name (IntV x) fs)"
  by (auto intro!: parse_value simp: in_int64_def ParseInt_FormatInt)

lemma parse_switch:
  "plain_name name \<Longrightarrow> map_option is_bool_flag (mget fs name) = Some True \<Longrightarrow>
     flag_Parse ((CHR ''-'' # name) # args) fs = flag_Parse args (fmupd name (BoolV True) fs)"
  by (cases "mget fs name"; cases "the (mget fs name)") (auto intro: parse_bool)

lemma first_existing_iff: "first_existing F locs \<noteq> None \<longleftrightarrow> (\<exists>loc \<in> set locs. \<exists>p. os_Abs F loc = Some p \<and> os_Exists F p)"
  by (induction locs) (auto split: option.splits)

lemma command_line_read:
  assumes "in_int64 (mn_Port n)" and "in_int64 (mn_APIPort n)" and "in_int64 (nm_totalNodes m)"
  shows "validator_config env (command_args n m) =
    Inr \<lparr>lc_NodeID = mn_ID n, lc_ListenPort = mn_Port n, lc_APIPort = mn_APIPort n,
         lc_DataDir = path_Join [nm_dataDir m, mn_ID n], lc_BootstrapPeers = split_peers (mn_bootstrapAddr n),
         lc_IsBootstrap = mn_IsBootstrap n, lc_IsPrimary = mn_IsPrimary n, lc_TotalNodes = nm_totalNodes m,
         lc_APIKey = env ''DTVN_API_KEY''\<rparr>"
  using assms
  by (cases "mn_IsPrimary n"; cases "mn_IsBootstrap n"; cases "mn_bootstrapAddr n = ''''")
     (simp_all add: validator_config_def command_args_def validator_flags_def parse_string parse_int parse_switch plain_name_def
        flag_string_def flag_int_def flag_bool_def key_or_env_def split_peers_def)

section \<open>From the supervisor to the validator\<close>

text \<open>
  C32: whatever a node is called and wherever its data are, the validator process that the
  supervisor launches for it reads from its command line and environment exactly the
  configuration of the managed node: its ID, its two ports, its data directory, its roles, the
  size of the network the manager assumes, the peers of its bootstrap address, and the
  supervisor's own API key where it has one.
\<close>

theorem node_starts_as_configured:
  assumes "mget (nm_heap m) a = Some n"
    and "in_int64 (mn_Port n)" and "in_int64 (mn_APIPort n)" and "in_int64 (nm_totalNodes m)"
  shows "\<exists>n'. mget (nm_heap (process_launch (Launched now) a m)) a = Some n' \<and> mn_Status n' = NodeStatusRunning \<and>
    validator_config (node_env key env) (mn_args n') =
      Inr \<lparr>lc_NodeID = mn_ID n, lc_ListenPort = mn_Port n, lc_APIPort = mn_APIPort n,
           lc_DataDir = path_Join [nm_dataDir m, mn_ID n], lc_BootstrapPeers = split_peers (mn_bootstrapAddr n),
           lc_IsBootstrap = mn_IsBootstrap n, lc_IsPrimary = mn_IsPrimary n, lc_TotalNodes = nm_totalNodes m,
           lc_APIKey = (if key = '''' then env ''DTVN_API_KEY'' else key)\<rparr>"
  using assms by (simp add: process_launch_def change_heap command_line_read node_env_def)

definition one_launching :: NodeManager where
  "one_launching = process_begin 0 (snd (StartNode ''-x'' True True '''' (NewNodeManager quiet_config)))"

theorem node_starts_as_configured_witness:
  "\<exists>n' cfg. mget (nm_heap (process_launch (Launched 5) 0 one_launching)) 0 = Some n' \<and>
     validator_config (node_env ''secret'' (\<lambda>v. '''')) (mn_args n') = Inr cfg \<and>
     lc_NodeID cfg = ''-x'' \<and> lc_TotalNodes cfg = 1 \<and> lc_APIKey cfg = ''secret''"
proof -
  obtain n where n: "mget (nm_heap one_launching) 0 = Some n" "mn_ID n = ''-x''" "mn_Port n = 4001" "mn_APIPort n = 9001"
    by (simp add: one_launching_def StartNode_def startNodeWithTotal_def process_begin_def change_heap NewNodeManager_def
        quiet_config_def node_of_def Let_def)
  have tot: "nm_totalNodes one_launching = 1"
    by (simp add: one_launching_def StartNode_def startNodeWithTotal_def process_begin_def NewNodeManager_def
        quiet_config_def node_of_def Let_def golen_upd)
  show ?thesis
    using node_starts_as_configured [OF n(1), where now = 5 and key = "''secret''" and env = "\<lambda>v. ''''"] n tot
    by (fastforce simp: in_int64_def)
qed

lemma launched_quorum:
  assumes "launched_with (int k + 1) port apiPort n" and "in_int64 port" and "in_int64 apiPort" and "int k < 2 ^ 62"
  shows "\<exists>cfg. validator_config env (mn_args n) = Inr cfg \<and> lc_TotalNodes cfg = int k + 1 \<and>
    (\<forall>app. required_votes (NewPBFTNode (pbft_config cfg) app) = 2 * (int k div 3) + 1)"
proof -
  obtain n0 m0 where n0: "mn_args n = command_args n0 m0" "nm_totalNodes m0 = int k + 1" "mn_Port n0 = port" "mn_APIPort n0 = apiPort"
    using assms(1) by (auto simp: launched_with_def)
  have "in_int64 (nm_totalNodes m0)" using n0(2) assms(4) by (simp add: in_int64_def)
  with n0 assms(2,3) have "validator_config env (mn_args n) = Inr \<lparr>lc_NodeID = mn_ID n0, lc_ListenPort = port, lc_APIPort = apiPort,
         lc_DataDir = path_Join [nm_dataDir m0, mn_ID n0], lc_BootstrapPeers = split_peers (mn_bootstrapAddr n0),
         lc_IsBootstrap = mn_IsBootstrap n0, lc_IsPrimary = mn_IsPrimary n0, lc_TotalNodes = int k + 1,
         lc_APIKey = env ''DTVN_API_KEY''\<rparr>"
    using command_line_read [of n0 m0 env] by simp
  moreover have "max_faulty (int k + 1) = int k div 3" using assms(4) by (simp add: max_faulty_def sdiv_nonneg int64_id in_int64_def)
  ultimately show ?thesis by (simp add: pbft_config_def required_votes_def NewPBFTNode_def Let_def)
qed

text \<open>
  When nodes are started one by one, the node started after \<open>k\<close> others takes part in
  consensus with a network of \<open>k + 1\<close> nodes, and waits for \<open>2 * (k div 3) + 1\<close> votes. So the
  nodes of one network disagree on the quorum, and the first three decide on their own vote
  alone.
\<close>

theorem single_starts_disagree_on_quorum:
  assumes "distinct is" and "int (length is) < 2 ^ 62" and "k < length is"
  shows "\<exists>n cfg. node_of (is ! k) (fold add_node is (sp_nodeManager (sup_NewServer dataDir key))) = Some n \<and>
    validator_config env (mn_args n) = Inr cfg \<and> lc_TotalNodes cfg = int k + 1 \<and>
    (\<forall>app. required_votes (NewPBFTNode (pbft_config cfg) app) = 2 * (int k div 3) + 1)"
proof -
  let ?cfg = "\<lparr>nc_DataDir = dataDir, nc_BasePort = 0, nc_BaseAPIPort = 0, nc_StatusCallback = True, nc_ClusterCallback = True,
    nc_OutputCallback = True\<rparr>"
  have new: "sp_nodeManager (sup_NewServer dataDir key) = NewNodeManager ?cfg" by (simp add: sup_NewServer_def)
  have base: "nm_basePort (NewNodeManager ?cfg) = 4001" "nm_baseAPIPort (NewNodeManager ?cfg) = 9001"
    by (simp_all add: NewNodeManager_def)
  obtain n where n: "node_of (is ! k) (fold add_node is (NewNodeManager ?cfg)) = Some n" "launched_with (int k + 1) (4001 + int k) (9001 + int k) n"
    using add_nodes [OF assms(1), of ?cfg] assms(3) unfolding base by blast
  have "int k < 2 ^ 62" using assms(2,3) by simp
  then have "in_int64 (4001 + int k)" "in_int64 (9001 + int k)" by (simp_all add: in_int64_def)
  with n \<open>int k < 2 ^ 62\<close> launched_quorum show ?thesis unfolding new by blast
qed

theorem single_starts_disagree_on_quorum_witness:
  "\<exists>n cfg. node_of ''d'' (fold add_node [''a'', ''b'', ''c'', ''d''] (sp_nodeManager (sup_NewServer '''' ''''))) = Some n \<and>
     validator_config (\<lambda>v. '''') (mn_args n) = Inr cfg \<and> required_votes (NewPBFTNode (pbft_config cfg) ()) = 3"
  using single_starts_disagree_on_quorum [of "[''a'', ''b'', ''c'', ''d'']" 3 "''''" "''''" "\<lambda>v. ''''"] by auto

lemma managed_start:
  assumes "manage now (StartNode i p b addr) s = (None, s')"
  shows "\<exists>m. startNodeWithTotal i p b addr 0 m = (None, (sp_nodeManager s')\<lparr>nm_calls := nm_calls m\<rparr>)"
proof -
  let ?m = "(sp_nodeManager s)\<lparr>nm_calls := []\<rparr>"
  obtain m' where m': "startNodeWithTotal i p b addr 0 ?m = (None, m')"
    using assms by (cases "startNodeWithTotal i p b addr 0 ?m") (auto simp: manage_def StartNode_def)
  then have "nm_calls m' = []" by (auto simp: startNodeWithTotal_def Let_def split: if_splits)
  moreover have "sp_nodeManager s' = m'\<lparr>nm_calls := []\<rparr>" using assms m' by (auto simp: manage_def StartNode_def)
  ultimately have "startNodeWithTotal i p b addr 0 ?m = (None, (sp_nodeManager s')\<lparr>nm_calls := nm_calls ?m\<rparr>)" using m' by simp
  then show ?thesis by blast
qed

lemma restarted_start:
  assumes "handleRestartNode now wait i s = (WriteJSON (ActionData ''restarting'' i), s')"
  shows "\<exists>s1 p b. manage now (StartNode i p b '''') s1 = (None, s')"
  using assms by (auto simp: handleRestartNode_def restart_start_def split: sum.splits if_splits prod.splits option.splits)

text \<open>
  A node that is restarted through the supervisor is put back as a new entry whose process
  is launched without bootstrap peers, whatever address it was started with before, so that it
  dials nobody when it starts.
\<close>

theorem restart_forgets_bootstrap:
  assumes "handleRestartNode now wait i s = (WriteJSON (ActionData ''restarting'' i), s')"
  shows "\<exists>a n. mget (nm_nodes (sp_nodeManager s')) i = Some a \<and> mget (nm_heap (sp_nodeManager s')) a = Some n \<and> mn_phase n = Spawned \<and>
    (in_int64 (mn_Port n) \<and> in_int64 (mn_APIPort n) \<and> in_int64 (nm_totalNodes (sp_nodeManager s')) \<longrightarrow>
      (\<exists>n' cfg. mget (nm_heap (process_launch (Launched t) a (process_begin a (sp_nodeManager s')))) a = Some n' \<and>
         mn_Status n' = NodeStatusRunning \<and> validator_config env (mn_args n') = Inr cfg \<and> lc_NodeID cfg = i \<and>
         bootstrap_infos parse info (lc_BootstrapPeers cfg) = []))"
proof -
  let ?m = "sp_nodeManager s'"
  obtain s1 p b where "manage now (StartNode i p b '''') s1 = (None, s')" using restarted_start [OF assms] by blast
  then obtain m where m: "startNodeWithTotal i p b '''' 0 m = (None, ?m\<lparr>nm_calls := nm_calls m\<rparr>)" using managed_start by blast
  obtain n where n: "mget (nm_heap ?m) (nm_next m) = Some n" "mn_phase n = Spawned" "mn_ID n = i" "mn_bootstrapAddr n = ''''"
    using started_address(2) [OF m] by auto
  have "\<exists>n' cfg. mget (nm_heap (process_launch (Launched t) (nm_next m) (process_begin (nm_next m) ?m))) (nm_next m) = Some n' \<and>
         mn_Status n' = NodeStatusRunning \<and> validator_config env (mn_args n') = Inr cfg \<and> lc_NodeID cfg = i \<and>
         bootstrap_infos parse info (lc_BootstrapPeers cfg) = []"
    if "in_int64 (mn_Port n)" "in_int64 (mn_APIPort n)" "in_int64 (nm_totalNodes ?m)"
    using n that by (simp add: process_launch_def process_begin_def change_heap Let_def command_line_read split_peers_def
        bootstrap_infos_def List.map_filter_simps)
  then show ?thesis using started_address(1) [OF m] n by auto
qed

lemma node_of_calls: "node_of i (m\<lparr>nm_calls := cs\<rparr>) = node_of i m"
  by (simp add: node_of_def split: option.splits)

text \<open>A supervisor with one node that failed to start, restarted.\<close>

definition one_failed :: Supervisor where
  "one_failed = (sup_NewServer '''' '''')\<lparr>sp_nodeManager := first_failed\<rparr>"

theorem restart_forgets_bootstrap_witness:
  "\<exists>s'. handleRestartNode 0 (\<lambda>s. s) ''node0'' one_failed = (WriteJSON (ActionData ''restarting'' ''node0''), s') \<and>
     (\<exists>a n. mget (nm_nodes (sp_nodeManager s')) ''node0'' = Some a \<and> mget (nm_heap (sp_nodeManager s')) a = Some n)"
proof -
  obtain n where n: "node_of ''node0'' first_failed = Some n" "mn_Status n = NodeStatusError" using first_failed_node by blast
  have "fst (handleRestartNode 0 (\<lambda>s. s) ''node0'' one_failed) = WriteJSON (ActionData ''restarting'' ''node0'')"
  proof -
    have "fst (startNodeWithTotal ''node0'' p b '''' 0 (first_failed\<lparr>nm_calls := []\<rparr>)) = None" for p b
      using n by (simp add: start_fails_iff node_of_calls)
    then have "\<exists>m. startNodeWithTotal ''node0'' p b '''' 0 (first_failed\<lparr>nm_calls := []\<rparr>) = (None, m)" for p b
      by (metis prod.collapse)
    then obtain m where "startNodeWithTotal ''node0'' (mn_IsPrimary n) (mn_IsBootstrap n) '''' 0 (first_failed\<lparr>nm_calls := []\<rparr>) = (None, m)"
      by blast
    then show ?thesis
      using n by (auto simp: handleRestartNode_def one_failed_def GetNode_def copy_node_def restart_start_def manage_def StartNode_def
          split: prod.splits)
  qed
  then obtain s' where s': "handleRestartNode 0 (\<lambda>s. s) ''node0'' one_failed = (WriteJSON (ActionData ''restarting'' ''node0''), s')"
    by (metis prod.collapse)
  from restart_forgets_bootstrap [OF s'] s' show ?thesis by blast
qed

end
