(* ===== verification/Startup.thy ===== *)
theory Startup
  imports Launch
begin

text \<open>
  How a validator comes up and goes down: the identity and the address of its libp2p host
  (\<open>NewP2PHost\<close> of \<open>pkg/network/host.go\<close>), the order in which \<open>NewValidatorNode\<close> opens its parts
  and what it closes again when one of them fails, \<open>Stop\<close>, and the callback for found peers.

  Keys are of a type \<open>'k\<close>; generating them, parsing addresses and creating the host are
  libp2p's and parameters.
\<close>

section \<open>The host\<close>

definition host_key ::
  "(deterministicReader \<Rightarrow> string + 'k) \<Rightarrow> string + 'k \<Rightarrow> string \<Rightarrow> 'k option \<Rightarrow> string \<Rightarrow> string + 'k" where
  "host_key gen random envSeed privateKey nodeID =
     (case privateKey of
        Some k \<Rightarrow> Inr k
      | None \<Rightarrow>
          if nodeID \<noteq> '''' then
            (case GenerateDeterministicKey gen envSeed nodeID of
               Inl err \<Rightarrow> Inl (''failed to generate deterministic key: '' @ err) | Inr k \<Rightarrow> Inr k)
          else (case random of Inl err \<Rightarrow> Inl (''failed to generate key pair: '' @ err) | Inr k \<Rightarrow> Inr k))"

definition listen_address :: "int \<Rightarrow> string" where
  "listen_address port = ''/ip4/0.0.0.0/tcp/'' @ FormatInt port"

definition NewP2PHost ::
  "string + 'k \<Rightarrow> (string \<Rightarrow> string + 'a) \<Rightarrow> ('k \<Rightarrow> 'a \<Rightarrow> string + 'h) \<Rightarrow> int \<Rightarrow> string + 'h" where
  "NewP2PHost key parse new port =
     (case key of
        Inl err \<Rightarrow> Inl err
      | Inr privKey \<Rightarrow>
          (case parse (listen_address port) of
             Inl err \<Rightarrow> Inl (''failed to create listen address: '' @ err)
           | Inr listenAddr \<Rightarrow>
               (case new privKey listenAddr of
                  Inl err \<Rightarrow> Inl (''failed to create libp2p host: '' @ err)
                | Inr h \<Rightarrow> Inr h)))"

text \<open>The peer ID the supervisor derives for the bootstrap node of a cluster.\<close>

definition bootstrap_peer :: "(deterministicReader \<Rightarrow> string + 'k) \<Rightarrow> ('k \<Rightarrow> string + string) \<Rightarrow> string \<Rightarrow> string + string" where
  "bootstrap_peer gen peerOf envSeed =
     (case GenerateDeterministicKey gen envSeed ''node0'' of Inl err \<Rightarrow> Inl err | Inr k \<Rightarrow> peerOf k)"

section \<open>Coming up and going down\<close>

datatype part = PStore | PHost | PDiscovery | PGossip | PPbft | PApi

datatype life = Opened part | Closed part | Cancelled

text \<open>\<open>Stop\<close> on a node that has the given parts.\<close>

definition validator_Stop :: "part set \<Rightarrow> life list" where
  "validator_Stop parts = Cancelled # map Closed (filter (\<lambda>p. p \<in> parts) [PApi, PPbft, PGossip, PDiscovery, PHost, PStore])"

text \<open>The errors of the constructors; for a part that is not reached the field does not matter.\<close>

record Outcomes =
  oc_mkdir :: "string option"
  oc_store :: "string option"
  oc_host :: "string option"
  oc_discovery :: "string option"
  oc_gossip :: "string option"
  oc_pbft :: "string option"
  oc_api :: "string option"

definition validator_open :: "Outcomes \<Rightarrow> string option \<times> life list" where
  "validator_open oc =
     (case oc_mkdir oc of
        Some err \<Rightarrow> (Some (''failed to create data directory: '' @ err), [Cancelled])
      | None \<Rightarrow>
     (case oc_store oc of
        Some err \<Rightarrow> (Some (''failed to initialize storage: '' @ err), [Cancelled])
      | None \<Rightarrow>
     (case oc_host oc of
        Some err \<Rightarrow> (Some (''failed to initialize P2P host: '' @ err), [Opened PStore, Closed PStore, Cancelled])
      | None \<Rightarrow>
     (case oc_discovery oc of
        Some err \<Rightarrow> (Some (''failed to initialize discovery: '' @ err),
          [Opened PStore, Opened PHost, Closed PHost, Closed PStore, Cancelled])
      | None \<Rightarrow>
     (case oc_gossip oc of
        Some err \<Rightarrow> (Some (''failed to initialize gossip engine: '' @ err),
          [Opened PStore, Opened PHost, Opened PDiscovery, Closed PDiscovery, Closed PHost, Closed PStore, Cancelled])
      | None \<Rightarrow>
     (case oc_pbft oc of
        Some err \<Rightarrow> (Some (''failed to initialize PBFT: '' @ err),
          [Opened PStore, Opened PHost, Opened PDiscovery, Opened PGossip,
           Closed PDiscovery, Closed PHost, Closed PStore, Cancelled])
      | None \<Rightarrow>
     (case oc_api oc of
        Some err \<Rightarrow> (Some (''failed to initialize API server: '' @ err),
          [Opened PStore, Opened PHost, Opened PDiscovery, Opened PGossip, Opened PPbft] @
          validator_Stop {PStore, PHost, PDiscovery, PGossip, PPbft})
      | None \<Rightarrow> (None, [Opened PStore, Opened PHost, Opened PDiscovery, Opened PGossip, Opened PPbft, Opened PApi]))))))))"

text \<open>
  \<open>setupPeerCallbacks\<close>: the peer to ask for its state when discovery reports a found peer. It
  replaces the callback that \<open>setupHandlers\<close> registered.
\<close>

definition peer_found :: "bool \<Rightarrow> AddrInfo \<Rightarrow> string option" where
  "peer_found isConnected peerInfo = (if isConnected then Some (ai_ID peerInfo) else None)"

section \<open>Resources\<close>

text \<open>The parts that are open after a sequence of events: cancelling ends those that only have a context.\<close>

fun still_open :: "life list \<Rightarrow> part list \<Rightarrow> part list" where
  "still_open [] ps = ps"
| "still_open (Opened p # es) ps = still_open es (p # ps)"
| "still_open (Closed p # es) ps = still_open es (remove1 p ps)"
| "still_open (Cancelled # es) ps = still_open es (filter (\<lambda>p. p \<notin> {PGossip, PPbft}) ps)"

text \<open>
  Whichever constructor fails, a validator that does not come up has released everything it
  opened: the store, the host, discovery and the API server by closing them, the gossip
  engine and the replica by their cancelled context; a validator that comes up has opened
  every part, and \<open>Stop\<close> releases all of them.
\<close>

theorem failed_start_releases:
  "(\<forall>err es. validator_open oc = (Some err, es) \<longrightarrow> still_open es [] = []) \<and>
   (\<forall>es. validator_open oc = (None, es) \<longrightarrow> set (still_open es []) = {PStore, PHost, PDiscovery, PGossip, PPbft, PApi} \<and>
      still_open (es @ validator_Stop (set (still_open es []))) [] = [])"
  by (auto simp: validator_open_def validator_Stop_def split: option.splits)

section \<open>The address of the bootstrap node\<close>

lemma Split_single: "CHR '','' \<notin> set s \<Longrightarrow> Split (CHR '','') s = [s]"
  by (induction s) auto

lemma TrimSpace_id: "list_all (\<lambda>c. \<not> is_space c) s \<Longrightarrow> TrimSpace s = s"
proof -
  have "dropWhile is_space xs = xs" if "list_all (\<lambda>c. \<not> is_space c) xs" for xs
    using that by (cases xs) simp_all
  moreover assume "list_all (\<lambda>c. \<not> is_space c) s"
  moreover from this have "list_all (\<lambda>c. \<not> is_space c) (rev s)" by (simp add: list_all_iff)
  ultimately show ?thesis by (simp add: TrimSpace_def)
qed

text \<open>Characters that neither separate addresses nor are trimmed.\<close>

definition address_char :: "char \<Rightarrow> bool" where
  "address_char c \<longleftrightarrow> c \<noteq> CHR '','' \<and> \<not> is_space c"

lemma split_peers_single: "s \<noteq> '''' \<Longrightarrow> list_all address_char s \<Longrightarrow> split_peers s = [s]"
proof -
  assume s: "s \<noteq> ''''" "list_all address_char s"
  then have "CHR '','' \<notin> set s" by (auto simp: list_all_iff address_char_def)
  then have "Split (CHR '','') s = [s]" by (rule Split_single)
  moreover have "list_all (\<lambda>c. \<not> is_space c) s" using s(2) by (simp add: list_all_iff address_char_def)
  then have "TrimSpace s = s" by (rule TrimSpace_id)
  ultimately show ?thesis using s(1) by (simp add: split_peers_def)
qed

lemma digit_address_char: "d < 10 \<Longrightarrow> address_char (digit_char d)"
proof -
  assume "d < 10"
  then have n: "(of_char (digit_char d) :: nat) = 48 + d" by simp
  then have "digit_char d \<noteq> CHR '',''" by (simp add: of_char_eq_iff [symmetric, where ?'a = nat] del: of_char_eq_iff)
  with n show ?thesis by (simp add: address_char_def is_space_def)
qed

lemma dec_nat_address: "list_all address_char (dec_nat n)"
  using dec_nat_digits digit_address_char by (metis list_all_iff)

lemma FormatInt_address: "list_all address_char (FormatInt x)"
  using dec_nat_address by (simp add: FormatInt_def address_char_def is_space_def)

lemma bootstrap_address_chars: "list_all address_char peer \<Longrightarrow> list_all address_char (bootstrap_address port peer)"
  by (simp add: bootstrap_address_def FormatInt_address) (simp add: address_char_def is_space_def)

text \<open>
  C33: in a cluster that the supervisor starts, the address on the command line of every other
  node is one at which \<open>node0\<close> really listens, with the peer ID that \<open>node0\<close> really has: its
  process derives the same key from its ID and the inherited seed as the supervisor did. The
  hypothesis on peer IDs is that their text has no commas and no white space.
\<close>

theorem cluster_finds_bootstrap_node:
  assumes "nm_inv m" and "some_order order" and "n < 2 ^ 62" and "k \<in> {1..<n}"
    and "bootstrap_peer gen peerOf (env ''DTVN_KEY_SEED'') = Inr peer" and "list_all address_char peer"
    and "m' = startClusterAsync order (bootstrap_peer gen peerOf (env ''DTVN_KEY_SEED'')) n (cluster_reset n m)"
    and "node_of (nth_node 0) m' = Some nd0" and "in_int64 (mn_Port nd0)" and "in_int64 (mn_APIPort nd0)"
    and "node_of (nth_node k) m' = Some nd" and "in_int64 (mn_Port nd)" and "in_int64 (mn_APIPort nd)"
  shows "\<exists>c0 c privKey. validator_config (node_env key env) (command_args nd0 m') = Inr c0 \<and>
    validator_config (node_env key env) (command_args nd m') = Inr c \<and>
    host_key gen random (node_env key env ''DTVN_KEY_SEED'') None (lc_NodeID c0) = Inr privKey \<and> peerOf privKey = Inr peer \<and>
    lc_BootstrapPeers c = [''/ip4/127.0.0.1/tcp/'' @ FormatInt (lc_ListenPort c0) @ ''/p2p/'' @ peer]"
proof -
  have n: "1 \<le> n" "0 \<in> {0..<n}" "k \<in> {0..<n}" "k \<noteq> 0" using assms(4) by auto
  have m': "m' = startClusterAsync order (Inr peer) n (cluster_reset n m)" using assms(5,7) by simp
  note c = cluster_started [OF assms(1,2) n(1) m']
  have "in_int64 (nm_totalNodes m')" using c(1) n(1) assms(3) by (simp add: cluster_state_def in_int64_def)
  note read = command_line_read [OF assms(9,10) this] command_line_read [OF assms(12,13) this]
  have port: "mn_Port nd0 = nm_basePort m"
    using c(1,4) n(2) assms(8) by (simp add: cluster_state_def port_of_def)
  have id0: "mn_ID nd0 = ''node0''" using cluster_node [OF c(1) n(2)] assms(8) nth_node_0 by (metis option.inject)
  have "mn_bootstrapAddr nd = bootstrap_address (nm_basePort m) peer"
    using cluster_node [OF c(1) n(3)] assms(11) n(4) by (metis option.inject)
  moreover have "split_peers (bootstrap_address (nm_basePort m) peer) = [bootstrap_address (nm_basePort m) peer]"
    using bootstrap_address_chars [OF assms(6)] by (intro split_peers_single) (simp_all add: bootstrap_address_def)
  moreover obtain privKey where "GenerateDeterministicKey gen (env ''DTVN_KEY_SEED'') ''node0'' = Inr privKey" "peerOf privKey = Inr peer"
    using assms(5) by (auto simp: bootstrap_peer_def split: sum.splits)
  moreover have "node_env key env ''DTVN_KEY_SEED'' = env ''DTVN_KEY_SEED''" by (simp add: node_env_def)
  ultimately show ?thesis using id0 port by (simp add: read host_key_def bootstrap_address_def)
qed

text \<open>A cluster of two nodes on a new manager.\<close>

definition pair_started :: NodeManager where
  "pair_started = startClusterAsync rev (Inr ''Qm'') 2 (cluster_reset 2 (NewNodeManager quiet_config))"

lemma pair_nodes:
  "\<exists>nd. mget (nm_nodes pair_started) (nth_node 1) = Some 1 \<and> mget (nm_heap pair_started) 1 = Some nd \<and>
     mn_Port nd = 4002 \<and> mn_APIPort nd = 9002"
  "\<exists>nd. node_of (nth_node 0) pair_started = Some nd \<and> mn_Port nd = 4001 \<and> mn_APIPort nd = 9001"
  unfolding pair_started_def startClusterAsync_def async_address_def async_fail_def async_finish_def nth_node_0 [symmetric]
  by (simp_all add: cluster_reset_def NewNodeManager_def quiet_config_def startNodeWithTotal_def node_of_def
      notifyCluster_def cluster_batches.simps batch_names_nth golen_upd Let_def)

lemma some_order_rev: "some_order rev"
  by (simp add: some_order_def)

theorem cluster_finds_bootstrap_node_witness:
  "\<exists>nd c. node_of (nth_node 1) pair_started = Some nd \<and> validator_config (node_env '''' (\<lambda>v. '''')) (command_args nd pair_started) = Inr c \<and>
     (\<exists>port. lc_BootstrapPeers c = [''/ip4/127.0.0.1/tcp/'' @ FormatInt port @ ''/p2p/Qm''])"
proof -
  let ?gen = "\<lambda>r. Inr () :: string + unit" and ?peer = "\<lambda>k. Inr ''Qm'' :: string + string"
  have peer: "bootstrap_peer ?gen ?peer '''' = Inr ''Qm''" by (simp add: bootstrap_peer_def GenerateDeterministicKey_def)
  have chars: "list_all address_char ''Qm''" by (simp add: address_char_def is_space_def)
  have start: "pair_started = startClusterAsync rev (bootstrap_peer ?gen ?peer '''') 2 (cluster_reset 2 (NewNodeManager quiet_config))"
    unfolding peer by (rule pair_started_def)
  obtain nd0 where nd0: "node_of (nth_node 0) pair_started = Some nd0" "mn_Port nd0 = 4001" "mn_APIPort nd0 = 9001"
    using pair_nodes(2) by blast
  obtain nd where nd: "node_of (nth_node 1) pair_started = Some nd" "mn_Port nd = 4002" "mn_APIPort nd = 9002"
    using pair_nodes(1) by (auto simp: node_of_def)
  show ?thesis
    using cluster_finds_bootstrap_node [OF New_consecutive(2) some_order_rev _ _ peer chars start nd0(1) _ _ nd(1)] nd0 nd
    by (fastforce simp: in_int64_def)
qed

end
