(* ===== verification/Spec2Isabelle.thy ===== *)
theory Spec2Isabelle
  imports PBFT_Properties Gossip Validator_Api Node_Manager_Properties Simulator_Report Supervisor_Properties Startup
begin

text \<open>
  A verification of DTVN, a distributed network for the validation of tickets, written in Go.

  \<^bold>\<open>The program.\<close> A validator process (\<open>cmd/validator\<close>) holds a state machine of tickets, a PBFT
  replica that orders the operations on them, a gossip engine and a router on a libp2p host,
  a persistent store and an HTTP API. A client's request to validate a ticket is proposed by
  the primary, agreed by PREPARE and COMMIT votes, executed on the state machine by the
  consensus handler, written to the store and published to peers; a node that is not the
  primary forwards it. Consuming and disputing a ticket act on the local state machine. A
  supervisor process (\<open>cmd/supervisor\<close>) starts and stops validators and the simulator
  (\<open>cmd/simulator\<close>), reads their output, hands ticket requests on to the primary and reports to
  a web page over WebSockets.

  \<^bold>\<open>Theories and sources.\<close>
  \<^item> \<open>Prelude\<close>, \<open>Go_Text\<close>, \<open>Go_Strings\<close>, \<open>Go_Flag\<close>, \<open>Sha256\<close>: Go values, and what the sources use of the
    standard library. A Go map is a finite map, with the order of iteration an argument where
    it matters; strings and byte slices are char lists; integers are \<open>int\<close> with the wrap-around
    of \<open>int64\<close> written out where it can occur, or words.
  \<^item> \<open>Vector_Clock\<close> (\<open>pkg/state/vectorclock.go\<close>), \<open>Ticket_State\<close> (\<open>pkg/state/machine.go\<close>), \<open>Quorum\<close> and \<open>Messages\<close>
    (\<open>pkg/consensus/quorum.go\<close>, \<open>messages.go\<close>), \<open>PBFT\<close> (\<open>pbft.go\<close>), \<open>Message_Cache\<close> and \<open>Gossip\<close>
    (\<open>pkg/gossip\<close>), \<open>Storage\<close> (\<open>pkg/storage/store.go\<close>), \<open>Network\<close> and \<open>Discovery\<close> (\<open>pkg/network\<close>), \<open>Api\<close>
    (\<open>pkg/api\<close>): one record per struct, one definition per method, with the names of the source.
  \<^item> \<open>PBFT_Steps\<close>, \<open>PBFT_Safety\<close>, \<open>PBFT_Order\<close>, \<open>PBFT_Properties\<close>: runs of a replica as sequences of
    events, what an execution rests on, the abstract slot of one sequence number, and agreement,
    view changes, checkpoints and the message queue. The slot has an oracle for what the
    registered handlers answer and whether the codec marshals the node's own votes, so that
    every message handler refines it without conditions.
  \<^item> \<open>Validator\<close>, \<open>Validator_Properties\<close>, \<open>Validator_Api\<close> (\<open>cmd/validator/main.go\<close>): the node that puts the
    parts together. The state machine's handlers run inside the replica's executions, the store
    inside the handlers. \<open>Validator_Api\<close> shows that the node implements what the API relies on.
  \<^item> \<open>Node_Manager\<close>, \<open>Simulator_Controller\<close>, \<open>Supervisor\<close>, \<open>Supervisor_Proxy\<close> (\<open>pkg/supervisor\<close>): processes,
    handlers, callbacks, WebSocket clients, the proxy to the nodes, routes and authentication.
    Goroutines are steps between the requests; \<open>Node_Manager_Properties\<close> and
    \<open>Supervisor_Properties\<close> have the step relations and their invariants. The proxy records
    every request it sends, and what the nodes answer may depend on all of them.
  \<^item> \<open>Simulator\<close> (\<open>cmd/simulator/main.go\<close>) and \<open>Simulator_Report\<close>: the simulation, and that the controller
    reads back what it prints.
  \<^item> \<open>Launch\<close> and \<open>Startup\<close>: the command lines of validator and supervisor, what the supervisor's way
    of starting validators means for them, the identity of a host, and the order in which a
    validator opens and closes its parts.

  \<^bold>\<open>Interfaces.\<close> The contracts between parts are locales: the laws of a quorum system
  (\<open>quorum_system\<close>, used for agreement), of a filter without false negatives (\<open>membership_filter\<close>,
  under the message cache), of an order-preserving key (\<open>ordered_key\<close>, under the checkpoints), of
  a join of clocks (\<open>clock_join\<close>, under merging), of a service that spends a
  ticket once unless something harmful intervenes (\<open>ticket_service\<close>, under the API) and of a component that reports through callbacks (\<open>reporting_component\<close>, under the
  supervisor). Each is interpreted on the definitions of the model.

  \<^bold>\<open>What the lemmas show.\<close>
  \<^item> Consensus: at the very point of an execution 2f+1 commit votes are recorded; whether a
    request is executed does not depend on the order of messages, while handlers that refuse
    it are run again; replicas agree as long as they accepted no two requests for a number,
    and an equivocating primary breaks that; which view a replica adopts and which entries a
    checkpoint removes, and that both need their quorums; callbacks fire at most once; the
    queue is bounded.
  \<^item> Tickets: every ticket follows its state graph and is validated and consumed at most once
    per node, with a log that replays, as long as no remote state is merged; when merging
    converges, and when not. Merging itself is not logged and may take a ticket back.
  \<^item> Messages and storage: what survives the wire, the log and a restart; that caches and
    filters answer as the sets they stand for; that clocks decide causality.
  \<^item> Gossip: which messages reach the handlers under every interleaving of receives, and that
    it is one per ID only if receives do not overlap.
  \<^item> Servers: the key guards the state of both servers, a ticket is consumed once through the
    API unless states are merged, validate, consume and dispute requests are sent to an
    acting primary and to no other node (validation at a chosen node bypasses it), messages
    to clients are bounded and throttled, and statuses follow processes.
  \<^item> Composition: a launched validator has the configuration the supervisor chose; the nodes of
    a cluster find their bootstrap node and share one quorum, while nodes started one by one
    do not; a validator that fails to start releases what it opened.

  \<^bold>\<open>Bounds and parameters.\<close> No definition has fuel: loops are structural or have termination
  proofs, and endless loops are modelled by their turns. Parameters, with their laws as named
  hypotheses where a property needs one, are: the protobuf and JSON codecs, BoltDB, libp2p
  (hosts, peer IDs, multiaddresses, the DHT), the HTTP router and client, the operating system
  (files, processes), clocks and random draws. Handlers run to completion between steps, as
  the mutexes of the source make them; where the source unlocks in between (between the look
  into the message cache and the insertion, between the halves of \<open>StopNode\<close>, between the
  pieces of a cluster start, waiting for consensus, for a process, for connections), the model
  has a step or an argument for what happens in the meantime. The uninterrupted calls
  (\<open>ReceiveMessage\<close>, \<open>StopNode\<close>, \<open>startClusterAsync\<close>) are compositions of these steps. Floating-point rates are rational numbers. Signatures are not
  checked anywhere in the source, so votes and messages are arbitrary in every theorem.

  \<^bold>\<open>Not modelled.\<close> The metrics (\<open>internal/metrics\<close>), the Ed25519 wrappers (\<open>internal/crypto\<close>) and the
  plain types of \<open>internal/types\<close> are imported by no program; the protobuf code is generated. The
  timers that start passes of discovery, gossip and monitoring are represented by steps that
  may happen at any time, so no property speaks about how soon something happens. The
  64 kilobytes at which a line scanner gives up (the output of a simulation stays far below), the
  simulator's own flags and the pages of the web interface are left out.
\<close>

section \<open>A cluster of validators\<close>

lemma cluster_quorum:
  assumes "1 \<le> n" and "n < 2 ^ 62"
  shows "max_faulty n = (n - 1) div 3"
  using assms by (simp add: max_faulty_def int64_id in_int64_def sdiv_nonneg)

lemma elected_in_cluster:
  assumes "1 \<le> n" and "0 \<le> v"
  shows "expected_primary v n \<in> nth_node ` {0..<n}"
proof -
  have "v smod n = v mod n" using assms by (simp add: smod_nonneg)
  then have "expected_primary v n = nth_node (v mod n)" by (simp add: expected_primary_def node_name_def nth_node_def)
  moreover have "v mod n \<in> {0..<n}" using assms by simp
  ultimately show ?thesis by (rule image_eqI)
qed

text \<open>
  C30: when the supervisor starts a cluster of \<open>n\<close> nodes, then, whatever was there before and in
  whatever order the starts of a batch run, the process it launches for each of the nodes
  \<open>node0\<close> to \<open>node(n-1)\<close> takes part in consensus under this name, with a network of \<open>n\<close> nodes
  and \<open>2 * ((n - 1) div 3) + 1\<close> votes required; \<open>node0\<close> alone is the first primary, every other
  node is given its address, and the primary that a later view elects is again one of these
  nodes.
\<close>

theorem cluster_shares_consensus:
  assumes "nm_inv m" and "some_order order" and "1 \<le> n" and "n < 2 ^ 62"
    and "m' = startClusterAsync order (Inr peer) n (cluster_reset n m)"
    and "k \<in> {0..<n}" and "mget (nm_nodes m') (nth_node k) = Some a" and "mget (nm_heap m') a = Some nd"
    and "in_int64 (mn_Port nd)" and "in_int64 (mn_APIPort nd)"
  shows "\<exists>nd' cfg. mget (nm_heap (process_launch (Launched now) a m')) a = Some nd' \<and>
    validator_config env (mn_args nd') = Inr cfg \<and>
    lc_BootstrapPeers cfg = (if k = 0 then [] else split_peers (bootstrap_address (nm_basePort m) peer)) \<and>
    (\<forall>app r. r = NewPBFTNode (pbft_config cfg) app \<longrightarrow>
       n_nodeID r = nth_node k \<and> n_isPrimary r = (k = 0) \<and> n_totalNodes r = n \<and>
       required_votes r = 2 * ((n - 1) div 3) + 1 \<and>
       (\<forall>v \<ge> 0. expected_primary v (n_totalNodes r) \<in> nth_node ` {0..<n}))"
proof -
  note c = cluster_started(1) [OF assms(1-3,5)]
  obtain nd0 where "node_of (nth_node k) m' = Some nd0" and f: "mn_ID nd0 = nth_node k" "mn_IsPrimary nd0 = (k = 0)"
      "mn_bootstrapAddr nd0 = (if k = 0 then '''' else bootstrap_address (nm_basePort m) peer)"
    using cluster_node [OF c assms(6)] by metis
  then have nd: "nd0 = nd" using assms(7,8) by (simp add: node_of_def)
  have tot: "nm_totalNodes m' = n" using c by (simp add: cluster_state_def)
  have "in_int64 (nm_totalNodes m')" using tot assms(3,4) by (simp add: in_int64_def)
  then have read: "validator_config env (command_args nd m') =
    Inr \<lparr>lc_NodeID = mn_ID nd, lc_ListenPort = mn_Port nd, lc_APIPort = mn_APIPort nd,
         lc_DataDir = path_Join [nm_dataDir m', mn_ID nd], lc_BootstrapPeers = split_peers (mn_bootstrapAddr nd),
         lc_IsBootstrap = mn_IsBootstrap nd, lc_IsPrimary = mn_IsPrimary nd, lc_TotalNodes = n,
         lc_APIKey = env ''DTVN_API_KEY''\<rparr>"
    using command_line_read [OF assms(9,10)] tot by simp
  have "0 \<le> (n - 1) div 3" using assms(3) by simp
  then show ?thesis
    using f nd assms(8) read elected_in_cluster [OF assms(3)] cluster_quorum [OF assms(3,4)]
    by (simp add: process_launch_def change_heap pbft_config_def NewPBFTNode_def required_votes_def Let_def split_peers_def)
qed

theorem cluster_shares_consensus_witness:
  "\<exists>nd' cfg. mget (nm_heap (process_launch (Launched 0) 1 pair_started)) 1 = Some nd' \<and>
     validator_config (\<lambda>v. '''') (mn_args nd') = Inr cfg \<and>
     n_totalNodes (NewPBFTNode (pbft_config cfg) ()) = 2 \<and> n_nodeID (NewPBFTNode (pbft_config cfg) ()) = nth_node 1"
proof -
  obtain nd where nd: "mget (nm_nodes pair_started) (nth_node 1) = Some 1" "mget (nm_heap pair_started) 1 = Some nd"
      "mn_Port nd = 4002" "mn_APIPort nd = 9002"
    using pair_nodes(1) by blast
  have "in_int64 (mn_Port nd)" "in_int64 (mn_APIPort nd)" using nd by (simp_all add: in_int64_def)
  then show ?thesis
    using cluster_shares_consensus [OF New_consecutive(2) some_order_rev _ _ pair_started_def, of 1 1 nd 0 "\<lambda>v. ''''"] nd(1,2) by auto
qed

end
